(* ===== verification/Prelude.thy ===== *)
theory Prelude
  imports Complex_Main "HOL-Library.AList" "HOL-Library.Char_ord" "HOL-Library.List_Lexorder"
begin

text \<open>
  Shared vocabulary of the development.

  \<^item> A Python \<open>dict\<close> is an association list: iteration order is insertion order, and an
    assignment to an existing key keeps the key's position, which is what \<open>AList.update\<close>
    does; \<open>map_of\<close> reads and \<open>AList.delete\<close> removes.
  \<^item> List helpers for \<open>next(i for i, x in enumerate(xs) if ...)\<close>, \<open>xs.pop(i)\<close> and in-place
    update of the first element with a property.
  \<^item> Decimal rendering of counters (\<open>str(n)\<close>) and \<open>sep.join\<close>, with the injectivity facts the
    identifiers built from them rely on.
  \<^item> The locale of dictionaries, interpreted on association lists.
\<close>

named_theorems frame_simps \<open>fields that an operation leaves unchanged\<close>
named_theorems inv_intros \<open>operations that keep a component invariant\<close>

section \<open>Dictionaries\<close>

type_synonym ('k, 'v) dict = "('k \<times> 'v) list"

abbreviation dget :: "('k, 'v) dict \<Rightarrow> 'k \<Rightarrow> 'v option" where
  "dget d k \<equiv> map_of d k"

abbreviation dset :: "'k \<Rightarrow> 'v \<Rightarrow> ('k, 'v) dict \<Rightarrow> ('k, 'v) dict" where
  "dset k v d \<equiv> AList.update k v d"

abbreviation dpop :: "'k \<Rightarrow> ('k, 'v) dict \<Rightarrow> ('k, 'v) dict" where
  "dpop k d \<equiv> AList.delete k d"

abbreviation dkeys :: "('k, 'v) dict \<Rightarrow> 'k list" where
  "dkeys d \<equiv> map fst d"

text \<open>\<open>d.get(k, default)\<close>.\<close>

definition dget_or :: "('k, 'v) dict \<Rightarrow> 'k \<Rightarrow> 'v \<Rightarrow> 'v" where
  "dget_or d k v = (case dget d k of None \<Rightarrow> v | Some x \<Rightarrow> x)"

lemma dget_dset [simp]: "dget (dset k v d) = (dget d)(k \<mapsto> v)"
  by (rule update_conv')

lemma dget_dpop [simp]: "dget (dpop k d) = (dget d)(k := None)"
  by (rule delete_conv')

lemma dkeys_dset: "dkeys (dset k v d) = (if k \<in> set (dkeys d) then dkeys d else dkeys d @ [k])"
  by (induction d) auto

lemma dkeys_dset_existing [simp]: "dget d k \<noteq> None \<Longrightarrow> dkeys (dset k v d) = dkeys d"
  by (auto simp: dkeys_dset map_of_eq_None_iff)

lemma dkeys_dpop: "dkeys (dpop k d) = filter (\<lambda>k'. k' \<noteq> k) (dkeys d)"
  by (induction d) auto

lemma distinct_dkeys_dset [simp]: "distinct (dkeys d) \<Longrightarrow> distinct (dkeys (dset k v d))"
  by (rule distinct_update)

lemma distinct_dkeys_dpop [simp]: "distinct (dkeys d) \<Longrightarrow> distinct (dkeys (dpop k d))"
  by (simp add: dkeys_dpop)

lemma dget_mem_keys: "dget d k = Some v \<Longrightarrow> k \<in> set (dkeys d)"
  by (force dest: map_of_SomeD)

lemma dget_keys: "(dget d k = None) = (k \<notin> set (dkeys d))"
  by (simp add: map_of_eq_None_iff)

lemma dset_same [simp]: "dget d k = Some v \<Longrightarrow> dset k v d = d"
  by (induction d) auto

lemma dset_dset [simp]: "dset k w (dset k v d) = dset k w d"
  by (induction d) auto

lemma dset_fresh: "k \<notin> set (dkeys d) \<Longrightarrow> dset k v d = d @ [(k, v)]"
  by (induction d) auto

lemma dset_values: "distinct (dkeys d) \<Longrightarrow> (k', v') \<in> set (dset k v d) \<longleftrightarrow>
    (if k' = k then v' = v else (k', v') \<in> set d)"
  by (induction d) (force simp: image_iff)+

lemma list_all_dget:
  "distinct (dkeys d) \<Longrightarrow> list_all (\<lambda>(k, v). P k v) d \<longleftrightarrow> (\<forall>k v. dget d k = Some v \<longrightarrow> P k v)"
  by (auto simp: list_all_iff)

lemma dget_same_keys: "dkeys d' = dkeys d \<Longrightarrow> dget d' k = Some v' \<Longrightarrow> \<exists>v. dget d k = Some v"
  using dget_keys [of d k] dget_mem_keys [of d' k v'] by auto

text \<open>The dictionary contract, and association lists as the model's dictionaries.\<close>

locale dictionary =
  fixes empty :: 'd
    and lookup :: "'d \<Rightarrow> 'k \<Rightarrow> 'v option"
    and assign :: "'k \<Rightarrow> 'v \<Rightarrow> 'd \<Rightarrow> 'd"
    and remove :: "'k \<Rightarrow> 'd \<Rightarrow> 'd"
  assumes lookup_empty: "lookup empty k = None"
    and lookup_assign: "lookup (assign k v d) k' = (if k' = k then Some v else lookup d k')"
    and lookup_remove: "lookup (remove k d) k' = (if k' = k then None else lookup d k')"
begin

lemma lookup_assign_same: "lookup (assign k v d) k = Some v"
  by (simp add: lookup_assign)

lemma lookup_assign_other: "k' \<noteq> k \<Longrightarrow> lookup (assign k v d) k' = lookup d k'"
  by (simp add: lookup_assign)

lemma assign_overwrites: "lookup (assign k w (assign k v d)) k' = lookup (assign k w d) k'"
  by (simp add: lookup_assign)

lemma assign_commutes:
  "k \<noteq> j \<Longrightarrow> lookup (assign k v (assign j w d)) k' = lookup (assign j w (assign k v d)) k'"
  by (simp add: lookup_assign)

lemma remove_assign: "lookup (remove k (assign k v d)) k' = lookup (remove k d) k'"
  by (simp add: lookup_remove lookup_assign)

end

interpretation pydict: dictionary "[] :: ('k, 'v) dict" dget dset dpop
  by unfold_locales simp_all

section \<open>Lists\<close>

text \<open>\<open>next((i for i, x in enumerate(xs) if p(x)), None)\<close>.\<close>

fun find_index :: "('a \<Rightarrow> bool) \<Rightarrow> 'a list \<Rightarrow> nat option" where
  "find_index p [] = None"
| "find_index p (x # xs) = (if p x then Some 0 else map_option Suc (find_index p xs))"

text \<open>\<open>xs.pop(i)\<close> for an index in range.\<close>

definition remove_nth :: "nat \<Rightarrow> 'a list \<Rightarrow> 'a list" where
  "remove_nth i xs = take i xs @ drop (Suc i) xs"

text \<open>Mutation of the first element with a property, through a reference to it.\<close>

fun update_first :: "('a \<Rightarrow> bool) \<Rightarrow> ('a \<Rightarrow> 'a) \<Rightarrow> 'a list \<Rightarrow> 'a list" where
  "update_first p f [] = []"
| "update_first p f (x # xs) = (if p x then f x # xs else x # update_first p f xs)"

text \<open>\<open>xs.remove(x)\<close> for the first element with a property, when there is one.\<close>

fun remove_first :: "('a \<Rightarrow> bool) \<Rightarrow> 'a list \<Rightarrow> 'a list" where
  "remove_first p [] = []"
| "remove_first p (x # xs) = (if p x then xs else x # remove_first p xs)"

lemma find_index_None [simp]: "find_index p xs = None \<longleftrightarrow> (\<forall>x \<in> set xs. \<not> p x)"
  by (induction xs) auto

lemma find_index_Some: "find_index p xs = Some i \<Longrightarrow>
    i < length xs \<and> p (xs ! i) \<and> (\<forall>j < i. \<not> p (xs ! j))"
  by (induction xs arbitrary: i) (auto split: if_splits simp: nth_Cons split: nat.splits)

lemma find_index_split: "find_index p xs = Some i \<Longrightarrow>
    \<exists>ys y zs. xs = ys @ y # zs \<and> length ys = i \<and> p y \<and> (\<forall>x \<in> set ys. \<not> p x)"
proof (induction xs arbitrary: i)
  case Nil
  then show ?case by simp
next
  case (Cons x xs)
  show ?case
  proof (cases "p x")
    case True
    with Cons.prems show ?thesis by (intro exI [of _ "[]"]) auto
  next
    case False
    with Cons.prems obtain j where "find_index p xs = Some j" and i: "i = Suc j" by auto
    with Cons.IH obtain ys y zs where "xs = ys @ y # zs \<and> length ys = j \<and> p y \<and> (\<forall>x \<in> set ys. \<not> p x)"
      by blast
    with False i show ?thesis by (intro exI [of _ "x # ys"]) auto
  qed
qed

lemma remove_nth_split [simp]: "remove_nth (length ys) (ys @ y # zs) = ys @ zs"
  by (simp add: remove_nth_def)

lemma length_remove_nth [simp]: "i < length xs \<Longrightarrow> length (remove_nth i xs) = length xs - 1"
  by (simp add: remove_nth_def)

lemma set_remove_nth: "set (remove_nth i xs) \<subseteq> set xs"
  by (auto simp: remove_nth_def dest: in_set_takeD in_set_dropD)

lemma map_update_first [simp]: "(\<And>x. g (f x) = g x) \<Longrightarrow> map g (update_first p f xs) = map g xs"
  by (induction xs) auto

lemma map_update_first_cond: "(\<And>x. p x \<Longrightarrow> g (f x) = g x) \<Longrightarrow> map g (update_first p f xs) = map g xs"
  by (induction xs) auto

lemma length_update_first [simp]: "length (update_first p f xs) = length xs"
  by (induction xs) auto

lemma set_update_first: "set (update_first p f xs) \<subseteq> set xs \<union> f ` {x \<in> set xs. p x}"
  by (induction xs) auto

lemma set_remove_first: "set (remove_first p xs) \<subseteq> set xs"
  by (induction xs) auto

lemma length_remove_first: "\<exists>x \<in> set xs. p x \<Longrightarrow> Suc (length (remove_first p xs)) = length xs"
  by (induction xs) auto

lemma remove_first_none [simp]: "\<forall>x \<in> set xs. \<not> p x \<Longrightarrow> remove_first p xs = xs"
  by (induction xs) auto

lemma distinct_map_remove_first [simp]:
  "distinct (map f xs) \<Longrightarrow> distinct (map f (remove_first p xs))"
proof (induction xs)
  case Nil
  then show ?case by simp
next
  case (Cons x xs)
  then show ?case using set_remove_first [of p xs] by auto
qed

text \<open>A counting argument: a list shorter than \<open>n\<close> leaves one of \<open>0, ..., n - 1\<close> unused.\<close>

lemma free_index_exists: "length xs < n \<Longrightarrow> \<exists>i < n. i \<notin> set (xs :: nat list)"
proof (rule ccontr)
  assume "length xs < n" and "\<not> (\<exists>i < n. i \<notin> set xs)"
  then have "{..<n} \<subseteq> set xs" by auto
  then have "n \<le> card (set xs)" using card_mono [of "set xs" "{..<n}"] by simp
  also have "\<dots> \<le> length xs" by (rule card_length)
  finally show False using \<open>length xs < n\<close> by simp
qed

section \<open>Strings\<close>

text \<open>\<open>str(n)\<close> for a non-negative integer.\<close>

fun nat_to_string :: "nat \<Rightarrow> string" where
  "nat_to_string n =
     (if n < 10 then [char_of (48 + n)] else nat_to_string (n div 10) @ [char_of (48 + n mod 10)])"

declare nat_to_string.simps [simp del]

text \<open>\<open>sep.join(xs)\<close>.\<close>

fun join :: "string \<Rightarrow> string list \<Rightarrow> string" where
  "join sep [] = []"
| "join sep [x] = x"
| "join sep (x # y # ys) = x @ sep @ join sep (y # ys)"

definition string_to_nat :: "string \<Rightarrow> nat" where
  "string_to_nat s = foldl (\<lambda>acc c. acc * 10 + (of_char c - 48)) 0 s"

lemma string_to_nat_snoc [simp]:
  "string_to_nat (s @ [c]) = string_to_nat s * 10 + (of_char c - 48)"
  by (simp add: string_to_nat_def)

lemma string_to_nat_of_nat [simp]: "string_to_nat (nat_to_string n) = n"
proof (induction n rule: nat_to_string.induct)
  case (1 n)
  show ?case
  proof (cases "n < 10")
    case True
    then show ?thesis by (simp add: nat_to_string.simps [of n] string_to_nat_def)
  next
    case False
    with 1 show ?thesis by (simp add: nat_to_string.simps [of n])
  qed
qed

lemma nat_to_string_inj [simp]: "nat_to_string m = nat_to_string n \<longleftrightarrow> m = n"
  by (metis string_to_nat_of_nat)

lemma nat_to_string_nonempty [simp]: "nat_to_string n \<noteq> []"
  by (subst nat_to_string.simps) simp

lemma nat_to_string_digits: "c \<in> set (nat_to_string n) \<Longrightarrow> 48 \<le> (of_char c :: nat) \<and> (of_char c :: nat) < 58"
proof (induction n rule: nat_to_string.induct)
  case (1 n)
  have d: "(48 + n mod 10) < (58 :: nat)" by simp
  show ?case
  proof (cases "n < 10")
    case True
    with "1.prems" show ?thesis by (simp add: nat_to_string.simps [of n])
  next
    case False
    with "1.prems" have "c \<in> set (nat_to_string (n div 10)) \<or> c = char_of (48 + n mod 10)"
      by (auto simp: nat_to_string.simps [of n])
    with "1.IH" False show ?thesis using d by auto
  qed
qed

end
