(* ===== verification/Events.thy ===== *)
theory Events
  imports Prelude
begin

text \<open>
  Events, exceptions and event-type matching
  (\<open>workflows/events.py\<close>, \<open>workflows/errors.py\<close>, \<open>workflows/_event_matching.py\<close>,
  \<open>workflows/runtime/types/step_id.py\<close>).

  \<^item> A class object is a value of \<open>pytype\<close>: its module, \<open>__name__\<close>, \<open>__qualname__\<close> and the
    qualified names of its proper ancestors (the tail of its \<open>__mro__\<close>). An annotation that is
    not a class is \<open>NonClass\<close>. \<open>is\<close> on class objects is equality, \<open>issubclass\<close> reads the
    ancestors.
  \<^item> An exception is its class, its message and its \<open>__cause__\<close>. Messages are cut to their fixed
    leading text.
  \<^item> A user event is an object identity, a class and its fields; each event class that the
    runtime itself instantiates is a constructor with the fields the source gives it. Times are
    real numbers (\<open>datetime\<close> values are kept as their POSIX timestamp).
\<close>

section \<open>Classes\<close>

datatype pytype =
    Cls (py_module: string) (py_name: string) (py_qualname: string) (py_mro: "string list")
  | NonClass (py_repr: string)

fun py_qualified :: "pytype \<Rightarrow> string" where
  "py_qualified (Cls m n q as) = m @ ''.'' @ q"
| "py_qualified (NonClass r) = r"

text \<open>\<open>str(t)\<close> and \<open>t.__name__\<close> of a type object.\<close>

fun str_type :: "pytype \<Rightarrow> string" where
  "str_type (Cls m n q as) = ''<class '' @ [CHR 0x27] @
     (if m = ''builtins'' then q else m @ ''.'' @ q) @ [CHR 0x27] @ ''>''"
| "str_type (NonClass r) = r"

fun type_name :: "pytype \<Rightarrow> string" where
  "type_name (Cls m n q as) = n"
| "type_name (NonClass r) = r"

text \<open>\<open>type.__module__\<close>.\<close>

fun type_module :: "pytype \<Rightarrow> string" where
  "type_module (Cls m n q as) = m"
| "type_module (NonClass r) = []"

definition object_mro :: "string list" where
  "object_mro = [''builtins.object'']"

definition NoneTypeT :: pytype where
  "NoneTypeT = Cls ''builtins'' ''NoneType'' ''NoneType'' object_mro"

definition event_mro :: "string list" where
  "event_mro = [''workflows.events.DictLikeModel'', ''pydantic.main.BaseModel'', ''builtins.object'']"

definition EventT :: pytype where
  "EventT = Cls ''workflows.events'' ''Event'' ''Event'' event_mro"

definition event_subclass :: "string \<Rightarrow> string list \<Rightarrow> pytype" where
  "event_subclass n between =
     Cls ''workflows.events'' n n (between @ ''workflows.events.Event'' # event_mro)"

definition StartEventT :: pytype where
  "StartEventT = event_subclass ''StartEvent'' []"

definition StopEventT :: pytype where
  "StopEventT = event_subclass ''StopEvent'' []"

definition InputRequiredEventT :: pytype where
  "InputRequiredEventT = event_subclass ''InputRequiredEvent'' []"

definition HumanResponseEventT :: pytype where
  "HumanResponseEventT = event_subclass ''HumanResponseEvent'' []"

definition InternalDispatchEventT :: pytype where
  "InternalDispatchEventT = event_subclass ''InternalDispatchEvent'' []"

definition CollectionReleaseEventT :: pytype where
  "CollectionReleaseEventT = event_subclass ''CollectionReleaseEvent'' []"

definition StepFailedEventT :: pytype where
  "StepFailedEventT = event_subclass ''StepFailedEvent'' []"

definition WorkflowTimedOutEventT :: pytype where
  "WorkflowTimedOutEventT = event_subclass ''WorkflowTimedOutEvent'' [''workflows.events.StopEvent'']"

definition WorkflowCancelledEventT :: pytype where
  "WorkflowCancelledEventT = event_subclass ''WorkflowCancelledEvent'' [''workflows.events.StopEvent'']"

definition IdleReleasedEventT :: pytype where
  "IdleReleasedEventT = event_subclass ''IdleReleasedEvent'' [''workflows.events.StopEvent'']"

definition WorkflowFailedEventT :: pytype where
  "WorkflowFailedEventT = event_subclass ''WorkflowFailedEvent'' [''workflows.events.StopEvent'']"

definition WorkflowIdleEventT :: pytype where
  "WorkflowIdleEventT = event_subclass ''WorkflowIdleEvent'' [''workflows.events.InternalDispatchEvent'']"

definition UnhandledEventT :: pytype where
  "UnhandledEventT = event_subclass ''UnhandledEvent'' [''workflows.events.InternalDispatchEvent'']"

definition StepStateChangedT :: pytype where
  "StepStateChangedT = event_subclass ''StepStateChanged'' [''workflows.events.InternalDispatchEvent'']"

lemmas event_class_defs =
  object_mro_def NoneTypeT_def event_mro_def EventT_def event_subclass_def StartEventT_def StopEventT_def
  InputRequiredEventT_def HumanResponseEventT_def InternalDispatchEventT_def
  CollectionReleaseEventT_def StepFailedEventT_def WorkflowTimedOutEventT_def
  WorkflowCancelledEventT_def IdleReleasedEventT_def WorkflowFailedEventT_def
  WorkflowIdleEventT_def UnhandledEventT_def StepStateChangedT_def

section \<open>Exceptions\<close>

datatype exn = Exn (exn_cls: pytype) (exn_msg: string) (exn_cause: "exn option")

text \<open>Operations that may raise return \<open>Inl\<close> of the exception.\<close>

type_synonym 'a res = "exn + 'a"

definition exception_mro :: "string list" where
  "exception_mro = [''builtins.Exception'', ''builtins.BaseException'', ''builtins.object'']"

definition ValueError :: "string \<Rightarrow> exn" where
  "ValueError m = Exn (Cls ''builtins'' ''ValueError'' ''ValueError'' exception_mro) m None"

definition KeyError :: "string \<Rightarrow> exn" where
  "KeyError k = Exn (Cls ''builtins'' ''KeyError'' ''KeyError''
     (''builtins.LookupError'' # exception_mro)) k None"

definition TypeError :: "string \<Rightarrow> exn" where
  "TypeError m = Exn (Cls ''builtins'' ''TypeError'' ''TypeError'' exception_mro) m None"

definition workflow_error :: "string \<Rightarrow> string \<Rightarrow> exn" where
  "workflow_error n m = Exn (Cls ''workflows.errors'' n n exception_mro) m None"

definition WorkflowValidationError :: "string \<Rightarrow> exn" where
  "WorkflowValidationError = workflow_error ''WorkflowValidationError''"

definition WorkflowTimeoutError :: "string \<Rightarrow> exn" where
  "WorkflowTimeoutError = workflow_error ''WorkflowTimeoutError''"

definition WorkflowRuntimeError :: "string \<Rightarrow> exn" where
  "WorkflowRuntimeError = workflow_error ''WorkflowRuntimeError''"

definition WorkflowCancelledByUser :: exn where
  "WorkflowCancelledByUser = workflow_error ''WorkflowCancelledByUser'' []"

definition WorkflowConfigurationError :: "string \<Rightarrow> exn" where
  "WorkflowConfigurationError = workflow_error ''WorkflowConfigurationError''"

section \<open>Event objects\<close>

datatype step_state = PREPARING | RUNNING | NOT_RUNNING

datatype event =
    Event (ev_id: nat) (ev_cls: pytype) (ev_fields: "(string \<times> pyval) list")
  | CollectionReleaseEvent "event list" string string
  | StepFailedEvent string event exn nat real real
  | WorkflowFailedEvent string exn "nat option" "real option"
  | WorkflowTimedOutEvent real "string list"
  | WorkflowCancelledEvent
  | IdleReleasedEvent
  | WorkflowIdleEvent
  | UnhandledEvent string string "string option" bool
  | StepStateChanged string step_state string string "string option"
and pyval =
    PNone
  | PBool bool
  | PInt int
  | PFloat real
  | PStr string
  | PList "pyval list"
  | PExn exn
  | PEvent event
  | PStepState step_state

fun type_of :: "event \<Rightarrow> pytype" where
  "type_of (Event i c fs) = c"
| "type_of (CollectionReleaseEvent evs sid bid) = CollectionReleaseEventT"
| "type_of (StepFailedEvent s ev ex n el f) = StepFailedEventT"
| "type_of (WorkflowFailedEvent s ex n el) = WorkflowFailedEventT"
| "type_of (WorkflowTimedOutEvent t ss) = WorkflowTimedOutEventT"
| "type_of WorkflowCancelledEvent = WorkflowCancelledEventT"
| "type_of IdleReleasedEvent = IdleReleasedEventT"
| "type_of WorkflowIdleEvent = WorkflowIdleEventT"
| "type_of (UnhandledEvent t q s i) = UnhandledEventT"
| "type_of (StepStateChanged n st w i out) = StepStateChangedT"

definition opt_val :: "('a \<Rightarrow> pyval) \<Rightarrow> 'a option \<Rightarrow> pyval" where
  "opt_val f x = (case x of None \<Rightarrow> PNone | Some y \<Rightarrow> f y)"

text \<open>The named fields of an event, and \<open>getattr(event, k, None)\<close>.\<close>

fun event_attrs :: "event \<Rightarrow> (string \<times> pyval) list" where
  "event_attrs (Event i c fs) = fs"
| "event_attrs (CollectionReleaseEvent evs sid bid) =
     [(''events'', PList (map PEvent evs)), (''stream_id'', PStr sid), (''binding_id'', PStr bid)]"
| "event_attrs (StepFailedEvent s ev ex n el f) =
     [(''step_name'', PStr s), (''input_event'', PEvent ev), (''exception'', PExn ex),
      (''attempts'', PInt (int n)), (''elapsed_seconds'', PFloat el), (''failed_at'', PFloat f)]"
| "event_attrs (WorkflowFailedEvent s ex n el) =
     [(''step_name'', PStr s), (''exception'', PExn ex),
      (''attempts'', opt_val (\<lambda>k. PInt (int k)) n), (''elapsed_seconds'', opt_val PFloat el)]"
| "event_attrs (WorkflowTimedOutEvent t ss) =
     [(''timeout'', PFloat t), (''active_steps'', PList (map PStr ss))]"
| "event_attrs WorkflowCancelledEvent = []"
| "event_attrs IdleReleasedEvent = []"
| "event_attrs WorkflowIdleEvent = []"
| "event_attrs (UnhandledEvent t q s i) =
     [(''event_type'', PStr t), (''qualified_name'', PStr q), (''step_name'', opt_val PStr s),
      (''idle'', PBool i)]"
| "event_attrs (StepStateChanged n st w i out) =
     [(''name'', PStr n), (''step_state'', PStepState st), (''worker_id'', PStr w),
      (''input_event_name'', PStr i), (''output_event_name'', opt_val PStr out)]"

definition event_getattr :: "event \<Rightarrow> string \<Rightarrow> pyval" where
  "event_getattr ev k = dget_or (event_attrs ev) k PNone"

text \<open>
  \<open>==\<close> on field values: numbers compare by value across \<open>bool\<close>, \<open>int\<close> and \<open>float\<close>, everything
  else structurally.
\<close>

fun py_num :: "pyval \<Rightarrow> real option" where
  "py_num (PBool b) = Some (if b then 1 else 0)"
| "py_num (PInt i) = Some (of_int i)"
| "py_num (PFloat r) = Some r"
| "py_num _ = None"

definition py_eq :: "pyval \<Rightarrow> pyval \<Rightarrow> bool" where
  "py_eq a b = (case (py_num a, py_num b) of
      (Some x, Some y) \<Rightarrow> x = y
    | (None, None) \<Rightarrow> a = b
    | _ \<Rightarrow> False)"

section \<open>Matching events against accepted types\<close>

text \<open>\<open>is_subclass\<close>: \<open>issubclass\<close> that is false on a candidate that is not a class.\<close>

definition is_subclass :: "pytype \<Rightarrow> pytype \<Rightarrow> bool" where
  "is_subclass candidate parent = (case candidate of
      NonClass _ \<Rightarrow> False
    | Cls _ _ _ as \<Rightarrow> candidate = parent \<or>
        (case parent of NonClass _ \<Rightarrow> False | Cls _ _ _ _ \<Rightarrow> py_qualified parent \<in> set as))"

definition is_subclass_any :: "pytype \<Rightarrow> pytype list \<Rightarrow> bool" where
  "is_subclass_any candidate parents = list_ex (is_subclass candidate) parents"

definition isinstance :: "event \<Rightarrow> pytype \<Rightarrow> bool" where
  "isinstance ev c = is_subclass (type_of ev) c"

definition type_matches :: "bool \<Rightarrow> pytype \<Rightarrow> pytype \<Rightarrow> bool" where
  "type_matches allow_subclasses produced accepted =
     (if allow_subclasses then is_subclass produced accepted else produced = accepted)"

definition event_matches :: "bool \<Rightarrow> event \<Rightarrow> pytype \<Rightarrow> bool" where
  "event_matches allow_subclasses ev accepted =
     (if allow_subclasses then isinstance ev accepted else type_of ev = accepted)"

definition step_accepts_type :: "bool \<Rightarrow> pytype \<Rightarrow> pytype list \<Rightarrow> bool" where
  "step_accepts_type allow_subclasses produced accepted_events =
     list_ex (type_matches allow_subclasses produced) accepted_events"

definition step_accepts_event :: "bool \<Rightarrow> event \<Rightarrow> pytype list \<Rightarrow> bool" where
  "step_accepts_event allow_subclasses ev accepted_events =
     list_ex (event_matches allow_subclasses ev) accepted_events"

lemma event_matches_type: "event_matches allow ev c = type_matches allow (type_of ev) c"
  by (simp add: event_matches_def type_matches_def isinstance_def)

lemma step_accepts_event_type:
  "step_accepts_event allow ev cs = step_accepts_type allow (type_of ev) cs"
  by (simp add: step_accepts_event_def step_accepts_type_def event_matches_type [abs_def])

text \<open>A class matches itself in either mode; subclass matching accepts at least what exact does.\<close>

lemma type_matches_refl: "type_matches allow (Cls m n q as) (Cls m n q as)"
  by (simp add: type_matches_def is_subclass_def)

lemma type_matches_mono:
  "type_matches False (Cls m n q as) c \<Longrightarrow> type_matches True (Cls m n q as) c"
  by (auto simp: type_matches_def is_subclass_def)

section \<open>Step identities\<close>

record step_id =
  namespace :: "string list"
  name :: string

definition StepId_root :: "string \<Rightarrow> step_id" where
  "StepId_root n = \<lparr>namespace = [], name = n\<rparr>"

text \<open>The dataclass constructor with its \<open>__post_init__\<close> check.\<close>

definition mk_StepId :: "string list \<Rightarrow> string \<Rightarrow> step_id res" where
  "mk_StepId ns n =
     (if n = [] then Inl (ValueError ''StepId name cannot be empty'')
      else if list_ex (\<lambda>p. p = []) ns then Inl (ValueError ''StepId namespace parts cannot be empty'')
      else Inr \<lparr>namespace = ns, name = n\<rparr>)"

text \<open>\<open>s.split(sep)\<close> for a one-character separator.\<close>

fun split_on :: "char \<Rightarrow> string \<Rightarrow> string list" where
  "split_on sep [] = [[]]"
| "split_on sep (c # cs) =
     (if c = sep then [] # split_on sep cs
      else (case split_on sep cs of [] \<Rightarrow> [[c]] | p # ps \<Rightarrow> (c # p) # ps))"

definition StepId_from_str :: "string \<Rightarrow> step_id res" where
  "StepId_from_str value =
     (let parts = split_on CHR ''/'' value in
      if length parts = 1 then mk_StepId [] value
      else mk_StepId (butlast parts) (last parts))"

definition StepId_str :: "step_id \<Rightarrow> string" where
  "StepId_str s =
     (if namespace s = [] then name s else join ''/'' (namespace s @ [name s]))"

lemma StepId_str_root [simp]: "StepId_str (StepId_root n) = n"
  by (simp add: StepId_str_def StepId_root_def)

lemma split_on_nonempty [simp]: "split_on sep s \<noteq> []"
  by (induction s) (auto split: list.splits)

lemma split_on_no_sep: "sep \<notin> set s \<Longrightarrow> split_on sep s = [s]"
  by (induction s) auto

lemma split_on_append: "sep \<notin> set s \<Longrightarrow> split_on sep (s @ sep # t) = s # split_on sep t"
  by (induction s) auto

lemma split_on_join:
  "xs \<noteq> [] \<Longrightarrow> \<forall>x \<in> set xs. sep \<notin> set x \<Longrightarrow> split_on sep (join [sep] xs) = xs"
  by (induction "[sep]" xs rule: join.induct) (auto simp: split_on_no_sep split_on_append)

lemma join_split_on: "join [sep] (split_on sep s) = s"
proof (induction s)
  case Nil
  then show ?case by simp
next
  case (Cons c cs)
  obtain p ps where "split_on sep cs = p # ps"
    by (cases "split_on sep cs") auto
  with Cons show ?case by (cases ps) auto
qed

text \<open>Step ids survive printing and parsing.\<close>

lemma step_id_round_trip:
  "(mk_StepId ns n = Inr sid \<and> list_all (\<lambda>p. CHR ''/'' \<notin> set p) (ns @ [n]) \<longrightarrow> StepId_from_str (StepId_str sid) = Inr sid) \<and>
   (StepId_from_str text_form = Inr sid' \<longrightarrow> StepId_str sid' = text_form)"
proof (intro conjI impI)
  assume a: "mk_StepId ns n = Inr sid \<and> list_all (\<lambda>p. CHR ''/'' \<notin> set p) (ns @ [n])"
  then have sid: "sid = \<lparr>namespace = ns, name = n\<rparr>" by (auto simp: mk_StepId_def split: if_splits)
  have "split_on CHR ''/'' (StepId_str sid) = ns @ [n]"
    using a split_on_join [of "ns @ [n]" "CHR ''/''"] by (auto simp: sid StepId_str_def split_on_no_sep list_all_iff)
  with a show "StepId_from_str (StepId_str sid) = Inr sid" by (auto simp: StepId_from_str_def sid StepId_str_def)
next
  assume a: "StepId_from_str text_form = Inr sid'"
  let ?parts = "split_on CHR ''/'' text_form"
  have j: "join ''/'' (butlast ?parts @ [last ?parts]) = text_form" using join_split_on [of "CHR ''/''" text_form] by simp
  have "butlast ?parts \<noteq> []" if "length ?parts \<noteq> 1"
    using that by (cases ?parts rule: rev_cases) auto
  with a j show "StepId_str sid' = text_form"
    by (auto simp: StepId_from_str_def mk_StepId_def StepId_str_def Let_def split: if_splits)
qed

end
