(* ===== verification/Broker_State.thy ===== *)
theory Broker_State
  imports Events
begin

text \<open>
  The data of the control loop: step configuration (\<open>workflows/decorators.py\<close>,
  \<open>workflows/collect.py\<close>), broker configuration and state
  (\<open>runtime/types/internal_state.py\<close>), what a step execution returns
  (\<open>runtime/types/results.py\<close>), ticks (\<open>runtime/types/ticks.py\<close>) and commands
  (\<open>runtime/types/commands.py\<close>). Every dataclass is a record with the source's fields under a
  short prefix; unions are datatypes.

  A retry policy is any object with a \<open>next\<close> method: it is its \<open>next\<close> function together with
  whether that method has a \<open>seed\<close> parameter. Counters and worker ids are natural numbers,
  \<open>open_work_items\<close>, which the code lets go negative, is an integer.
\<close>

section \<open>Step configuration\<close>

datatype cardinality = All | Take (take_n: nat)

datatype collect = Collect (card_of: cardinality)

text \<open>\<open>Take.__post_init__\<close>.\<close>

definition mk_Take :: "int \<Rightarrow> cardinality res" where
  "mk_Take n = (if n < 1 then Inl (ValueError ''Take(n) requires an integer n >= 1'')
     else Inr (Take (nat n)))"

datatype retry_policy = RetryPolicy
  (accepts_seed: bool)
  (policy_next: "real \<Rightarrow> nat \<Rightarrow> exn \<Rightarrow> nat option \<Rightarrow> real option")

datatype step_role = RoleStep | RoleCatchError

record step_config =
  accepted_events :: "pytype list"
  event_name :: string
  return_types :: "pytype list"
  context_parameter :: "string option"
  num_workers :: nat
  retry_policy :: "retry_policy option"
  skip_graph_checks :: "string list"
  collect_params :: "(string \<times> pytype) list option"
  is_fan_out :: bool
  bare_return_types :: "pytype list"
  collection_param :: "(string \<times> pytype list) option"
  collection_policy :: "collect option"
  role :: step_role
  catch_error_for_steps :: "string list option"
  catch_error_max_recoveries :: int
  accept_event_subclasses :: bool

record catch_error_handler =
  ceh_step_name :: string
  ceh_for_steps :: "string list option"
  ceh_max_recoveries :: nat

section \<open>Broker configuration\<close>

record collection_binding =
  cb_id :: string
  cb_source_step :: string
  cb_target_step :: string
  cb_item_types :: "pytype list"
  cb_policy :: collect

record collection_stream =
  cs_stream_id :: string
  cs_source_step :: string
  cs_scope_path :: "string list"
  cs_open_work_items :: int
  cs_accepting_binding_ids :: "string list"

record internal_step_config =
  isc_accepted_events :: "pytype list"
  isc_retry_policy :: "retry_policy option"
  isc_num_workers :: nat
  isc_accept_event_subclasses :: bool

record broker_config =
  bc_steps :: "(string, internal_step_config) dict"
  bc_timeout :: "real option"
  bc_catch_error_handlers :: "(string, catch_error_handler) dict"
  bc_handler_for_step :: "(string, string) dict"
  bc_collection_bindings :: "(string, collection_binding) dict"

definition bindings_for_source :: "broker_config \<Rightarrow> string \<Rightarrow> collection_binding list" where
  "bindings_for_source c source_step =
     filter (\<lambda>b. cb_source_step b = source_step) (map snd (bc_collection_bindings c))"

text \<open>The loop over \<open>accepting_binding_ids\<close>: the first id that names a binding to the target.\<close>

fun first_binding_to :: "(string, collection_binding) dict \<Rightarrow> string \<Rightarrow> string list \<Rightarrow> collection_binding option"
where
  "first_binding_to bs target [] = None"
| "first_binding_to bs target (i # is) = (case dget bs i of
      None \<Rightarrow> first_binding_to bs target is
    | Some b \<Rightarrow> if cb_target_step b = target then Some b else first_binding_to bs target is)"

definition binding_for_target ::
  "broker_config \<Rightarrow> string \<Rightarrow> string \<Rightarrow> (string, collection_stream) dict \<Rightarrow> collection_binding option"
where
  "binding_for_target c stream_id target_step streams = (case dget streams stream_id of
      None \<Rightarrow> None
    | Some stream \<Rightarrow>
        first_binding_to (bc_collection_bindings c) target_step (cs_accepting_binding_ids stream))"

section \<open>Worker state\<close>

record release_payload =
  rp_binding_id :: string
  rp_stream_id :: string
  rp_events :: "event list"
  rp_output_scope_path :: "string list"

definition as_event :: "release_payload \<Rightarrow> event" where
  "as_event p = CollectionReleaseEvent (rp_events p) (rp_stream_id p) (rp_binding_id p)"

definition payload_work_item_id :: "release_payload \<Rightarrow> string" where
  "payload_work_item_id p = ''work_item_collect_'' @ rp_stream_id p @ '':'' @ rp_binding_id p"

record waiter =
  w_waiter_id :: string
  w_event :: event
  w_waiting_for_event :: pytype
  w_requirements :: "(string, pyval) dict"
  w_has_requirements :: bool
  w_resolved_event :: "event option"
  w_bound_events :: "(string, event) dict option"
  w_timed_out :: bool
  w_scope_path :: "string list"
  w_payload :: "release_payload option"
  w_work_item_id :: "string option"

record shared_state =
  ss_step_name :: string
  ss_collected_events :: "(string, event list) dict"
  ss_collected_waiters :: "waiter list"
  ss_payload :: "release_payload option"
  ss_scope_path :: "string list"
  ss_work_item_id :: "string option"

record event_attempt =
  ea_event :: event
  ea_bound_events :: "(string, event) dict option"
  ea_attempts :: "nat option"
  ea_first_attempt_at :: "real option"
  ea_last_exception :: "exn option"
  ea_last_failed_at :: "real option"
  ea_recovery_counts :: "(string, nat) dict"
  ea_not_before :: "real option"
  ea_scope_path :: "string list"
  ea_payload :: "release_payload option"
  ea_work_item_id :: "string option"

record in_progress =
  ip_event :: event
  ip_worker_id :: nat
  ip_shared_state :: shared_state
  ip_attempts :: nat
  ip_first_attempt_at :: real
  ip_last_exception :: "exn option"
  ip_last_failed_at :: "real option"
  ip_recovery_counts :: "(string, nat) dict"
  ip_bound_events :: "(string, event) dict option"
  ip_scope_path :: "string list"
  ip_work_item_id :: "string option"

record worker_state =
  ws_queue :: "event_attempt list"
  ws_config :: step_config
  ws_in_progress :: "in_progress list"
  ws_collected_events :: "(string, event list) dict"
  ws_collected_waiters :: "waiter list"
  ws_static_collect_events :: "event list"

record release_state =
  rs_binding_id :: string
  rs_stream_id :: string
  rs_buffer :: "event list"
  rs_released :: bool

record broker_state =
  is_running :: bool
  config :: broker_config
  workers :: "(string, worker_state) dict"
  stream_seq :: nat
  work_item_seq :: nat
  streams :: "(string, collection_stream) dict"
  collection_release_states :: "(string, release_state) dict"

text \<open>
  Copies. Values are immutable here, so a copy is the value itself, with one exception: the copy of
  an in-progress record turns an empty \<open>bound_events\<close> dict into \<open>None\<close>.
\<close>

definition in_progress_deepcopy :: "in_progress \<Rightarrow> in_progress" where
  "in_progress_deepcopy ip = ip\<lparr>ip_bound_events :=
     (case ip_bound_events ip of None \<Rightarrow> None | Some b \<Rightarrow> if b = [] then None else Some b)\<rparr>"

definition worker_deepcopy :: "worker_state \<Rightarrow> worker_state" where
  "worker_deepcopy ws = ws\<lparr>ws_in_progress := map in_progress_deepcopy (ws_in_progress ws)\<rparr>"

definition deepcopy :: "broker_state \<Rightarrow> broker_state" where
  "deepcopy s = s\<lparr>workers := map (\<lambda>(n, w). (n, worker_deepcopy w)) (workers s)\<rparr>"

text \<open>\<open>BrokerState.from_workflow\<close>: the initial state of a validated workflow.\<close>

definition from_workflow ::
  "(string, step_config) dict \<Rightarrow> real option \<Rightarrow> (string, catch_error_handler) dict \<Rightarrow>
   (string, string) dict \<Rightarrow> (string, collection_binding) dict \<Rightarrow> broker_state"
where
  "from_workflow steps timeout handlers handler_for bindings =
    \<lparr>is_running = False,
     config = \<lparr>bc_steps = map (\<lambda>(n, c). (n,
                  \<lparr>isc_accepted_events = accepted_events c, isc_retry_policy = retry_policy c,
                   isc_num_workers = num_workers c,
                   isc_accept_event_subclasses = accept_event_subclasses c\<rparr>)) steps,
               bc_timeout = timeout,
               bc_catch_error_handlers = handlers,
               bc_handler_for_step = handler_for,
               bc_collection_bindings = bindings\<rparr>,
     workers = map (\<lambda>(n, c). (n,
                  \<lparr>ws_queue = [], ws_config = c, ws_in_progress = [], ws_collected_events = [],
                   ws_collected_waiters = [], ws_static_collect_events = []\<rparr>)) steps,
     stream_seq = 0, work_item_seq = 0, streams = [], collection_release_states = []\<rparr>"

section \<open>Results of a step execution\<close>

datatype step_result =
    StepWorkerResult (swr_result: "event option") (swr_fanned_out: bool)
  | StepWorkerFailed (swf_exception: exn) (swf_failed_at: real)
      (swf_retry_decision: "real option option") (swf_first_attempt_at: "real option")
  | DeleteWaiter string
  | DeleteCollectedEvent string
  | AddCollectedEvent string event
  | AddWaiter (aw_waiter_id: string) (aw_waiter_event: "event option")
      (aw_requirements: "(string, pyval) dict") (aw_timeout: "real option") (aw_event_type: pytype)

fun is_result :: "step_result \<Rightarrow> bool" where
  "is_result (StepWorkerResult _ _) = True"
| "is_result _ = False"

fun is_failed :: "step_result \<Rightarrow> bool" where
  "is_failed (StepWorkerFailed _ _ _ _) = True"
| "is_failed _ = False"

fun is_add_waiter :: "step_result \<Rightarrow> bool" where
  "is_add_waiter (AddWaiter _ _ _ _ _) = True"
| "is_add_waiter _ = False"

fun is_add_collected :: "step_result \<Rightarrow> bool" where
  "is_add_collected (AddCollectedEvent _ _) = True"
| "is_add_collected _ = False"

section \<open>Ticks\<close>

record step_result_tick =
  sr_step_id :: step_id
  sr_worker_id :: nat
  sr_event :: event
  sr_result :: "step_result list"

record add_event_tick =
  ae_event :: event
  ae_step_id :: "step_id option"
  ae_bound_events :: "(string, event) dict option"
  ae_attempts :: "nat option"
  ae_first_attempt_at :: "real option"
  ae_last_exception :: "exn option"
  ae_last_failed_at :: "real option"
  ae_recovery_counts :: "(string, nat) dict"
  ae_scope_path :: "string list"
  ae_payload :: "release_payload option"
  ae_work_item_id :: "string option"

datatype tick =
    TickStepResult step_result_tick
  | TickAddEvent add_event_tick
  | TickCancelRun
  | TickPublishEvent event
  | TickTimeout real
  | TickWaiterTimeout step_id string
  | TickIdleCheck
  | TickIdleRelease
  | TickWakeup real

text \<open>A tick that only carries an event: the defaults of \<open>TickAddEvent\<close>.\<close>

definition add_event_of :: "event \<Rightarrow> add_event_tick" where
  "add_event_of ev = \<lparr>ae_event = ev, ae_step_id = None, ae_bound_events = None, ae_attempts = None,
     ae_first_attempt_at = None, ae_last_exception = None, ae_last_failed_at = None,
     ae_recovery_counts = [], ae_scope_path = [], ae_payload = None, ae_work_item_id = None\<rparr>"

text \<open>\<open>BrokerState.rehydrate_with_ticks\<close>: re-ping steps whose waiters lost their requirements.\<close>

definition rehydrate_worker :: "string \<Rightarrow> worker_state \<Rightarrow> tick list" where
  "rehydrate_worker step_name ws =
     map (\<lambda>w. TickAddEvent ((add_event_of (w_event w))
            \<lparr>ae_step_id := Some (StepId_root step_name), ae_bound_events := w_bound_events w,
             ae_scope_path := w_scope_path w, ae_payload := w_payload w,
             ae_work_item_id := w_work_item_id w\<rparr>))
       (filter (\<lambda>w. w_has_requirements w \<and> w_requirements w = [])
          (sort_key w_waiter_id (ws_collected_waiters ws)))"

definition rehydrate_with_ticks :: "broker_state \<Rightarrow> tick list" where
  "rehydrate_with_ticks s =
     concat (map (\<lambda>(n, w). rehydrate_worker n w) (sort_key fst (workers s)))"

section \<open>Commands\<close>

datatype command =
    CommandRunWorker step_id event nat "(string, event) dict option"
  | CommandQueueEvent event "step_id option" "(string, nat) dict" "string list"
  | CommandHalt exn
  | CommandCompleteRun event
  | CommandFailWorkflow step_id exn
  | CommandPublishEvent event
  | CommandScheduleWaiterTimeout step_id string real
  | CommandScheduleWakeup real
  | CommandScheduleIdleCheck

fun indicates_exit :: "command \<Rightarrow> bool" where
  "indicates_exit (CommandCompleteRun _) = True"
| "indicates_exit (CommandFailWorkflow _ _) = True"
| "indicates_exit (CommandHalt _) = True"
| "indicates_exit _ = False"

section \<open>Basic facts\<close>

lemma in_progress_deepcopy_simps [simp]:
  "ip_worker_id (in_progress_deepcopy ip) = ip_worker_id ip"
  "ip_event (in_progress_deepcopy ip) = ip_event ip"
  "ip_scope_path (in_progress_deepcopy ip) = ip_scope_path ip"
  "ip_shared_state (in_progress_deepcopy ip) = ip_shared_state ip"
  "ip_attempts (in_progress_deepcopy ip) = ip_attempts ip"
  "ip_recovery_counts (in_progress_deepcopy ip) = ip_recovery_counts ip"
  "ip_work_item_id (in_progress_deepcopy ip) = ip_work_item_id ip"
  "ip_first_attempt_at (in_progress_deepcopy ip) = ip_first_attempt_at ip"
  by (simp_all add: in_progress_deepcopy_def)

lemma in_progress_deepcopy_idem [simp]:
  "in_progress_deepcopy (in_progress_deepcopy ip) = in_progress_deepcopy ip"
  by (simp add: in_progress_deepcopy_def split: option.splits)

lemma worker_deepcopy_simps [simp]:
  "ws_queue (worker_deepcopy w) = ws_queue w"
  "ws_config (worker_deepcopy w) = ws_config w"
  "ws_in_progress (worker_deepcopy w) = map in_progress_deepcopy (ws_in_progress w)"
  "ws_collected_events (worker_deepcopy w) = ws_collected_events w"
  "ws_collected_waiters (worker_deepcopy w) = ws_collected_waiters w"
  "ws_static_collect_events (worker_deepcopy w) = ws_static_collect_events w"
  by (simp_all add: worker_deepcopy_def)

lemma worker_deepcopy_idem [simp]: "worker_deepcopy (worker_deepcopy w) = worker_deepcopy w"
  by (simp add: worker_deepcopy_def comp_def)

lemma deepcopy_simps [simp]:
  "is_running (deepcopy s) = is_running s"
  "config (deepcopy s) = config s"
  "stream_seq (deepcopy s) = stream_seq s"
  "work_item_seq (deepcopy s) = work_item_seq s"
  "streams (deepcopy s) = streams s"
  "collection_release_states (deepcopy s) = collection_release_states s"
  "dkeys (workers (deepcopy s)) = dkeys (workers s)"
  by (simp_all add: deepcopy_def comp_def case_prod_unfold)

lemma dget_deepcopy [simp]:
  "dget (workers (deepcopy s)) n = map_option worker_deepcopy (dget (workers s) n)"
  by (simp add: deepcopy_def map_of_map)

lemma deepcopy_idem [simp]: "deepcopy (deepcopy s) = deepcopy s"
  by (simp add: deepcopy_def comp_def case_prod_unfold)

end
