(* ===== verification/Dispatch.thy ===== *)
theory Dispatch
  imports Broker_State "HOL-Library.Multiset"
begin

text \<open>
  The worker pool of one step: starting or queueing an attempt, draining the queue, rewinding
  in-progress work, and the idle test (\<open>runtime/control_loop/reduce.py\<close>: \<open>_is_eligible\<close>,
  \<open>_add_or_enqueue_event\<close>, \<open>_drain_eligible_queue\<close>, \<open>rewind_in_progress\<close>,
  \<open>_check_idle_state\<close>).

  Shown here: the pool never runs more executions than \<open>num_workers\<close> and never uses a worker id
  twice; draining starts exactly the first eligible attempts that fit, in order, and leaves no free
  slot beside an eligible attempt; starting, queueing, draining and rewinding neither lose nor
  duplicate work.
\<close>

section \<open>Operations\<close>

definition is_eligible :: "event_attempt \<Rightarrow> bool" where
  "is_eligible attempt \<longleftrightarrow> ea_not_before attempt = None"

text \<open>\<open>x or default\<close> on an optional float: zero is falsy too.\<close>

definition float_or :: "real option \<Rightarrow> real \<Rightarrow> real" where
  "float_or x d = (case x of None \<Rightarrow> d | Some t \<Rightarrow> if t = 0 then d else t)"

definition nat_or_zero :: "nat option \<Rightarrow> nat" where
  "nat_or_zero x = (case x of None \<Rightarrow> 0 | Some n \<Rightarrow> n)"

definition root_step_key :: "step_id \<Rightarrow> string" where
  "root_step_key sid = StepId_str sid"

definition has_space :: "event_attempt \<Rightarrow> worker_state \<Rightarrow> bool" where
  "has_space ev st \<longleftrightarrow>
     length (ws_in_progress st) < num_workers (ws_config st) \<and> is_eligible ev"

text \<open>\<open>id_candidates[0]\<close>: the smallest worker id that is not in use.\<close>

definition free_worker_id :: "worker_state \<Rightarrow> nat" where
  "free_worker_id st = hd (filter (\<lambda>i. i \<notin> set (map ip_worker_id (ws_in_progress st)))
     [0..<num_workers (ws_config st)])"

definition start_attempt :: "string \<Rightarrow> event_attempt \<Rightarrow> worker_state \<Rightarrow> real \<Rightarrow> in_progress" where
  "start_attempt step_name ev st now =
    \<lparr>ip_event = ea_event ev,
     ip_worker_id = free_worker_id st,
     ip_shared_state = \<lparr>ss_step_name = step_name,
        ss_collected_events = ws_collected_events st,
        ss_collected_waiters = ws_collected_waiters st,
        ss_payload = ea_payload ev,
        ss_scope_path = ea_scope_path ev,
        ss_work_item_id = ea_work_item_id ev\<rparr>,
     ip_attempts = nat_or_zero (ea_attempts ev),
     ip_first_attempt_at = float_or (ea_first_attempt_at ev) now,
     ip_last_exception = ea_last_exception ev,
     ip_last_failed_at = ea_last_failed_at ev,
     ip_recovery_counts = ea_recovery_counts ev,
     ip_bound_events = ea_bound_events ev,
     ip_scope_path = ea_scope_path ev,
     ip_work_item_id = ea_work_item_id ev\<rparr>"

definition add_or_enqueue_event ::
  "event_attempt \<Rightarrow> step_id \<Rightarrow> worker_state \<Rightarrow> real \<Rightarrow> worker_state \<times> command list"
where
  "add_or_enqueue_event ev sid st now =
    (let step_name = root_step_key sid in
     if has_space ev st then
       (st\<lparr>ws_in_progress := ws_in_progress st @ [start_attempt step_name ev st now]\<rparr>,
        [CommandRunWorker sid (ea_event ev) (free_worker_id st) (ea_bound_events ev),
         CommandPublishEvent (StepStateChanged step_name RUNNING
           (nat_to_string (free_worker_id st)) (type_name (type_of (ea_event ev))) None)])
     else
       (st\<lparr>ws_queue := ws_queue st @ [ev]\<rparr>,
        [CommandPublishEvent (StepStateChanged step_name PREPARING ''<enqueued>''
           (type_name (type_of (ea_event ev))) None)]))"

function drain_eligible_queue ::
  "step_id \<Rightarrow> worker_state \<Rightarrow> real \<Rightarrow> worker_state \<times> command list"
where
  "drain_eligible_queue sid st now =
    (if length (ws_in_progress st) < num_workers (ws_config st) then
       (case find_index is_eligible (ws_queue st) of
          None \<Rightarrow> (st, [])
        | Some i \<Rightarrow>
            (let attempt = ws_queue st ! i;
                 added = add_or_enqueue_event attempt sid
                           (st\<lparr>ws_queue := remove_nth i (ws_queue st)\<rparr>) now;
                 rest = drain_eligible_queue sid (fst added) now
             in (fst rest, snd added @ snd rest)))
     else (st, []))"
  by pat_completeness auto
termination
proof (relation "measure (\<lambda>(sid, st, now). num_workers (ws_config st) - length (ws_in_progress st))",
       goal_cases)
  case 1
  then show ?case by simp
next
  case (2 sid st now i)
  then show ?case
    by (auto dest!: find_index_Some simp: add_or_enqueue_event_def has_space_def Let_def)
qed

declare drain_eligible_queue.simps [simp del]

definition attempt_of_in_progress :: "in_progress \<Rightarrow> event_attempt" where
  "attempt_of_in_progress ip =
    \<lparr>ea_event = ip_event ip,
     ea_bound_events = ip_bound_events ip,
     ea_attempts = Some (ip_attempts ip),
     ea_first_attempt_at = Some (ip_first_attempt_at ip),
     ea_last_exception = ip_last_exception ip,
     ea_last_failed_at = ip_last_failed_at ip,
     ea_recovery_counts = ip_recovery_counts ip,
     ea_not_before = None,
     ea_scope_path = ip_scope_path ip,
     ea_payload = ss_payload (ip_shared_state ip),
     ea_work_item_id = ip_work_item_id ip\<rparr>"

text \<open>\<open>queue.insert(0, ...)\<close> for each execution in turn: the last one ends up first.\<close>

definition requeue_in_progress :: "worker_state \<Rightarrow> worker_state" where
  "requeue_in_progress ws = ws
    \<lparr>ws_queue := rev (map attempt_of_in_progress (ws_in_progress ws)) @ ws_queue ws,
     ws_in_progress := []\<rparr>"

definition schedule_wakeups :: "event_attempt list \<Rightarrow> command list" where
  "schedule_wakeups q = map (\<lambda>a. CommandScheduleWakeup (the (ea_not_before a)))
     (filter (\<lambda>a. ea_not_before a \<noteq> None) q)"

definition rewind_worker :: "real \<Rightarrow> string \<Rightarrow> worker_state \<Rightarrow> worker_state \<times> command list" where
  "rewind_worker now step_name ws =
    (let drained = drain_eligible_queue (StepId_root step_name) (requeue_in_progress ws) now
     in (fst drained, snd drained @ schedule_wakeups (ws_queue (fst drained))))"

text \<open>A loop over \<open>state.workers.items()\<close> that changes each worker's state and collects commands.\<close>

fun update_workers ::
  "(string \<Rightarrow> worker_state \<Rightarrow> worker_state \<times> command list) \<Rightarrow> (string, worker_state) dict \<Rightarrow>
   (string, worker_state) dict \<Rightarrow> (string, worker_state) dict \<times> command list"
where
  "update_workers f [] d = (d, [])"
| "update_workers f ((n, w) # items) d =
     (let step = f n w; rest = update_workers f items (dset n (fst step) d)
      in (fst rest, snd step @ snd rest))"

definition rewind_in_progress :: "broker_state \<Rightarrow> real \<Rightarrow> broker_state \<times> command list" where
  "rewind_in_progress s now =
    (let s1 = deepcopy s;
         upd = update_workers (rewind_worker now) (sort_key fst (workers s1)) (workers s1)
     in (s1\<lparr>workers := fst upd\<rparr>, snd upd))"

definition check_idle_state :: "broker_state \<Rightarrow> bool" where
  "check_idle_state s \<longleftrightarrow> is_running s \<and>
     list_all (\<lambda>(n, w). ws_queue w = [] \<and> ws_in_progress w = []) (workers s)"

definition next_work_item_id :: "broker_state \<Rightarrow> broker_state \<times> string" where
  "next_work_item_id s = (let n = work_item_seq s + 1
     in (s\<lparr>work_item_seq := n\<rparr>, ''work_item_'' @ nat_to_string n))"

section \<open>What one dispatch does\<close>

lemma free_worker_id:
  assumes "length (ws_in_progress st) < num_workers (ws_config st)"
  shows "free_worker_id st < num_workers (ws_config st)"
    and "free_worker_id st \<notin> set (map ip_worker_id (ws_in_progress st))"
    and "\<And>i. i < free_worker_id st \<Longrightarrow> i \<in> set (map ip_worker_id (ws_in_progress st))"
proof -
  let ?used = "set (map ip_worker_id (ws_in_progress st))"
  let ?n = "num_workers (ws_config st)"
  let ?cs = "filter (\<lambda>i. i \<notin> ?used) [0..<?n]"
  from assms have "\<exists>i < ?n. i \<notin> ?used"
    using free_index_exists [of "map ip_worker_id (ws_in_progress st)"] by simp
  then have ne: "?cs \<noteq> []" by (auto simp: filter_empty_conv)
  have fid: "free_worker_id st = hd ?cs" by (simp add: free_worker_id_def)
  from ne have "hd ?cs \<in> set ?cs" by (rule hd_in_set)
  then show "free_worker_id st < ?n" and "free_worker_id st \<notin> ?used" by (auto simp: fid)
  fix i assume i: "i < free_worker_id st"
  show "i \<in> ?used"
  proof (rule ccontr)
    assume "i \<notin> ?used"
    with i \<open>free_worker_id st < ?n\<close> have mem: "i \<in> set ?cs" by simp
    obtain c cs where cs: "?cs = c # cs" using ne by (cases ?cs) auto
    have "sorted ?cs" using sorted_filter [of id "[0..<?n]" "\<lambda>i. i \<notin> ?used"] by simp
    with mem have "c \<le> i" unfolding cs by auto
    with i fid cs show False by simp
  qed
qed

lemma add_or_enqueue_frame [simp]:
  "ws_config (fst (add_or_enqueue_event a sid w now)) = ws_config w"
  "ws_collected_events (fst (add_or_enqueue_event a sid w now)) = ws_collected_events w"
  "ws_collected_waiters (fst (add_or_enqueue_event a sid w now)) = ws_collected_waiters w"
  "ws_static_collect_events (fst (add_or_enqueue_event a sid w now)) = ws_static_collect_events w"
  by (simp_all add: add_or_enqueue_event_def Let_def)

lemma add_or_enqueue_start:
  "has_space a w \<Longrightarrow> fst (add_or_enqueue_event a sid w now) =
     w\<lparr>ws_in_progress := ws_in_progress w @ [start_attempt (root_step_key sid) a w now]\<rparr>"
  by (simp add: add_or_enqueue_event_def Let_def)

lemma add_or_enqueue_queue:
  "\<not> has_space a w \<Longrightarrow> fst (add_or_enqueue_event a sid w now) = w\<lparr>ws_queue := ws_queue w @ [a]\<rparr>"
  by (simp add: add_or_enqueue_event_def Let_def)

lemma start_attempt_simps [simp]:
  "ip_event (start_attempt n a w now) = ea_event a"
  "ip_worker_id (start_attempt n a w now) = free_worker_id w"
  "ip_scope_path (start_attempt n a w now) = ea_scope_path a"
  "ip_recovery_counts (start_attempt n a w now) = ea_recovery_counts a"
  "ip_work_item_id (start_attempt n a w now) = ea_work_item_id a"
  "ip_bound_events (start_attempt n a w now) = ea_bound_events a"
  "ip_attempts (start_attempt n a w now) = nat_or_zero (ea_attempts a)"
  "ip_last_exception (start_attempt n a w now) = ea_last_exception a"
  "ip_last_failed_at (start_attempt n a w now) = ea_last_failed_at a"
  "ss_payload (ip_shared_state (start_attempt n a w now)) = ea_payload a"
  by (simp_all add: start_attempt_def)

text \<open>A worker state reached by dispatching some eligible attempts into it.\<close>

inductive dispatched :: "worker_state \<Rightarrow> worker_state \<Rightarrow> bool" where
  nothing: "dispatched w w"
| dispatch: "dispatched w w' \<Longrightarrow> is_eligible a \<Longrightarrow> dispatched w (fst (add_or_enqueue_event a sid w' now))"

lemma dispatched_trans: "dispatched v w \<Longrightarrow> dispatched u v \<Longrightarrow> dispatched u w"
  by (induction rule: dispatched.induct) (auto intro: dispatched.intros)

lemma dispatched_one [intro]: "is_eligible a \<Longrightarrow> dispatched w (fst (add_or_enqueue_event a sid w now))"
  by (intro dispatched.dispatch dispatched.nothing)

lemma dispatched_frame:
  assumes "dispatched w w'"
  shows "ws_config w' = ws_config w"
    and "ws_collected_events w' = ws_collected_events w"
    and "ws_collected_waiters w' = ws_collected_waiters w"
    and "ws_static_collect_events w' = ws_static_collect_events w"
  using assms by (induction rule: dispatched.induct) simp_all

lemma dispatched_in_progress: "dispatched w w' \<Longrightarrow> \<exists>new. ws_in_progress w' = ws_in_progress w @ new"
proof (induction rule: dispatched.induct)
  case (dispatch w w' a sid now)
  then show ?case by (cases "has_space a w'") (auto simp: add_or_enqueue_start add_or_enqueue_queue)
qed simp

lemma dispatched_queue: "dispatched w w' \<Longrightarrow> \<exists>new. ws_queue w' = ws_queue w @ new"
proof (induction rule: dispatched.induct)
  case (dispatch w w' a sid now)
  then show ?case by (cases "has_space a w'") (auto simp: add_or_enqueue_start add_or_enqueue_queue)
qed simp

text \<open>The contract of a property of one worker pool that every dispatch keeps.\<close>

locale pool_invariant =
  fixes I :: "worker_state \<Rightarrow> bool"
  assumes dispatch_keeps: "is_eligible a \<Longrightarrow> I w \<Longrightarrow> I (fst (add_or_enqueue_event a sid w now))"
begin

lemma dispatched_keeps: "dispatched w w' \<Longrightarrow> I w \<Longrightarrow> I w'"
  by (induction rule: dispatched.induct) (auto intro: dispatch_keeps)

end

text \<open>The times until which attempts in the queue are delayed.\<close>

definition delays :: "worker_state \<Rightarrow> real set" where
  "delays w = {t. \<exists>a \<in> set (ws_queue w). ea_not_before a = Some t}"

lemma delays_dispatch: "is_eligible a \<Longrightarrow> delays (fst (add_or_enqueue_event a sid w now)) = delays w"
  by (cases "has_space a w") (auto simp: delays_def add_or_enqueue_start add_or_enqueue_queue is_eligible_def)

lemma delays_mono: "set (ws_queue w') \<subseteq> set (ws_queue w) \<Longrightarrow> delays w' \<subseteq> delays w"
  by (auto simp: delays_def)

section \<open>The pool invariant\<close>

definition worker_ok :: "worker_state \<Rightarrow> bool" where
  "worker_ok w \<longleftrightarrow> distinct (map ip_worker_id (ws_in_progress w)) \<and>
     (\<forall>ip \<in> set (ws_in_progress w). ip_worker_id ip < num_workers (ws_config w))"

lemma worker_ok_capacity: "worker_ok w \<Longrightarrow> length (ws_in_progress w) \<le> num_workers (ws_config w)"
proof -
  assume ok: "worker_ok w"
  let ?ids = "map ip_worker_id (ws_in_progress w)"
  from ok have "length ?ids = card (set ?ids)"
    using distinct_card [of ?ids] by (simp only: worker_ok_def)
  also have "\<dots> \<le> card {..<num_workers (ws_config w)}"
    using ok by (intro card_mono) (auto simp: worker_ok_def)
  finally show ?thesis by simp
qed

lemma worker_ok_dispatch: "worker_ok w \<Longrightarrow> worker_ok (fst (add_or_enqueue_event a sid w now))"
proof (cases "has_space a w")
  case True
  assume ok: "worker_ok w"
  from True have "length (ws_in_progress w) < num_workers (ws_config w)" by (simp add: has_space_def)
  with free_worker_id [OF this] ok True show ?thesis
    by (auto simp: worker_ok_def add_or_enqueue_start)
qed (simp add: worker_ok_def add_or_enqueue_queue)

lemma worker_ok_ids: "worker_ok w \<longleftrightarrow> distinct (map ip_worker_id (ws_in_progress w)) \<and>
    (\<forall>i \<in> set (map ip_worker_id (ws_in_progress w)). i < num_workers (ws_config w))"
  by (simp add: worker_ok_def)

lemma worker_ok_cong: "worker_ok w \<Longrightarrow> ws_config w' = ws_config w \<Longrightarrow>
    map ip_worker_id (ws_in_progress w') = map ip_worker_id (ws_in_progress w) \<Longrightarrow> worker_ok w'"
  unfolding worker_ok_ids by metis

interpretation pool_ok: pool_invariant worker_ok
  by unfold_locales (rule worker_ok_dispatch)

text \<open>No free slot beside an eligible attempt.\<close>

definition work_conserving :: "worker_state \<Rightarrow> bool" where
  "work_conserving w \<longleftrightarrow> length (ws_in_progress w) < num_workers (ws_config w) \<longrightarrow>
     (\<forall>a \<in> set (ws_queue w). \<not> is_eligible a)"

lemma work_conserving_dispatch:
  "work_conserving w \<Longrightarrow> work_conserving (fst (add_or_enqueue_event a sid w now))"
  by (cases "has_space a w")
     (auto simp: work_conserving_def add_or_enqueue_start add_or_enqueue_queue has_space_def)

interpretation pool_conserving: pool_invariant work_conserving
  by unfold_locales (rule work_conserving_dispatch)

section \<open>Draining\<close>

lemma drain_full: "\<not> length (ws_in_progress st) < num_workers (ws_config st) \<Longrightarrow>
    drain_eligible_queue sid st now = (st, [])"
  by (simp add: drain_eligible_queue.simps)

lemma drain_none:
  assumes "\<forall>a \<in> set (ws_queue st). \<not> is_eligible a"
  shows "drain_eligible_queue sid st now = (st, [])"
proof -
  from assms have "find_index is_eligible (ws_queue st) = None" by simp
  then show ?thesis by (simp del: find_index_None add: drain_eligible_queue.simps [of sid st now])
qed

lemma drain_step:
  assumes "length (ws_in_progress st) < num_workers (ws_config st)"
    and "find_index is_eligible (ws_queue st) = Some i"
  shows "drain_eligible_queue sid st now =
    (let added = add_or_enqueue_event (ws_queue st ! i) sid
                   (st\<lparr>ws_queue := remove_nth i (ws_queue st)\<rparr>) now;
         rest = drain_eligible_queue sid (fst added) now
     in (fst rest, snd added @ snd rest))"
  using assms by (simp add: drain_eligible_queue.simps [of sid st now])

text \<open>
  Induction over the drain loop: either it stops, or the first eligible attempt is started and the
  loop goes on.
\<close>

lemma drain_induct [case_names stop full start]:
  fixes sid :: step_id and now :: real
  assumes stop: "\<And>st. length (ws_in_progress st) < num_workers (ws_config st) \<Longrightarrow>
        \<forall>a \<in> set (ws_queue st). \<not> is_eligible a \<Longrightarrow> P st st []"
    and full: "\<And>st. \<not> length (ws_in_progress st) < num_workers (ws_config st) \<Longrightarrow> P st st []"
    and start: "\<And>st ys a zs st' cs. length (ws_in_progress st) < num_workers (ws_config st) \<Longrightarrow>
        ws_queue st = ys @ a # zs \<Longrightarrow> \<forall>x \<in> set ys. \<not> is_eligible x \<Longrightarrow> is_eligible a \<Longrightarrow>
        P (fst (add_or_enqueue_event a sid (st\<lparr>ws_queue := ys @ zs\<rparr>) now)) st' cs \<Longrightarrow>
        P st st' (snd (add_or_enqueue_event a sid (st\<lparr>ws_queue := ys @ zs\<rparr>) now) @ cs)"
  shows "P st (fst (drain_eligible_queue sid st now)) (snd (drain_eligible_queue sid st now))"
proof (induction "num_workers (ws_config st) - length (ws_in_progress st)" arbitrary: st rule: less_induct)
  case less
  show ?case
  proof (cases "length (ws_in_progress st) < num_workers (ws_config st)")
    case False
    then show ?thesis by (simp add: drain_full full)
  next
    case cap: True
    show ?thesis
    proof (cases "find_index is_eligible (ws_queue st)")
      case None
      with cap show ?thesis by (simp add: drain_none stop)
    next
      case (Some i)
      then obtain ys a zs where q: "ws_queue st = ys @ a # zs" and i: "i = length ys"
        and a: "is_eligible a" and ys: "\<forall>x \<in> set ys. \<not> is_eligible x"
        using find_index_split by blast
      let ?added = "add_or_enqueue_event a sid (st\<lparr>ws_queue := ys @ zs\<rparr>) now"
      have d: "drain_eligible_queue sid st now =
          (fst (drain_eligible_queue sid (fst ?added) now),
           snd ?added @ snd (drain_eligible_queue sid (fst ?added) now))"
        using drain_step [OF cap Some, of sid now] by (simp add: q i Let_def)
      have "has_space a (st\<lparr>ws_queue := ys @ zs\<rparr>)" using cap a by (simp add: has_space_def)
      then have "num_workers (ws_config (fst ?added)) - length (ws_in_progress (fst ?added))
          < num_workers (ws_config st) - length (ws_in_progress st)"
        using cap by (simp add: add_or_enqueue_start)
      from less [OF this] show ?thesis unfolding d fst_conv snd_conv by (rule start [OF cap q ys a])
    qed
  qed
qed

lemma drain_config [simp]: "ws_config (fst (drain_eligible_queue sid st now)) = ws_config st"
  by (rule drain_induct [where P = "\<lambda>st st' cs. ws_config st' = ws_config st"]) simp_all

lemma drain_collected_events [simp]: "ws_collected_events (fst (drain_eligible_queue sid st now)) = ws_collected_events st"
  by (rule drain_induct [where P = "\<lambda>st st' cs. ws_collected_events st' = ws_collected_events st"]) simp_all

lemma drain_collected_waiters [simp]: "ws_collected_waiters (fst (drain_eligible_queue sid st now)) = ws_collected_waiters st"
  by (rule drain_induct [where P = "\<lambda>st st' cs. ws_collected_waiters st' = ws_collected_waiters st"]) simp_all

lemma drain_static_collect_events [simp]: "ws_static_collect_events (fst (drain_eligible_queue sid st now)) = ws_static_collect_events st"
  by (rule drain_induct [where P = "\<lambda>st st' cs. ws_static_collect_events st' = ws_static_collect_events st"]) simp_all

lemma drain_worker_ok [inv_intros]:
  assumes "worker_ok st" shows "worker_ok (fst (drain_eligible_queue sid st now))"
proof -
  have q: "worker_ok (w\<lparr>ws_queue := q\<rparr>) = worker_ok w" for w q by (simp add: worker_ok_def)
  have "worker_ok st \<longrightarrow> worker_ok (fst (drain_eligible_queue sid st now))"
    by (rule drain_induct [where P = "\<lambda>st st' cs. worker_ok st \<longrightarrow> worker_ok st'"])
       (auto simp: q intro: worker_ok_dispatch)
  with assms show ?thesis by blast
qed

lemma drain_work_conserving: "work_conserving (fst (drain_eligible_queue sid st now))"
  by (rule drain_induct [where P = "\<lambda>st st' cs. work_conserving st'"])
     (auto simp: work_conserving_def)

section \<open>Draining against its specification\<close>

text \<open>The reference: take the first \<open>k\<close> eligible attempts out of the queue.\<close>

fun skip_eligible :: "nat \<Rightarrow> event_attempt list \<Rightarrow> event_attempt list" where
  "skip_eligible 0 q = q"
| "skip_eligible (Suc k) [] = []"
| "skip_eligible (Suc k) (a # q) = (if is_eligible a then skip_eligible k q else a # skip_eligible (Suc k) q)"

lemma skip_eligible_Nil [simp]: "skip_eligible k [] = []"
  by (cases k) auto

lemma skip_eligible_none: "\<forall>a \<in> set q. \<not> is_eligible a \<Longrightarrow> skip_eligible k q = q"
proof (induction q)
  case (Cons a q)
  then show ?case by (cases k) auto
qed simp

lemma skip_eligible_first: "\<forall>x \<in> set ys. \<not> is_eligible x \<Longrightarrow> is_eligible a \<Longrightarrow>
    skip_eligible (Suc k) (ys @ a # zs) = skip_eligible k (ys @ zs)"
proof (induction ys)
  case Nil
  then show ?case by simp
next
  case (Cons y ys)
  then show ?case by (cases k) auto
qed

text \<open>
  The part of an attempt or execution that identifies the work: everything but the dispatch
  bookkeeping (worker slot, snapshot, timestamps of dispatch).
\<close>

record work_record =
  wk_event :: event
  wk_bound_events :: "(string, event) dict option"
  wk_attempts :: nat
  wk_last_exception :: "exn option"
  wk_last_failed_at :: "real option"
  wk_recovery_counts :: "(string, nat) dict"
  wk_scope_path :: "string list"
  wk_payload :: "release_payload option"
  wk_work_item_id :: "string option"

definition work_of_attempt :: "event_attempt \<Rightarrow> work_record" where
  "work_of_attempt a =
    \<lparr>wk_event = ea_event a, wk_bound_events = ea_bound_events a,
     wk_attempts = nat_or_zero (ea_attempts a),
     wk_last_exception = ea_last_exception a, wk_last_failed_at = ea_last_failed_at a,
     wk_recovery_counts = ea_recovery_counts a, wk_scope_path = ea_scope_path a,
     wk_payload = ea_payload a, wk_work_item_id = ea_work_item_id a\<rparr>"

definition work_of_execution :: "in_progress \<Rightarrow> work_record" where
  "work_of_execution ip =
    \<lparr>wk_event = ip_event ip, wk_bound_events = ip_bound_events ip, wk_attempts = ip_attempts ip,
     wk_last_exception = ip_last_exception ip, wk_last_failed_at = ip_last_failed_at ip,
     wk_recovery_counts = ip_recovery_counts ip, wk_scope_path = ip_scope_path ip,
     wk_payload = ss_payload (ip_shared_state ip), wk_work_item_id = ip_work_item_id ip\<rparr>"

definition pool_work :: "worker_state \<Rightarrow> work_record multiset" where
  "pool_work w = mset (map work_of_attempt (ws_queue w)) + mset (map work_of_execution (ws_in_progress w))"

lemma work_of_start [simp]: "work_of_execution (start_attempt n a w now) = work_of_attempt a"
  by (simp add: work_of_execution_def work_of_attempt_def)

lemma work_of_requeue [simp]: "work_of_attempt (attempt_of_in_progress ip) = work_of_execution ip"
  by (simp add: work_of_execution_def work_of_attempt_def attempt_of_in_progress_def nat_or_zero_def)

lemma pool_work_dispatch:
  "pool_work (fst (add_or_enqueue_event a sid w now)) = pool_work w + {#work_of_attempt a#}"
  by (cases "has_space a w") (simp_all add: pool_work_def add_or_enqueue_start add_or_enqueue_queue)

lemma pool_work_drain: "pool_work (fst (drain_eligible_queue sid st now)) = pool_work st"
proof (rule drain_induct [where P = "\<lambda>st st' cs. pool_work st' = pool_work st"])
  fix st ys a zs st' cs
  assume "ws_queue st = ys @ a # zs"
    and "pool_work st' = pool_work (fst (add_or_enqueue_event a sid (st\<lparr>ws_queue := ys @ zs\<rparr>) now))"
  then show "pool_work st' = pool_work st" by (simp add: pool_work_dispatch) (simp add: pool_work_def)
qed simp_all

lemma pool_work_requeue: "pool_work (requeue_in_progress w) = pool_work w"
  by (simp add: pool_work_def requeue_in_progress_def multiset.map_comp comp_def)

definition drain_count :: "worker_state \<Rightarrow> nat" where
  "drain_count st = min (num_workers (ws_config st) - length (ws_in_progress st))
     (length (filter is_eligible (ws_queue st)))"

lemma drain_spec:
  "ws_queue (fst (drain_eligible_queue sid st now)) = skip_eligible (drain_count st) (ws_queue st) \<and>
   map work_of_execution (ws_in_progress (fst (drain_eligible_queue sid st now))) =
     map work_of_execution (ws_in_progress st) @
     map work_of_attempt (take (drain_count st) (filter is_eligible (ws_queue st)))"
proof (rule drain_induct [where P = "\<lambda>st st' cs.
      ws_queue st' = skip_eligible (drain_count st) (ws_queue st) \<and>
      map work_of_execution (ws_in_progress st') = map work_of_execution (ws_in_progress st) @
        map work_of_attempt (take (drain_count st) (filter is_eligible (ws_queue st)))"],
      goal_cases)
  case (1 st)
  then show ?case by (simp add: skip_eligible_none drain_count_def)
next
  case (2 st)
  then show ?case by (simp add: drain_count_def)
next
  case (3 st ys a zs st' cs)
  let ?st1 = "st\<lparr>ws_queue := ys @ zs\<rparr>"
  let ?st2 = "fst (add_or_enqueue_event a sid ?st1 now)"
  from 3 have st2: "?st2 = ?st1\<lparr>ws_in_progress := ws_in_progress st @
      [start_attempt (root_step_key sid) a ?st1 now]\<rparr>"
    by (simp add: add_or_enqueue_start has_space_def)
  from 3(1-4) have count: "drain_count st = Suc (drain_count ?st2)"
    by (simp add: st2 drain_count_def)
  from 3(3) have "filter is_eligible ys = []" by (simp add: filter_empty_conv)
  with 3(2-5) count show ?case by (simp add: st2 skip_eligible_first)
qed

section \<open>Rewinding\<close>

lemma work_conserving_rewind: "work_conserving (fst (rewind_worker now n ws))"
  by (simp add: rewind_worker_def Let_def drain_work_conserving)

lemma worker_ok_rewind: "worker_ok (fst (rewind_worker now n ws))"
proof -
  have "worker_ok (requeue_in_progress ws)" by (simp add: worker_ok_def requeue_in_progress_def)
  then show ?thesis by (simp add: rewind_worker_def Let_def drain_worker_ok)
qed

lemma rewind_worker_config [simp]: "ws_config (fst (rewind_worker now n ws)) = ws_config ws"
  by (simp add: rewind_worker_def Let_def requeue_in_progress_def)

lemma pool_work_rewind: "pool_work (fst (rewind_worker now n ws)) = pool_work ws"
  by (simp add: rewind_worker_def Let_def pool_work_drain pool_work_requeue)

lemma schedule_wakeups_iff:
  "CommandScheduleWakeup t \<in> set (schedule_wakeups q) \<longleftrightarrow> (\<exists>a \<in> set q. ea_not_before a = Some t)"
  by (force simp: schedule_wakeups_def)

lemma rewind_worker_wakeups:
  "a \<in> set (ws_queue (fst (rewind_worker now n ws))) \<Longrightarrow> ea_not_before a = Some t \<Longrightarrow>
   CommandScheduleWakeup t \<in> set (snd (rewind_worker now n ws))"
  by (auto simp: rewind_worker_def Let_def schedule_wakeups_iff)

lemma dkeys_update_workers:
  "set (dkeys items) \<subseteq> set (dkeys d) \<Longrightarrow> dkeys (fst (update_workers f items d)) = dkeys d"
proof (induction f items d rule: update_workers.induct)
  case (2 f n w items d)
  then show ?case by (simp add: Let_def dkeys_dset)
qed simp

lemma dget_update_workers:
  "distinct (dkeys items) \<Longrightarrow> dget (fst (update_workers f items d)) n =
     (case dget items n of None \<Rightarrow> dget d n | Some w \<Rightarrow> Some (fst (f n w)))"
proof (induction f items d rule: update_workers.induct)
  case (2 f m w items d)
  then have "dget items m = None" by (simp add: dget_keys)
  with 2 show ?case by (cases "n = m") (auto simp: Let_def split: option.splits)
qed simp

lemma cmds_update_workers:
  "dget items n = Some w \<Longrightarrow> set (snd (f n w)) \<subseteq> set (snd (update_workers f items d))"
proof (induction f items d rule: update_workers.induct)
  case (2 f m w' items d)
  then show ?case by (auto simp: Let_def split: if_splits)
qed simp

lemma distinct_sort_keys: "distinct (dkeys d) \<Longrightarrow> distinct (dkeys (sort_key fst d))"
  by (simp add: distinct_map)

lemma map_of_sort_key: "distinct (dkeys d) \<Longrightarrow> dget (sort_key fst d) n = dget d n"
  by (rule map_of_inject_set [THEN iffD2, THEN fun_cong]) (simp_all add: distinct_map inj_on_def)

text \<open>\<open>for name, w in sorted(workers.items())\<close> updates every worker independently.\<close>

lemma dget_update_sorted:
  assumes "distinct (dkeys d)"
  shows "dget (fst (update_workers f (sort_key fst d) d)) n = map_option (\<lambda>w. fst (f n w)) (dget d n)"
proof -
  have "distinct (dkeys (sort_key fst d))"
    using assms by (simp add: distinct_map)
  then show ?thesis
    using assms by (simp add: dget_update_workers map_of_sort_key split: option.splits)
qed

lemma dkeys_update_sorted: "dkeys (fst (update_workers f (sort_key fst d) d)) = dkeys d"
  by (rule dkeys_update_workers) simp

lemma rewind_in_progress_frame [simp]:
  "is_running (fst (rewind_in_progress s now)) = is_running s"
  "config (fst (rewind_in_progress s now)) = config s"
  "streams (fst (rewind_in_progress s now)) = streams s"
  "stream_seq (fst (rewind_in_progress s now)) = stream_seq s"
  "work_item_seq (fst (rewind_in_progress s now)) = work_item_seq s"
  "collection_release_states (fst (rewind_in_progress s now)) = collection_release_states s"
  "dkeys (workers (fst (rewind_in_progress s now))) = dkeys (workers s)"
  by (simp_all add: rewind_in_progress_def Let_def dkeys_update_sorted)

lemma dget_rewind_in_progress:
  "distinct (dkeys (workers s)) \<Longrightarrow> dget (workers (fst (rewind_in_progress s now))) n =
     map_option (\<lambda>w. fst (rewind_worker now n (worker_deepcopy w))) (dget (workers s) n)"
  by (simp add: rewind_in_progress_def Let_def dget_update_sorted option.map_comp comp_def)

end
