(* ===== verification/Hashing.thy ===== *)
theory Hashing
  imports Prelude "HOL-Library.Word"
begin

unbundle bit_operations_syntax

text \<open>
  \<open>hashlib.sha256(s.encode()).hexdigest()\<close>, the digest the control loop mints stream ids and
  retry-jitter seeds from: SHA-256 over 32-bit words. Characters are bytes, so a string is its own
  encoding. Only determinism of the digest is used by the proofs; that two different inputs have
  different digests is a hypothesis wherever it matters.
\<close>

type_synonym u32 = "32 word"

definition rotr :: "nat \<Rightarrow> u32 \<Rightarrow> u32" where
  "rotr n x = (drop_bit n x) OR (push_bit (32 - n) x)"

text \<open>
  The round constants are the first 32 fractional bits of the cube roots of the first 64 primes, the
  initial state those of the square roots of the first 8: scaling by \<open>2 ^ 32\<close> under the root and
  truncating to a word leaves exactly those bits. The 64th prime is 311.
\<close>

definition trial_prime :: "nat \<Rightarrow> bool" where
  "trial_prime n \<longleftrightarrow> list_all (\<lambda>d. n mod d \<noteq> 0) [2..<n]"

definition sha_primes :: "nat list" where
  "sha_primes = filter trial_prime [2..<312]"

text \<open>The integer \<open>k\<close>-th root of a number below \<open>2 ^ (36 * k)\<close>, bit by bit from the top.\<close>

definition iroot :: "nat \<Rightarrow> nat \<Rightarrow> nat" where
  "iroot k n = foldl (\<lambda>r i. if (r + 2 ^ i) ^ k \<le> n then r + 2 ^ i else r) 0 (rev [0..<36])"

definition root_fraction :: "nat \<Rightarrow> nat \<Rightarrow> u32" where
  "root_fraction k p = of_nat (iroot k (p * 2 ^ (32 * k)))"

definition sha_k :: "u32 list" where
  "sha_k = map (root_fraction 3) sha_primes"

definition sha_init :: "u32 list" where
  "sha_init = map (root_fraction 2) (take 8 sha_primes)"

text \<open>Padding: one bit, zeros, and the bit length as eight big-endian bytes.\<close>

definition be_bytes :: "nat \<Rightarrow> nat \<Rightarrow> nat list" where
  "be_bytes k n = map (\<lambda>i. n div 256 ^ i mod 256) (rev [0..<k])"

definition sha_pad :: "nat list \<Rightarrow> nat list" where
  "sha_pad m = m @ [128] @ replicate ((119 - length m mod 64) mod 64) 0 @ be_bytes 8 (8 * length m)"

fun be_words :: "nat list \<Rightarrow> u32 list" where
  "be_words (a # b # c # d # rest) =
     of_nat (((a * 256 + b) * 256 + c) * 256 + d) # be_words rest"
| "be_words _ = []"

text \<open>The message schedule, kept most recent word first.\<close>

definition sha_extend :: "u32 list \<Rightarrow> u32 list" where
  "sha_extend ws =
    (let w2 = ws ! 1; w7 = ws ! 6; w15 = ws ! 14; w16 = ws ! 15;
         s0 = rotr 7 w15 XOR rotr 18 w15 XOR drop_bit 3 w15;
         s1 = rotr 17 w2 XOR rotr 19 w2 XOR drop_bit 10 w2
     in (w16 + s0 + w7 + s1) # ws)"

definition sha_schedule :: "u32 list \<Rightarrow> u32 list" where
  "sha_schedule block = rev ((sha_extend ^^ 48) (rev block))"

fun sha_round :: "u32 \<times> u32 \<Rightarrow> u32 list \<Rightarrow> u32 list" where
  "sha_round (k, w) [a, b, c, d, e, f, g, h] =
    (let S1 = rotr 6 e XOR rotr 11 e XOR rotr 25 e;
         ch = (e AND f) XOR ((NOT e) AND g);
         t1 = h + S1 + ch + k + w;
         S0 = rotr 2 a XOR rotr 13 a XOR rotr 22 a;
         maj = (a AND b) XOR (a AND c) XOR (b AND c)
     in [t1 + S0 + maj, a, b, c, d + t1, e, f, g])"
| "sha_round _ st = st"

definition sha_block :: "u32 list \<Rightarrow> u32 list \<Rightarrow> u32 list" where
  "sha_block block st = map2 (+) st (fold sha_round (zip sha_k (sha_schedule block)) st)"

fun sha_blocks :: "nat \<Rightarrow> u32 list \<Rightarrow> u32 list \<Rightarrow> u32 list" where
  "sha_blocks 0 ws st = st"
| "sha_blocks (Suc n) ws st = sha_blocks n (drop 16 ws) (sha_block (take 16 ws) st)"

definition sha256_words :: "string \<Rightarrow> u32 list" where
  "sha256_words s = (let ws = be_words (sha_pad (map of_char s))
     in sha_blocks (length ws div 16) ws sha_init)"

definition hex_digit :: "nat \<Rightarrow> char" where
  "hex_digit d = (if d < 10 then char_of (48 + d) else char_of (87 + d))"

definition hex32 :: "u32 \<Rightarrow> string" where
  "hex32 w = map (\<lambda>i. hex_digit (unat w div 16 ^ i mod 16)) (rev [0..<8])"

definition sha256_hex :: "string \<Rightarrow> string" where
  "sha256_hex s = concat (map hex32 (sha256_words s))"

text \<open>\<open>int(hexdigest, 16)\<close>.\<close>

definition sha256_nat :: "string \<Rightarrow> nat" where
  "sha256_nat s = foldl (\<lambda>acc w. acc * 2 ^ 32 + unat w) 0 (sha256_words s)"

end
