(* ===== verification/Streams.thy ===== *)
theory Streams
  imports Dispatch Hashing
begin

text \<open>
  Collection-stream accounting (\<open>runtime/control_loop/streams.py\<close>): minting stream ids, counting
  open work items, releasing buffered batches on the n-th arrival or on close, classifying a
  finished execution, and detecting streams that can no longer close.

  Shown here: every operation leaves the configuration and the set of steps alone and changes a
  worker pool only by dispatching into it; closing a stream removes it and fires each of its
  unreleased bindings exactly once, with exactly the batch its policy asks for; a batch that was
  released on arrival is not released again on close.
\<close>

section \<open>Operations\<close>

definition mint_stream_id :: "broker_state \<Rightarrow> string list \<Rightarrow> string \<Rightarrow> broker_state \<times> string" where
  "mint_stream_id s scope_path step_name =
    (let seq = stream_seq s;
         path = join ''>'' scope_path;
         digest = sha256_hex (path @ '':'' @ step_name @ '':'' @ nat_to_string seq)
     in (s\<lparr>stream_seq := seq + 1\<rparr>, ''stream-'' @ take 16 digest))"

definition clear_collection_state :: "broker_state \<Rightarrow> broker_state" where
  "clear_collection_state s = s\<lparr>streams := [], collection_release_states := []\<rparr>"

definition count_accepting_steps :: "broker_state \<Rightarrow> pytype \<Rightarrow> nat" where
  "count_accepting_steps s event_type =
     length (filter (\<lambda>(n, cfg). step_accepts_type (isc_accept_event_subclasses cfg) event_type
                                 (isc_accepted_events cfg)) (bc_steps (config s)))"

definition take_threshold :: "collect option \<Rightarrow> nat option" where
  "take_threshold c = (case c of
      None \<Rightarrow> None
    | Some c' \<Rightarrow> (case card_of c' of Take n \<Rightarrow> Some n | All \<Rightarrow> None))"

definition release_state_key :: "string \<Rightarrow> string \<Rightarrow> string" where
  "release_state_key stream_id binding_id = stream_id @ '':'' @ binding_id"

definition new_release_state :: "collection_binding \<Rightarrow> string \<Rightarrow> release_state" where
  "new_release_state binding stream_id =
    \<lparr>rs_binding_id = cb_id binding, rs_stream_id = stream_id, rs_buffer = [], rs_released = False\<rparr>"

text \<open>\<open>_release_state_for\<close>: the stored release state, created and stored when missing.\<close>

definition release_state_for ::
  "broker_state \<Rightarrow> string \<Rightarrow> collection_binding \<Rightarrow> broker_state \<times> release_state"
where
  "release_state_for s stream_id binding =
    (let key = release_state_key stream_id (cb_id binding) in
     case dget (collection_release_states s) key of
       Some r \<Rightarrow> (s, r)
     | None \<Rightarrow>
         (let r = new_release_state binding stream_id
          in (s\<lparr>collection_release_states := dset key r (collection_release_states s)\<rparr>, r)))"

definition release_on_item ::
  "collection_binding \<Rightarrow> release_state \<Rightarrow> release_state \<times> event list option"
where
  "release_on_item binding r =
    (case take_threshold (Some (cb_policy binding)) of
       None \<Rightarrow> (r, None)
     | Some threshold \<Rightarrow>
         if length (rs_buffer r) < threshold then (r, None)
         else (r\<lparr>rs_released := True\<rparr>, Some (take threshold (rs_buffer r))))"

definition release_on_close ::
  "collection_binding \<Rightarrow> release_state \<Rightarrow> release_state \<times> event list option"
where
  "release_on_close binding r =
    (if rs_released r then (r, None)
     else (case take_threshold (Some (cb_policy binding)) of
             Some threshold \<Rightarrow> (r\<lparr>rs_released := True\<rparr>, Some (take threshold (rs_buffer r)))
           | None \<Rightarrow> (r\<lparr>rs_released := True\<rparr>, Some (rs_buffer r))))"

text \<open>A member reaching a release state: ignored once the batch was released.\<close>

definition member_arrives ::
  "collection_binding \<Rightarrow> event \<Rightarrow> release_state \<Rightarrow> release_state \<times> event list option"
where
  "member_arrives binding ev r =
    (if rs_released r then (r, None)
     else release_on_item binding (r\<lparr>rs_buffer := rs_buffer r @ [ev]\<rparr>))"

definition release_attempt :: "collection_binding \<Rightarrow> string \<Rightarrow> event list \<Rightarrow> string list \<Rightarrow> event_attempt" where
  "release_attempt binding stream_id events output_stack =
    (let payload = \<lparr>rp_binding_id = cb_id binding, rp_stream_id = stream_id, rp_events = events,
                    rp_output_scope_path = output_stack\<rparr>
     in \<lparr>ea_event = as_event payload, ea_bound_events = None, ea_attempts = None,
         ea_first_attempt_at = None, ea_last_exception = None, ea_last_failed_at = None,
         ea_recovery_counts = [], ea_not_before = None, ea_scope_path = output_stack,
         ea_payload = Some payload, ea_work_item_id = Some (payload_work_item_id payload)\<rparr>)"

definition fire_collection_release ::
  "collection_binding \<Rightarrow> string \<Rightarrow> worker_state \<Rightarrow> event list \<Rightarrow> string list \<Rightarrow> real \<Rightarrow>
   worker_state \<times> command list"
where
  "fire_collection_release binding stream_id ws events output_stack now =
     add_or_enqueue_event (release_attempt binding stream_id events output_stack)
       (StepId_root (cb_target_step binding)) ws now"

text \<open>The loop of \<open>_close_collection_stream\<close> over the bindings of the closed stream's source.\<close>

fun close_bindings ::
  "collection_binding list \<Rightarrow> string \<Rightarrow> string list \<Rightarrow> broker_state \<Rightarrow> real \<Rightarrow> broker_state \<times> command list"
where
  "close_bindings [] stream_id scope_path s now = (s, [])"
| "close_bindings (binding # bindings) stream_id scope_path s now =
    (case dget (workers s) (cb_target_step binding) of
       None \<Rightarrow> close_bindings bindings stream_id scope_path s now
     | Some ws \<Rightarrow>
         if collection_param (ws_config ws) = None
         then close_bindings bindings stream_id scope_path s now
         else
           (let key = release_state_key stream_id (cb_id binding);
                popped = (case dget (collection_release_states s) key of
                            Some r \<Rightarrow> r | None \<Rightarrow> new_release_state binding stream_id);
                s1 = s\<lparr>collection_release_states := dpop key (collection_release_states s)\<rparr>
            in case snd (release_on_close binding popped) of
                 None \<Rightarrow> close_bindings bindings stream_id scope_path s1 now
               | Some release \<Rightarrow>
                   (let fired = fire_collection_release binding stream_id ws release scope_path now;
                        s2 = s1\<lparr>workers := dset (cb_target_step binding) (fst fired) (workers s1)\<rparr>;
                        rest = close_bindings bindings stream_id scope_path s2 now
                    in (fst rest, snd fired @ snd rest))))"

definition close_collection_stream ::
  "broker_state \<Rightarrow> string \<Rightarrow> real \<Rightarrow> broker_state \<times> command list"
where
  "close_collection_stream s stream_id now =
    (case dget (streams s) stream_id of
       None \<Rightarrow> (s, [])
     | Some stream \<Rightarrow>
         close_bindings (bindings_for_source (config s) (cs_source_step stream)) stream_id
           (cs_scope_path stream) (s\<lparr>streams := dpop stream_id (streams s)\<rparr>) now)"

definition adjust_open_work_items ::
  "broker_state \<Rightarrow> string option \<Rightarrow> int \<Rightarrow> real \<Rightarrow> broker_state \<times> command list"
where
  "adjust_open_work_items s stream_id delta now =
    (case stream_id of
       None \<Rightarrow> (s, [])
     | Some sid \<Rightarrow>
         (case dget (streams s) sid of
            None \<Rightarrow> (s, [])
          | Some stream \<Rightarrow>
              (let stream' = stream\<lparr>cs_open_work_items := cs_open_work_items stream + delta\<rparr>;
                   s1 = s\<lparr>streams := dset sid stream' (streams s)\<rparr>
               in if cs_open_work_items stream' \<le> 0 then close_collection_stream s1 sid now
                  else (s1, []))))"

datatype work_disposition = COMPLETED | FANNED_OUT | STILL_LIVE | ABSORBED | RUN_ENDING

definition classify_work_item ::
  "step_result_tick \<Rightarrow> command list \<Rightarrow> bool \<Rightarrow> bool \<Rightarrow> bool \<Rightarrow> work_disposition res"
where
  "classify_work_item tick commands rerun_scheduled redelivery_scheduled fanned_out =
    (let did_complete_step = list_ex is_result (sr_result tick);
         step_failed = list_ex is_failed (sr_result tick);
         added_waiter = list_ex is_add_waiter (sr_result tick)
     in if list_ex indicates_exit commands then Inr RUN_ENDING
        else if rerun_scheduled then Inr STILL_LIVE
        else if step_failed \<and> redelivery_scheduled then Inr STILL_LIVE
        else if did_complete_step then Inr (if fanned_out then FANNED_OUT else COMPLETED)
        else if added_waiter then Inr STILL_LIVE
        else if list_all is_add_collected (sr_result tick) then Inr ABSORBED
        else Inl (WorkflowRuntimeError ''Cannot classify finished execution of step''))"

text \<open>
  \<open>_detect_stuck_streams\<close>: an unreleased batch of a stream that is gone, or open streams with no
  unresolved waiter inside any of them.
\<close>

definition orphaned_release :: "broker_state \<Rightarrow> release_state option" where
  "orphaned_release s = find (\<lambda>r. \<not> rs_released r \<and> dget (streams s) (rs_stream_id r) = None)
     (map snd (collection_release_states s))"

definition has_in_stream_waiter :: "broker_state \<Rightarrow> bool" where
  "has_in_stream_waiter s = list_ex (\<lambda>(n, ws). list_ex (\<lambda>w.
      w_resolved_event w = None \<and> \<not> w_timed_out w \<and>
      list_ex (\<lambda>sid. dget (streams s) sid \<noteq> None) (w_scope_path w)) (ws_collected_waiters ws))
    (workers s)"

definition detect_stuck_streams :: "broker_state \<Rightarrow> (string \<times> exn) option" where
  "detect_stuck_streams s =
    (case orphaned_release s of
       Some orphaned \<Rightarrow>
         Some (case dget (bc_collection_bindings (config s)) (rs_binding_id orphaned) of
                 Some binding \<Rightarrow> cb_target_step binding | None \<Rightarrow> ''<unknown>'',
               WorkflowRuntimeError ''Workflow is idle with a pending collect release'')
     | None \<Rightarrow>
         (case streams s of
            [] \<Rightarrow> None
          | (sid, first_leaked) # _ \<Rightarrow>
              if has_in_stream_waiter s then None
              else Some (cs_source_step first_leaked,
                     WorkflowRuntimeError ''Workflow is idle but collection streams are still open'')))"

section \<open>How the state evolves under stream operations\<close>

definition workers_evolve :: "broker_state \<Rightarrow> broker_state \<Rightarrow> bool" where
  "workers_evolve s s' \<longleftrightarrow> config s' = config s \<and> is_running s' = is_running s \<and>
     dkeys (workers s') = dkeys (workers s) \<and>
     (\<forall>n. rel_option dispatched (dget (workers s) n) (dget (workers s') n))"

lemma workers_evolve_refl [simp]: "workers_evolve s s"
  by (auto simp: workers_evolve_def rel_option_iff intro: dispatched.nothing split: option.splits)

lemma workers_evolve_cong:
  "workers s' = workers s \<Longrightarrow> config s' = config s \<Longrightarrow> is_running s' = is_running s \<Longrightarrow> workers_evolve s s'"
  using workers_evolve_refl [of s] unfolding workers_evolve_def by simp

lemma workers_evolve_trans:
  assumes "workers_evolve s t" and "workers_evolve t u"
  shows "workers_evolve s u"
proof -
  have "rel_option dispatched (dget (workers s) n) (dget (workers u) n)" for n
  proof -
    have "rel_option dispatched (dget (workers s) n) (dget (workers t) n)"
      and "rel_option dispatched (dget (workers t) n) (dget (workers u) n)"
      using assms by (simp_all add: workers_evolve_def)
    then show ?thesis
      by (cases "dget (workers s) n"; cases "dget (workers t) n"; cases "dget (workers u) n")
         (auto intro: dispatched_trans)
  qed
  with assms show ?thesis by (simp add: workers_evolve_def)
qed

lemma release_attempt_eligible [simp]: "is_eligible (release_attempt b i evs path)"
  by (simp add: release_attempt_def is_eligible_def Let_def)

lemma workers_evolve_dispatch:
  assumes "dget (workers s) n = Some w" and "is_eligible a"
  shows "workers_evolve s (s\<lparr>workers := dset n (fst (add_or_enqueue_event a sid w now)) (workers s)\<rparr>)"
  using assms by (auto simp: workers_evolve_def rel_option_iff intro: dispatched.nothing split: option.splits)

lemma workers_evolve_dget:
  assumes "workers_evolve s s'" and "dget (workers s) n = Some w"
  obtains w' where "dget (workers s') n = Some w'" and "dispatched w w'"
proof -
  from assms(1) have "rel_option dispatched (dget (workers s) n) (dget (workers s') n)"
    by (simp add: workers_evolve_def)
  with assms(2) that show ?thesis by (auto simp: rel_option_iff split: option.splits)
qed

lemma workers_evolve_dget_None:
  "workers_evolve s s' \<Longrightarrow> dget (workers s') n = None \<longleftrightarrow> dget (workers s) n = None"
  by (simp add: workers_evolve_def dget_keys)

lemma workers_evolve_fields: "workers_evolve s s' \<Longrightarrow>
    config s' = config s \<and> is_running s' = is_running s \<and> dkeys (workers s') = dkeys (workers s)"
  by (simp add: workers_evolve_def)

lemma close_bindings_evolve: "workers_evolve s (fst (close_bindings bs sid path s now))"
proof (induction bs sid path s now rule: close_bindings.induct)
  case (2 b bs sid path s now)
  show ?case
  proof (cases "dget (workers s) (cb_target_step b)")
    case None
    with 2(1) show ?thesis by simp
  next
    case ws: (Some ws)
    show ?thesis
    proof (cases "collection_param (ws_config ws) = None")
      case True
      with 2(2) ws show ?thesis by simp
    next
      case False
      then obtain cp where cp: "collection_param (ws_config ws) = Some cp" by blast
      let ?key = "release_state_key sid (cb_id b)"
      let ?r = "case dget (collection_release_states s) ?key of Some r \<Rightarrow> r | None \<Rightarrow> new_release_state b sid"
      let ?s1 = "s\<lparr>collection_release_states := dpop ?key (collection_release_states s)\<rparr>"
      have e1: "workers_evolve s ?s1" by (rule workers_evolve_cong) simp_all
      show ?thesis
      proof (cases "snd (release_on_close b ?r)")
        case None
        with 2(3) ws cp have "workers_evolve ?s1 (fst (close_bindings bs sid path ?s1 now))" by simp
        with e1 have "workers_evolve s (fst (close_bindings bs sid path ?s1 now))"
          by (rule workers_evolve_trans)
        with None ws cp show ?thesis by (simp add: Let_def)
      next
        case (Some rel)
        let ?f = "fire_collection_release b sid ws rel path now"
        let ?s2 = "?s1\<lparr>workers := dset (cb_target_step b) (fst ?f) (workers s)\<rparr>"
        have "workers_evolve ?s1 ?s2"
          using workers_evolve_dispatch [of ?s1 "cb_target_step b" ws, OF _ release_attempt_eligible] ws
          by (simp add: fire_collection_release_def)
        with e1 have e2: "workers_evolve s ?s2" by (rule workers_evolve_trans)
        from 2(4) ws cp Some have "workers_evolve ?s2 (fst (close_bindings bs sid path ?s2 now))"
          by (simp add: Let_def)
        with e2 have "workers_evolve s (fst (close_bindings bs sid path ?s2 now))"
          by (rule workers_evolve_trans)
        with Some ws cp show ?thesis by (simp add: Let_def)
      qed
    qed
  qed
qed simp

lemma close_collection_stream_evolve: "workers_evolve s (fst (close_collection_stream s sid now))"
proof (cases "dget (streams s) sid")
  case (Some stream)
  let ?s1 = "s\<lparr>streams := dpop sid (streams s)\<rparr>"
  have "workers_evolve s ?s1" by (rule workers_evolve_cong) simp_all
  then show ?thesis
    using Some close_bindings_evolve [of ?s1]
    by (auto simp: close_collection_stream_def intro: workers_evolve_trans)
qed (simp add: close_collection_stream_def)

lemma adjust_open_work_items_evolve: "workers_evolve s (fst (adjust_open_work_items s sid delta now))"
proof (cases sid)
  case (Some i)
  show ?thesis
  proof (cases "dget (streams s) i")
    case (Some stream)
    let ?s1 = "s\<lparr>streams := dset i (stream\<lparr>cs_open_work_items := cs_open_work_items stream + delta\<rparr>) (streams s)\<rparr>"
    have "workers_evolve s ?s1" by (rule workers_evolve_cong) simp_all
    then show ?thesis
      using Some \<open>sid = Some i\<close> close_collection_stream_evolve [of ?s1]
      by (auto simp: adjust_open_work_items_def Let_def intro: workers_evolve_trans)
  qed (simp add: adjust_open_work_items_def Some)
qed (simp add: adjust_open_work_items_def)

section \<open>What closing a stream does\<close>

text \<open>The release state a close works on, and whether the binding's target is a collect step.\<close>

definition stored_release :: "broker_state \<Rightarrow> string \<Rightarrow> collection_binding \<Rightarrow> release_state" where
  "stored_release s stream_id b =
    (case dget (collection_release_states s) (release_state_key stream_id (cb_id b)) of
       Some r \<Rightarrow> r | None \<Rightarrow> new_release_state b stream_id)"

definition targets_collect_step :: "broker_state \<Rightarrow> collection_binding \<Rightarrow> bool" where
  "targets_collect_step s b = (case dget (workers s) (cb_target_step b) of
      None \<Rightarrow> False | Some w \<Rightarrow> collection_param (ws_config w) \<noteq> None)"

text \<open>The batches a close owes to step \<open>n\<close>.\<close>

definition owed_releases ::
  "broker_state \<Rightarrow> string \<Rightarrow> string list \<Rightarrow> string \<Rightarrow> collection_binding list \<Rightarrow> event_attempt list"
where
  "owed_releases s stream_id path n bs = concat (map (\<lambda>b.
     if cb_target_step b = n \<and> targets_collect_step s b then
       (case snd (release_on_close b (stored_release s stream_id b)) of
          None \<Rightarrow> [] | Some events \<Rightarrow> [release_attempt b stream_id events path])
     else []) bs)"

lemma release_state_key_inj [simp]: "release_state_key i x = release_state_key i y \<longleftrightarrow> x = y"
  by (simp add: release_state_key_def)

lemma stored_release_pop:
  "cb_id b \<noteq> cb_id c \<Longrightarrow> stored_release (s\<lparr>collection_release_states :=
      dpop (release_state_key i (cb_id c)) (collection_release_states s)\<rparr>) i b = stored_release s i b"
  by (simp add: stored_release_def)

lemma owed_releases_cong:
  assumes "\<And>b. b \<in> set bs \<Longrightarrow> stored_release s' i b = stored_release s i b"
    and "\<And>b. b \<in> set bs \<Longrightarrow> targets_collect_step s' b = targets_collect_step s b"
  shows "owed_releases s' i path n bs = owed_releases s i path n bs"
  unfolding owed_releases_def by (rule arg_cong [where f = concat], rule map_cong) (use assms in auto)

text \<open>One iteration of the loop over the bindings.\<close>

definition close_binding ::
  "collection_binding \<Rightarrow> string \<Rightarrow> string list \<Rightarrow> broker_state \<Rightarrow> real \<Rightarrow> broker_state"
where
  "close_binding b i path s now = (if targets_collect_step s b then
     (let s1 = s\<lparr>collection_release_states :=
            dpop (release_state_key i (cb_id b)) (collection_release_states s)\<rparr>
      in case snd (release_on_close b (stored_release s i b)) of
           None \<Rightarrow> s1
         | Some events \<Rightarrow> s1\<lparr>workers := dset (cb_target_step b)
             (fst (fire_collection_release b i (the (dget (workers s) (cb_target_step b))) events path now))
             (workers s)\<rparr>)
     else s)"

lemma close_bindings_Cons:
  "fst (close_bindings (b # bs) i path s now) = fst (close_bindings bs i path (close_binding b i path s now) now)"
  by (auto simp: close_binding_def targets_collect_step_def stored_release_def Let_def
      simp del: not_None_eq split: option.splits if_splits)

lemma close_binding_targets:
  "targets_collect_step (close_binding b i path s now) c = targets_collect_step s c"
  by (auto simp: close_binding_def targets_collect_step_def fire_collection_release_def Let_def
      split: option.splits if_splits)

lemma close_binding_stored:
  "cb_id c \<noteq> cb_id b \<Longrightarrow> stored_release (close_binding b i path s now) i c = stored_release s i c"
  by (auto simp: close_binding_def stored_release_def Let_def split: option.splits)

lemma close_binding_work:
  assumes "dget (workers s) n = Some w"
  shows "\<exists>w'. dget (workers (close_binding b i path s now)) n = Some w' \<and>
     pool_work w' = pool_work w + mset (map work_of_attempt (owed_releases s i path n [b]))"
  using assms
  by (auto simp: close_binding_def owed_releases_def targets_collect_step_def fire_collection_release_def
      pool_work_dispatch Let_def split: option.splits if_splits)

lemma close_bindings_work:
  assumes "distinct (map cb_id bs)" and "dget (workers s) n = Some w"
  shows "\<exists>w'. dget (workers (fst (close_bindings bs i path s now))) n = Some w' \<and>
     pool_work w' = pool_work w + mset (map work_of_attempt (owed_releases s i path n bs))"
  using assms
proof (induction bs arbitrary: s w)
  case (Cons b bs)
  let ?s1 = "close_binding b i path s now"
  from close_binding_work [OF Cons.prems(2)] obtain w1 where w1: "dget (workers ?s1) n = Some w1"
    and p1: "pool_work w1 = pool_work w + mset (map work_of_attempt (owed_releases s i path n [b]))" by blast
  from Cons.prems(1) have d: "distinct (map cb_id bs)" by simp
  have "owed_releases ?s1 i path n bs = owed_releases s i path n bs"
    using Cons.prems(1)
    by (intro owed_releases_cong close_binding_stored close_binding_targets) (auto simp: image_iff)
  with Cons.IH [OF d w1] p1 show ?case
    unfolding close_bindings_Cons by (auto simp: owed_releases_def)
qed (simp add: owed_releases_def)

lemma close_bindings_popped:
  assumes "b \<in> set bs" and "targets_collect_step s b"
  shows "dget (collection_release_states (fst (close_bindings bs i path s now)))
      (release_state_key i (cb_id b)) = None"
proof -
  have gone: "dget (collection_release_states (fst (close_bindings bs i path s now))) k = None"
    if "dget (collection_release_states s) k = None" for bs k s
    using that
  proof (induction bs arbitrary: s)
    case (Cons c bs)
    have "dget (collection_release_states (close_binding c i path s now)) k = None"
      using Cons.prems by (simp add: close_binding_def Let_def split: option.splits)
    from Cons.IH [OF this] show ?case unfolding close_bindings_Cons .
  qed simp
  show ?thesis
    using assms
  proof (induction bs arbitrary: s)
    case (Cons c bs)
    show ?case
    proof (cases "b \<in> set bs")
      case True
      with Cons show ?thesis unfolding close_bindings_Cons by (simp add: close_binding_targets)
    next
      case False
      with Cons.prems have "dget (collection_release_states (close_binding c i path s now))
          (release_state_key i (cb_id b)) = None"
        by (simp add: close_binding_def Let_def split: option.splits)
      then show ?thesis unfolding close_bindings_Cons by (rule gone)
    qed
  qed simp
qed

lemma close_bindings_streams: "streams (fst (close_bindings bs i path s now)) = streams s"
proof (induction bs arbitrary: s)
  case (Cons b bs)
  have "streams (close_binding b i path s now) = streams s"
    by (simp add: close_binding_def Let_def split: option.splits)
  with Cons show ?case unfolding close_bindings_Cons by simp
qed simp

lemma close_collection_stream_spec:
  assumes "dget (streams s) i = Some stream"
    and "distinct (map cb_id (bindings_for_source (config s) (cs_source_step stream)))"
    and "dget (workers s) n = Some w"
  shows "\<exists>w'. dget (workers (fst (close_collection_stream s i now))) n = Some w' \<and>
     pool_work w' = pool_work w + mset (map work_of_attempt (owed_releases s i (cs_scope_path stream) n
        (bindings_for_source (config s) (cs_source_step stream))))"
    and "streams (fst (close_collection_stream s i now)) = dpop i (streams s)"
proof -
  let ?s1 = "s\<lparr>streams := dpop i (streams s)\<rparr>"
  have o: "owed_releases ?s1 i p n bs = owed_releases s i p n bs" for p bs
    by (rule owed_releases_cong) (simp_all add: stored_release_def targets_collect_step_def)
  show "\<exists>w'. dget (workers (fst (close_collection_stream s i now))) n = Some w' \<and>
     pool_work w' = pool_work w + mset (map work_of_attempt (owed_releases s i (cs_scope_path stream) n
        (bindings_for_source (config s) (cs_source_step stream))))"
    using close_bindings_work [OF assms(2), of ?s1 n w i "cs_scope_path stream" now] assms
    by (simp add: close_collection_stream_def o)
  show "streams (fst (close_collection_stream s i now)) = dpop i (streams s)"
    using assms(1) by (simp add: close_collection_stream_def close_bindings_streams)
qed

section \<open>The life of a release state\<close>

text \<open>Members arriving one after the other, and the batches they release.\<close>

fun arrivals :: "collection_binding \<Rightarrow> event list \<Rightarrow> release_state \<Rightarrow> release_state \<times> event list list" where
  "arrivals b [] r = (r, [])"
| "arrivals b (ev # evs) r =
    (let out = member_arrives b ev r; rest = arrivals b evs (fst out)
     in (fst rest, (case snd out of None \<Rightarrow> [] | Some batch \<Rightarrow> [batch]) @ snd rest))"

text \<open>What the collect policy promises for the members seen before the stream closes.\<close>

definition policy_batch :: "collection_binding \<Rightarrow> event list \<Rightarrow> event list" where
  "policy_batch b evs = (case card_of (cb_policy b) of All \<Rightarrow> evs | Take n \<Rightarrow> take n evs)"

lemma arrivals_released: "rs_released r \<Longrightarrow> arrivals b evs r = (r, [])"
  by (induction evs) (simp_all add: member_arrives_def)

lemma arrivals_all:
  assumes "card_of (cb_policy b) = All" and "\<not> rs_released r"
  shows "arrivals b evs r = (r\<lparr>rs_buffer := rs_buffer r @ evs\<rparr>, [])"
  using assms(2)
proof (induction evs arbitrary: r)
  case (Cons ev evs)
  then show ?case using assms(1) by (simp add: member_arrives_def release_on_item_def take_threshold_def)
qed simp

lemma arrivals_take:
  assumes "card_of (cb_policy b) = Take n" and "\<not> rs_released r" and "length (rs_buffer r) < n"
  shows "if length (rs_buffer r @ evs) < n
     then arrivals b evs r = (r\<lparr>rs_buffer := rs_buffer r @ evs\<rparr>, [])
     else rs_released (fst (arrivals b evs r)) \<and> snd (arrivals b evs r) = [take n (rs_buffer r @ evs)]"
  using assms(2,3)
proof (induction evs arbitrary: r)
  case (Cons ev evs)
  let ?r1 = "r\<lparr>rs_buffer := rs_buffer r @ [ev]\<rparr>"
  show ?case
  proof (cases "length (rs_buffer ?r1) < n")
    case True
    have "release_on_item b ?r1 = (?r1, None)"
      using True assms(1) by (simp add: release_on_item_def take_threshold_def)
    with Cons.IH [of ?r1] Cons.prems True show ?thesis by (simp add: member_arrives_def)
  next
    case False
    with Cons.prems have n: "n = Suc (length (rs_buffer r))" by simp
    then have "release_on_item b ?r1 = (?r1\<lparr>rs_released := True\<rparr>, Some (rs_buffer r @ [ev]))"
      using assms(1) by (simp add: release_on_item_def take_threshold_def)
    with Cons.prems n show ?thesis by (simp add: arrivals_released member_arrives_def)
  qed
qed simp

text \<open>From the first member to the close, exactly one batch is released, and it is the policy's.\<close>

lemma release_exactly_once:
  assumes "\<And>n. card_of (cb_policy b) = Take n \<Longrightarrow> 0 < n"
  shows "snd (arrivals b evs (new_release_state b i)) @
     (case snd (release_on_close b (fst (arrivals b evs (new_release_state b i)))) of
        None \<Rightarrow> [] | Some batch \<Rightarrow> [batch]) = [policy_batch b evs]"
proof (cases "card_of (cb_policy b)")
  case All
  then show ?thesis
    by (simp add: arrivals_all new_release_state_def release_on_close_def take_threshold_def policy_batch_def)
next
  case (Take n)
  let ?r = "new_release_state b i"
  have r: "\<not> rs_released ?r" "length (rs_buffer ?r) < n" "rs_buffer ?r = []"
    using assms [OF Take] by (simp_all add: new_release_state_def)
  from arrivals_take [OF Take r(1,2), of evs] show ?thesis
    using r Take by (cases "length evs < n")
      (auto simp: release_on_close_def take_threshold_def policy_batch_def)
qed

end
