(* ===== verification/Step_Result.thy ===== *)
theory Step_Result
  imports Streams
begin

text \<open>
  Reducing the result of a step execution (\<open>runtime/control_loop/reduce.py\<close>:
  \<open>_process_step_result_tick\<close> and the functions it is made of).

  The source mutates a deep copy of the state through three aliases: \<open>state\<close>, \<open>worker_state\<close>
  (the worker of the finished step) and \<open>this_execution\<close> (one element of its \<open>in_progress\<close>). Here
  the broker state is passed along; the execution is passed beside it and written back into the
  worker's list when it changes, if it is still there.
\<close>

section \<open>Operations\<close>

definition modify_worker :: "string \<Rightarrow> (worker_state \<Rightarrow> worker_state) \<Rightarrow> broker_state \<Rightarrow> broker_state" where
  "modify_worker n f s = (case dget (workers s) n of
      None \<Rightarrow> s
    | Some w \<Rightarrow> s\<lparr>workers := dset n (f w) (workers s)\<rparr>)"

definition write_execution :: "in_progress \<Rightarrow> worker_state \<Rightarrow> worker_state" where
  "write_execution e w = w\<lparr>ws_in_progress :=
     update_first (\<lambda>x. ip_worker_id x = ip_worker_id e) (\<lambda>_. e) (ws_in_progress w)\<rparr>"

definition decide_retry_delay ::
  "retry_policy option \<Rightarrow> real \<Rightarrow> nat \<Rightarrow> exn \<Rightarrow> string option \<Rightarrow> string \<Rightarrow> real option"
where
  "decide_retry_delay policy elapsed_time failures exc run_id step_name =
    (case policy of
       None \<Rightarrow> None
     | Some p \<Rightarrow>
         (let jitter_seed = map_option (\<lambda>r. sha256_nat (r @ '':'' @ step_name @ '':'' @
                              nat_to_string failures) mod 2 ^ 32) run_id
          in policy_next p elapsed_time failures exc (if accepts_seed p then jitter_seed else None)))"

text \<open>Object identity of events is equality of the model's event values.\<close>

definition collect_buffer_diverged :: "event list \<Rightarrow> event list \<Rightarrow> bool" where
  "collect_buffer_diverged live snapshot \<longleftrightarrow>
     length live \<noteq> length snapshot \<or> list_ex (\<lambda>(a, b). a \<noteq> b) (zip live snapshot)"

definition queue_catch_error_event ::
  "in_progress \<Rightarrow> event \<Rightarrow> step_id \<Rightarrow> (string, nat) dict \<Rightarrow> command"
where
  "queue_catch_error_event this_execution ev sid recovery_counts =
     CommandQueueEvent ev (Some sid) recovery_counts (ip_scope_path this_execution)"

record step_result_acc =
  acc_commands :: "command list"
  acc_output_event_name :: "string option"
  acc_step_no_longer_in_progress :: bool
  acc_redelivery_scheduled :: bool

definition new_acc :: step_result_acc where
  "new_acc = \<lparr>acc_commands = [], acc_output_event_name = None,
     acc_step_no_longer_in_progress = True, acc_redelivery_scheduled = False\<rparr>"

definition acc_emit :: "command list \<Rightarrow> step_result_acc \<Rightarrow> step_result_acc" where
  "acc_emit cs acc = acc\<lparr>acc_commands := acc_commands acc @ cs\<rparr>"

record fan_out_scope =
  fs_trigger_stack :: "string list"
  fs_fanned_out :: bool
  fs_fan_out_stream_id :: "string option"
  fs_emit_stack :: "string list"

definition find_in_progress :: "worker_state \<Rightarrow> nat \<Rightarrow> in_progress res" where
  "find_in_progress ws worker_id =
    (case find (\<lambda>w. ip_worker_id w = worker_id) (ws_in_progress ws) of
       None \<Rightarrow> Inl (ValueError ''Worker not found in in_progress'')
     | Some e \<Rightarrow> Inr e)"

fun stale_firing :: "worker_state \<Rightarrow> in_progress \<Rightarrow> step_result \<Rightarrow> bool" where
  "stale_firing ws e (DeleteCollectedEvent event_id) =
     collect_buffer_diverged (dget_or (ws_collected_events ws) event_id [])
       (dget_or (ss_collected_events (ip_shared_state e)) event_id [])"
| "stale_firing ws e _ = False"

definition refresh_snapshot :: "worker_state \<Rightarrow> in_progress \<Rightarrow> in_progress" where
  "refresh_snapshot ws e = e\<lparr>ip_shared_state :=
     (ip_shared_state e)\<lparr>ss_collected_events := ws_collected_events ws\<rparr>\<rparr>"

definition rerun_for_stale_collect_buffer ::
  "step_result_tick \<Rightarrow> worker_state \<Rightarrow> in_progress \<Rightarrow> (in_progress \<times> command list) option"
where
  "rerun_for_stale_collect_buffer tick ws this_execution =
    (if list_ex (stale_firing ws this_execution) (sr_result tick) then
       Some (refresh_snapshot ws this_execution,
             [CommandRunWorker (sr_step_id tick) (ip_event this_execution)
                (ip_worker_id this_execution) (ip_bound_events this_execution)])
     else None)"

definition mk_fan_out_scope ::
  "broker_state \<Rightarrow> string \<Rightarrow> in_progress \<Rightarrow> bool \<Rightarrow> broker_state \<times> fan_out_scope"
where
  "mk_fan_out_scope s step_name this_execution fanned_out =
    (let trigger_stack = ip_scope_path this_execution in
     if fanned_out then
       (let minted = mint_stream_id s trigger_stack step_name
        in (fst minted, \<lparr>fs_trigger_stack = trigger_stack, fs_fanned_out = True,
              fs_fan_out_stream_id = Some (snd minted), fs_emit_stack = trigger_stack @ [snd minted]\<rparr>))
     else (s, \<lparr>fs_trigger_stack = trigger_stack, fs_fanned_out = False,
              fs_fan_out_stream_id = None, fs_emit_stack = trigger_stack\<rparr>))"

subsection \<open>Failures: retry, catch-error routing, or failing the run\<close>

definition retry_attempt ::
  "in_progress \<Rightarrow> real \<Rightarrow> exn \<Rightarrow> real \<Rightarrow> real option \<Rightarrow> event_attempt"
where
  "retry_attempt e first_attempt_at exc failed_at not_before =
    \<lparr>ea_event = ip_event e, ea_bound_events = ip_bound_events e,
     ea_attempts = Some (ip_attempts e + 1), ea_first_attempt_at = Some first_attempt_at,
     ea_last_exception = Some exc, ea_last_failed_at = Some failed_at,
     ea_recovery_counts = ip_recovery_counts e, ea_not_before = not_before,
     ea_scope_path = ip_scope_path e, ea_payload = ss_payload (ip_shared_state e),
     ea_work_item_id = ip_work_item_id e\<rparr>"

definition catch_error_route :: "broker_config \<Rightarrow> string \<Rightarrow> in_progress \<Rightarrow> (string \<times> nat) option" where
  "catch_error_route c step_name e =
    (case dget (bc_handler_for_step c) step_name of
       None \<Rightarrow> None
     | Some handler_name \<Rightarrow>
         (case dget (bc_catch_error_handlers c) handler_name of
            None \<Rightarrow> None
          | Some handler \<Rightarrow>
              (let new_count = dget_or (ip_recovery_counts e) (ceh_step_name handler) 0 + 1
               in if new_count \<le> ceh_max_recoveries handler
                  then Some (ceh_step_name handler, new_count) else None)))"

definition schedule_retry_or_route_failure ::
  "exn \<Rightarrow> real \<Rightarrow> real option option \<Rightarrow> real option \<Rightarrow> step_result_tick \<Rightarrow> broker_state \<Rightarrow>
   worker_state \<Rightarrow> in_progress \<Rightarrow> step_result_acc \<Rightarrow> string option \<Rightarrow> broker_state \<times> step_result_acc"
where
  "schedule_retry_or_route_failure exc failed_at retry_decision result_first_attempt_at
      tick s ws this_execution acc run_id =
    (let sid = sr_step_id tick;
         step_name = root_step_key sid;
         first_attempt_at = (case result_first_attempt_at of
                               Some t \<Rightarrow> t | None \<Rightarrow> ip_first_attempt_at this_execution);
         delay = (case retry_decision of
                    Some d \<Rightarrow> d
                  | None \<Rightarrow> decide_retry_delay (retry_policy (ws_config ws)) (failed_at - first_attempt_at)
                              (ip_attempts this_execution + 1) exc run_id step_name)
     in case delay of
          Some d \<Rightarrow>
            (let not_before = (if 0 < d then Some (failed_at + d) else None);
                 attempt = retry_attempt this_execution first_attempt_at exc failed_at not_before
             in (modify_worker step_name (\<lambda>w. w\<lparr>ws_queue := attempt # ws_queue w\<rparr>) s,
                 (acc_emit (case not_before of None \<Rightarrow> [] | Some t \<Rightarrow> [CommandScheduleWakeup t]) acc)
                   \<lparr>acc_redelivery_scheduled := True\<rparr>))
        | None \<Rightarrow>
            (let total_attempts = ip_attempts this_execution + 1;
                 elapsed = failed_at - first_attempt_at
             in case catch_error_route (config s) step_name this_execution of
                  Some (handler, new_count) \<Rightarrow>
                    (s, (acc_emit [queue_catch_error_event this_execution
                           (StepFailedEvent step_name (sr_event tick) exc total_attempts elapsed failed_at)
                           (StepId_root handler)
                           (dset handler new_count (ip_recovery_counts this_execution))] acc)
                         \<lparr>acc_redelivery_scheduled := True\<rparr>)
                | None \<Rightarrow>
                    (s\<lparr>is_running := False\<rparr>,
                     acc_emit [CommandPublishEvent (WorkflowFailedEvent step_name exc
                                 (Some total_attempts) (Some elapsed)),
                               CommandFailWorkflow sid exc] acc)))"

subsection \<open>Applying one result\<close>

definition clear_worker :: "worker_state \<Rightarrow> worker_state" where
  "clear_worker w = w\<lparr>ws_queue := [], ws_in_progress := [], ws_collected_events := [],
     ws_static_collect_events := [], ws_collected_waiters := []\<rparr>"

definition clear_workers :: "broker_state \<Rightarrow> broker_state" where
  "clear_workers s = s\<lparr>workers := map (\<lambda>(n, w). (n, clear_worker w)) (workers s)\<rparr>"

definition waiter_of :: "string \<Rightarrow> (string, pyval) dict \<Rightarrow> pytype \<Rightarrow> in_progress \<Rightarrow> waiter" where
  "waiter_of waiter_id requirements event_type e =
    \<lparr>w_waiter_id = waiter_id, w_event = ip_event e, w_waiting_for_event = event_type,
     w_requirements = requirements, w_has_requirements = (requirements \<noteq> []),
     w_resolved_event = None, w_bound_events = ip_bound_events e, w_timed_out = False,
     w_scope_path = ip_scope_path e, w_payload = ss_payload (ip_shared_state e),
     w_work_item_id = ip_work_item_id e\<rparr>"

fun apply_step_result ::
  "step_result \<Rightarrow> step_result_tick \<Rightarrow> fan_out_scope \<Rightarrow> bool \<Rightarrow> string option \<Rightarrow>
   broker_state \<times> in_progress \<times> step_result_acc \<Rightarrow> (broker_state \<times> in_progress \<times> step_result_acc) res"
where
  "apply_step_result (StepWorkerResult r fanned) tick scope did_complete run_id (s, e, acc) =
    (case r of
       None \<Rightarrow> Inr (s, e, acc\<lparr>acc_output_event_name := Some (str_type NoneTypeT)\<rparr>)
     | Some ev \<Rightarrow>
         (let acc1 = acc\<lparr>acc_output_event_name := Some (str_type (type_of ev))\<rparr> in
          if isinstance ev StopEventT then
            Inr (clear_collection_state (clear_workers (s\<lparr>is_running := False\<rparr>)), e,
                 acc_emit [CommandPublishEvent ev, CommandCompleteRun ev] acc1)
          else
            Inr (s, e, acc_emit
              ((if isinstance ev InputRequiredEventT then [CommandPublishEvent ev] else []) @
               [CommandQueueEvent ev None (ip_recovery_counts e) (fs_emit_stack scope)]) acc1)))"
| "apply_step_result (StepWorkerFailed exc failed_at decision first_at) tick scope did_complete run_id (s, e, acc) =
    (case dget (workers s) (root_step_key (sr_step_id tick)) of
       None \<Rightarrow> Inl (KeyError (root_step_key (sr_step_id tick)))
     | Some ws \<Rightarrow>
         (let out = schedule_retry_or_route_failure exc failed_at decision first_at tick s ws e acc run_id
          in Inr (fst out, e, snd out)))"
| "apply_step_result (AddCollectedEvent event_id ev) tick scope did_complete run_id (s, e, acc) =
    (let step_name = root_step_key (sr_step_id tick) in
     case dget (workers s) step_name of
       None \<Rightarrow> Inl (KeyError step_name)
     | Some ws \<Rightarrow>
         (let live = dget_or (ws_collected_events ws) event_id [];
              ws1 = ws\<lparr>ws_collected_events := (case dget (ws_collected_events ws) event_id of
                        None \<Rightarrow> ws_collected_events ws @ [(event_id, [])]
                      | Some _ \<Rightarrow> ws_collected_events ws)\<rparr>;
              snapshot = dget_or (ss_collected_events (ip_shared_state e)) event_id []
          in if length live > length snapshot then
               (let e1 = refresh_snapshot ws1 e
                in Inr (s\<lparr>workers := dset step_name (write_execution e1 ws1) (workers s)\<rparr>, e1,
                     (acc_emit [CommandRunWorker (sr_step_id tick) ev (ip_worker_id e) (ip_bound_events e)] acc)
                       \<lparr>acc_step_no_longer_in_progress := False\<rparr>))
             else
               Inr (s\<lparr>workers := dset step_name
                      (ws1\<lparr>ws_collected_events := dset event_id (live @ [ev]) (ws_collected_events ws1)\<rparr>)
                      (workers s)\<rparr>, e, acc)))"
| "apply_step_result (DeleteCollectedEvent event_id) tick scope did_complete run_id (s, e, acc) =
    (let step_name = root_step_key (sr_step_id tick) in
     if did_complete then
       (case dget (workers s) step_name of
          None \<Rightarrow> Inl (KeyError step_name)
        | Some ws \<Rightarrow> Inr (s\<lparr>workers := dset step_name
              (ws\<lparr>ws_collected_events := dpop event_id (ws_collected_events ws)\<rparr>) (workers s)\<rparr>, e, acc))
     else Inr (s, e, acc))"
| "apply_step_result (AddWaiter waiter_id waiter_event requirements timeout event_type)
      tick scope did_complete run_id (s, e, acc) =
    (let step_name = root_step_key (sr_step_id tick);
         new_waiter = waiter_of waiter_id requirements event_type e in
     case dget (workers s) step_name of
       None \<Rightarrow> Inl (KeyError step_name)
     | Some ws \<Rightarrow>
         (case find_index (\<lambda>x. w_waiter_id x = waiter_id) (ws_collected_waiters ws) of
            Some i \<Rightarrow>
              Inr (s\<lparr>workers := dset step_name
                     (ws\<lparr>ws_collected_waiters := (ws_collected_waiters ws)[i := new_waiter]\<rparr>) (workers s)\<rparr>,
                   e, acc)
          | None \<Rightarrow>
              Inr (s\<lparr>workers := dset step_name
                     (ws\<lparr>ws_collected_waiters := ws_collected_waiters ws @ [new_waiter]\<rparr>) (workers s)\<rparr>,
                   e,
                   acc_emit ((case waiter_event of None \<Rightarrow> [] | Some ev \<Rightarrow> [CommandPublishEvent ev]) @
                     (case timeout of None \<Rightarrow> []
                      | Some t \<Rightarrow> [CommandScheduleWaiterTimeout (sr_step_id tick) waiter_id t])) acc)))"
| "apply_step_result (DeleteWaiter waiter_id) tick scope did_complete run_id (s, e, acc) =
    (let step_name = root_step_key (sr_step_id tick) in
     if did_complete then
       (case dget (workers s) step_name of
          None \<Rightarrow> Inl (KeyError step_name)
        | Some ws \<Rightarrow> Inr (s\<lparr>workers := dset step_name
              (ws\<lparr>ws_collected_waiters :=
                 remove_first (\<lambda>w. w_waiter_id w = waiter_id) (ws_collected_waiters ws)\<rparr>) (workers s)\<rparr>,
              e, acc))
     else Inr (s, e, acc))"

fun apply_step_results ::
  "step_result list \<Rightarrow> step_result_tick \<Rightarrow> fan_out_scope \<Rightarrow> bool \<Rightarrow> string option \<Rightarrow>
   broker_state \<times> in_progress \<times> step_result_acc \<Rightarrow> (broker_state \<times> in_progress \<times> step_result_acc) res"
where
  "apply_step_results [] tick scope did_complete run_id st = Inr st"
| "apply_step_results (r # rs) tick scope did_complete run_id st =
    (case apply_step_result r tick scope did_complete run_id st of
       Inl err \<Rightarrow> Inl err
     | Inr st' \<Rightarrow> apply_step_results rs tick scope did_complete run_id st')"

subsection \<open>Stream accounting of the finished work item\<close>

fun emitted_event :: "step_result \<Rightarrow> event option" where
  "emitted_event (StepWorkerResult (Some ev) _) = (if isinstance ev StopEventT then None else Some ev)"
| "emitted_event _ = None"

definition emitted_non_stop :: "step_result list \<Rightarrow> event list" where
  "emitted_non_stop rs = List.map_filter emitted_event rs"

definition birth_count :: "broker_state \<Rightarrow> event list \<Rightarrow> nat" where
  "birth_count s evs = sum_list (map (\<lambda>ev. count_accepting_steps s (type_of ev)) evs)"

definition enclosing_stream :: "string list \<Rightarrow> string option" where
  "enclosing_stream stack = (if stack = [] then None else Some (last stack))"

definition open_child_stream ::
  "broker_state \<Rightarrow> string \<Rightarrow> string \<Rightarrow> fan_out_scope \<Rightarrow> nat \<Rightarrow> real \<Rightarrow> broker_state \<times> command list"
where
  "open_child_stream s step_name stream_id scope seed now =
    (let accepting_binding_ids = map cb_id (bindings_for_source (config s) step_name);
         s1 = s\<lparr>streams := dset stream_id
                \<lparr>cs_stream_id = stream_id, cs_source_step = step_name,
                 cs_scope_path = fs_trigger_stack scope, cs_open_work_items = int seed,
                 cs_accepting_binding_ids = accepting_binding_ids\<rparr> (streams s)\<rparr>;
         parent = adjust_open_work_items s1 (enclosing_stream (fs_trigger_stack scope))
                    (int (length accepting_binding_ids) - 1) now
     in if seed = 0 then
          (let closed = close_collection_stream (fst parent) stream_id now
           in (fst closed, snd parent @ snd closed))
        else parent)"

definition resolve_work_item_in_stream ::
  "step_result_tick \<Rightarrow> broker_state \<Rightarrow> fan_out_scope \<Rightarrow> step_result_acc \<Rightarrow> real \<Rightarrow>
   (broker_state \<times> command list) res"
where
  "resolve_work_item_in_stream tick s scope acc now =
    (let step_name = root_step_key (sr_step_id tick);
         emitted = emitted_non_stop (sr_result tick);
         enclosing = enclosing_stream (fs_trigger_stack scope)
     in case classify_work_item tick (acc_commands acc) (\<not> acc_step_no_longer_in_progress acc)
               (acc_redelivery_scheduled acc) (fs_fanned_out scope) of
          Inl err \<Rightarrow> Inl err
        | Inr FANNED_OUT \<Rightarrow>
            (case fs_fan_out_stream_id scope of
               None \<Rightarrow> Inr (s, [])
             | Some stream_id \<Rightarrow>
                 Inr (open_child_stream s step_name stream_id scope (birth_count s emitted) now))
        | Inr COMPLETED \<Rightarrow>
            Inr (adjust_open_work_items s enclosing (int (birth_count s emitted) - 1) now)
        | Inr ABSORBED \<Rightarrow> Inr (adjust_open_work_items s enclosing (- 1) now)
        | Inr STILL_LIVE \<Rightarrow> Inr (s, [])
        | Inr RUN_ENDING \<Rightarrow> Inr (s, []))"

subsection \<open>The whole handler\<close>

fun fanned_out_result :: "step_result \<Rightarrow> bool" where
  "fanned_out_result (StepWorkerResult _ fanned) = fanned"
| "fanned_out_result _ = False"

definition not_running_event :: "step_result_tick \<Rightarrow> step_result_acc \<Rightarrow> command" where
  "not_running_event tick acc = CommandPublishEvent (StepStateChanged
     (root_step_key (sr_step_id tick)) NOT_RUNNING (nat_to_string (sr_worker_id tick))
     (str_type (type_of (sr_event tick))) (acc_output_event_name acc))"

definition finish_execution :: "nat \<Rightarrow> worker_state \<Rightarrow> worker_state" where
  "finish_execution worker_id w = w\<lparr>ws_in_progress :=
     remove_first (\<lambda>x. ip_worker_id x = worker_id) (ws_in_progress w)\<rparr>"

definition drain_worker :: "step_id \<Rightarrow> broker_state \<Rightarrow> real \<Rightarrow> broker_state \<times> command list" where
  "drain_worker sid s now =
    (case dget (workers s) (root_step_key sid) of
       None \<Rightarrow> (s, [])
     | Some w \<Rightarrow>
         (let drained = drain_eligible_queue sid w now
          in (s\<lparr>workers := dset (root_step_key sid) (fst drained) (workers s)\<rparr>, snd drained)))"

definition finalize_step_result ::
  "step_result_tick \<Rightarrow> broker_state \<Rightarrow> step_result_acc \<Rightarrow> command list \<Rightarrow> real \<Rightarrow> broker_state \<times> command list"
where
  "finalize_step_result tick s acc cmds now =
    (let step_name = root_step_key (sr_step_id tick);
         is_completed = list_ex indicates_exit cmds;
         s1 = (if acc_step_no_longer_in_progress acc
               then modify_worker step_name (finish_execution (sr_worker_id tick)) s else s);
         cmds1 = (if acc_step_no_longer_in_progress acc then not_running_event tick acc # cmds else cmds)
     in if is_completed then (s1, cmds1)
        else (let drained = drain_worker (sr_step_id tick) s1 now
              in (fst drained, cmds1 @ snd drained)))"

definition process_step_result_tick ::
  "step_result_tick \<Rightarrow> broker_state \<Rightarrow> real \<Rightarrow> string option \<Rightarrow> (broker_state \<times> command list) res"
where
  "process_step_result_tick tick init now run_id =
    (let s0 = deepcopy init; step_name = root_step_key (sr_step_id tick) in
     case dget (workers s0) step_name of
       None \<Rightarrow> Inl (KeyError step_name)
     | Some ws \<Rightarrow>
         (case find_in_progress ws (sr_worker_id tick) of
            Inl err \<Rightarrow> Inl err
          | Inr this_execution \<Rightarrow>
              (case rerun_for_stale_collect_buffer tick ws this_execution of
                 Some (e, cmds) \<Rightarrow> Inr (modify_worker step_name (write_execution e) s0, cmds)
               | None \<Rightarrow>
                   (let fanned_out = list_ex fanned_out_result (sr_result tick);
                        scoped = mk_fan_out_scope s0 step_name this_execution fanned_out;
                        did_complete = list_ex is_result (sr_result tick)
                    in case apply_step_results (sr_result tick) tick (snd scoped) did_complete run_id
                              (fst scoped, this_execution, new_acc) of
                         Inl err \<Rightarrow> Inl err
                       | Inr (s2, e2, acc) \<Rightarrow>
                           (case resolve_work_item_in_stream tick s2 (snd scoped) acc now of
                              Inl err \<Rightarrow> Inl err
                            | Inr (s3, stream_cmds) \<Rightarrow>
                                Inr (finalize_step_result tick s3 acc
                                       (acc_commands acc @ stream_cmds) now))))))"

section \<open>Frame facts\<close>

lemma write_execution_frame [simp]:
  "ws_config (write_execution e w) = ws_config w"
  "ws_queue (write_execution e w) = ws_queue w"
  "map ip_worker_id (ws_in_progress (write_execution e w)) = map ip_worker_id (ws_in_progress w)"
  by (simp_all add: write_execution_def) (rule map_update_first_cond, simp)

lemma refresh_snapshot_id [simp]: "ip_worker_id (refresh_snapshot ws e) = ip_worker_id e"
  by (simp add: refresh_snapshot_def)

lemma clear_worker_frame [simp]:
  "ws_config (clear_worker w) = ws_config w" "ws_queue (clear_worker w) = []"
  "ws_in_progress (clear_worker w) = []"
  by (simp_all add: clear_worker_def)

lemma finish_execution_config [simp]: "ws_config (finish_execution wid w) = ws_config w"
  by (simp add: finish_execution_def)

lemma mk_fan_out_scope_frame [simp]:
  "workers (fst (mk_fan_out_scope s n e f)) = workers s"
  "config (fst (mk_fan_out_scope s n e f)) = config s"
  by (simp_all add: mk_fan_out_scope_def mint_stream_id_def Let_def)

lemma open_child_stream_evolve: "workers_evolve s (fst (open_child_stream s n sid scope seed now))"
proof -
  have adj: "workers_evolve s (fst (adjust_open_work_items (s\<lparr>streams := x\<rparr>) i d now))" for x i d
    by (rule workers_evolve_trans [OF workers_evolve_cong adjust_open_work_items_evolve]) simp_all
  have "workers_evolve s (fst (close_collection_stream
      (fst (adjust_open_work_items (s\<lparr>streams := x\<rparr>) i d now)) j now))" for x i d j
    by (rule workers_evolve_trans [OF adj close_collection_stream_evolve])
  with adj show ?thesis by (simp add: open_child_stream_def Let_def)
qed

lemma resolve_work_item_evolve:
  "resolve_work_item_in_stream tick s scope acc now = Inr (s', cmds) \<Longrightarrow> workers_evolve s s'"
  using open_child_stream_evolve adjust_open_work_items_evolve
  by (auto simp: resolve_work_item_in_stream_def Let_def
      split: sum.splits work_disposition.splits option.splits dest!: arg_cong [where f = fst])

lemma process_step_result_cases:
  assumes "process_step_result_tick tick s now run_id = Inr (s', cmds)"
  obtains (rerun) ws e where "dget (workers (deepcopy s)) (root_step_key (sr_step_id tick)) = Some ws"
      and "find_in_progress ws (sr_worker_id tick) = Inr e"
      and "rerun_for_stale_collect_buffer tick ws e = Some (refresh_snapshot ws e, cmds)"
      and "s' = modify_worker (root_step_key (sr_step_id tick)) (write_execution (refresh_snapshot ws e)) (deepcopy s)"
  | (applied) ws e scoped s2 e2 acc s3 stream_cmds
      where "dget (workers (deepcopy s)) (root_step_key (sr_step_id tick)) = Some ws"
      and "find_in_progress ws (sr_worker_id tick) = Inr e"
      and "rerun_for_stale_collect_buffer tick ws e = None"
      and "scoped = mk_fan_out_scope (deepcopy s) (root_step_key (sr_step_id tick)) e
             (list_ex fanned_out_result (sr_result tick))"
      and "apply_step_results (sr_result tick) tick (snd scoped) (list_ex is_result (sr_result tick)) run_id
             (fst scoped, e, new_acc) = Inr (s2, e2, acc)"
      and "resolve_work_item_in_stream tick s2 (snd scoped) acc now = Inr (s3, stream_cmds)"
      and "finalize_step_result tick s3 acc (acc_commands acc @ stream_cmds) now = (s', cmds)"
proof -
  let ?n = "root_step_key (sr_step_id tick)"
  from assms obtain ws where ws: "dget (workers (deepcopy s)) ?n = Some ws"
    by (auto simp: process_step_result_tick_def Let_def split: option.splits)
  with assms obtain e where e: "find_in_progress ws (sr_worker_id tick) = Inr e"
    by (auto simp: process_step_result_tick_def Let_def simp del: dget_deepcopy split: sum.splits)
  show ?thesis
  proof (cases "rerun_for_stale_collect_buffer tick ws e")
    case None
    with assms ws e show ?thesis
      by (auto simp: process_step_result_tick_def Let_def simp del: dget_deepcopy
          split: sum.splits prod.splits intro: that(2))
  next
    case (Some x)
    with assms ws e show ?thesis
      by (auto simp: process_step_result_tick_def rerun_for_stale_collect_buffer_def Let_def
          simp del: dget_deepcopy split: if_splits intro: that(1))
  qed
qed

lemma drain_worker_dget:
  "dget (workers s) (root_step_key sid) = Some w \<Longrightarrow>
   dget (workers (fst (drain_worker sid s now))) (root_step_key sid) = Some (fst (drain_eligible_queue sid w now))"
  by (simp add: drain_worker_def Let_def)

lemma finalize_drained:
  assumes "finalize_step_result tick s acc cmds now = (s', cmds')" and "\<not> list_ex indicates_exit cmds'"
  obtains t where "s' = fst (drain_worker (sr_step_id tick) t now)"
  using assms by (auto simp: finalize_step_result_def Let_def split: if_splits)

end
