(* ===== verification/Retry_Policy.thy ===== *)
theory Retry_Policy
  imports Step_Result
begin

text \<open>
  Composable retry policies (\<open>workflows/retry_policy.py\<close>): retry conditions, wait strategies and
  stop conditions as data, one evaluation function each for their \<open>__call__\<close>, the policy built
  from the three, and the snapshot \<open>retry_info\<close> gives a step (\<open>context/internal_context.py\<close>).

  Times are real numbers; a wait that is unbounded (\<open>float("inf")\<close>) has no maximum. A compiled
  regular expression is the predicate its \<open>search\<close> computes. Random numbers come from a source
  that gives the first draw of \<open>random.Random(seed)\<close> for a seed and the successive draws of the
  global generator, whose position is passed along.
\<close>

section \<open>Retry conditions\<close>

datatype retry_condition =
    retry_if_exception "exn \<Rightarrow> bool"
  | retry_if_exception_type "pytype list"
  | retry_if_not_exception_type "pytype list"
  | retry_if_exception_message "string option" "(string \<Rightarrow> bool) option"
  | retry_if_not_exception_message "string option" "(string \<Rightarrow> bool) option"
  | retry_if_exception_cause_type "pytype list"
  | retry_any "retry_condition list"
  | retry_all "retry_condition list"
  | retry_always
  | retry_never

definition exn_isinstance :: "exn \<Rightarrow> pytype list \<Rightarrow> bool" where
  "exn_isinstance e types = is_subclass_any (exn_cls e) types"

text \<open>\<open>retry_if_exception_message.__init__\<close>: exactly one of the two arguments.\<close>

definition mk_retry_if_exception_message ::
  "string option \<Rightarrow> (string \<Rightarrow> bool) option \<Rightarrow> retry_condition res"
where
  "mk_retry_if_exception_message message match =
    (if message = None \<and> match = None then
       Inl (TypeError ''retry_if_exception_message() missing 1 required argument'')
     else if message \<noteq> None \<and> match \<noteq> None then
       Inl (TypeError ''retry_if_exception_message() takes either message or match, not both'')
     else Inr (retry_if_exception_message message match))"

definition message_matches :: "string option \<Rightarrow> (string \<Rightarrow> bool) option \<Rightarrow> exn \<Rightarrow> bool" where
  "message_matches message pattern e = (case message of
      Some m \<Rightarrow> exn_msg e = m
    | None \<Rightarrow> (case pattern of None \<Rightarrow> False | Some search \<Rightarrow> search (exn_msg e)))"

text \<open>The walk along \<open>__cause__\<close>: the exception itself is not tested.\<close>

fun cause_chain :: "exn \<Rightarrow> exn list" where
  "cause_chain (Exn c m None) = []"
| "cause_chain (Exn c m (Some cause)) = cause # cause_chain cause"

fun retry_call :: "retry_condition \<Rightarrow> exn \<Rightarrow> bool" where
  "retry_call (retry_if_exception p) e = p e"
| "retry_call (retry_if_exception_type ts) e = exn_isinstance e ts"
| "retry_call (retry_if_not_exception_type ts) e = (\<not> exn_isinstance e ts)"
| "retry_call (retry_if_exception_message m p) e = message_matches m p e"
| "retry_call (retry_if_not_exception_message m p) e = (\<not> message_matches m p e)"
| "retry_call (retry_if_exception_cause_type ts) e =
     list_ex (\<lambda>c. exn_isinstance c ts) (cause_chain e)"
| "retry_call (retry_any rs) e = list_ex (\<lambda>r. retry_call r e) rs"
| "retry_call (retry_all rs) e = list_all (\<lambda>r. retry_call r e) rs"
| "retry_call retry_always e = True"
| "retry_call retry_never e = False"

text \<open>The operators \<open>&\<close> and \<open>|\<close>.\<close>

definition retry_and :: "retry_condition \<Rightarrow> retry_condition \<Rightarrow> retry_condition" where
  "retry_and a b = retry_all [a, b]"

definition retry_or :: "retry_condition \<Rightarrow> retry_condition \<Rightarrow> retry_condition" where
  "retry_or a b = retry_any [a, b]"

section \<open>Wait strategies\<close>

record rng =
  rng_seeded :: "nat \<Rightarrow> real"
  rng_global :: "nat \<Rightarrow> real"

definition rng_draw :: "rng \<Rightarrow> nat option \<Rightarrow> nat \<Rightarrow> real \<times> nat" where
  "rng_draw g seed k = (case seed of Some s \<Rightarrow> (rng_seeded g s, k) | None \<Rightarrow> (rng_global g k, k + 1))"

text \<open>\<open>Random.uniform(a, b)\<close>.\<close>

definition uniform :: "real \<Rightarrow> real \<Rightarrow> real \<Rightarrow> real" where
  "uniform a b r = a + (b - a) * r"

datatype wait_strategy =
    wait_fixed real
  | wait_exponential (multiplier: real) (exp_base: real) (wait_max: real) (wait_min: real)
  | wait_incrementing real real "real option"
  | wait_random real real
  | wait_exponential_jitter real real real real
  | wait_random_exponential real real real real
  | wait_chain "wait_strategy list"
  | wait_combine "wait_strategy list"

definition wait_none :: wait_strategy where
  "wait_none = wait_fixed 0"

definition wait_full_jitter :: "real \<Rightarrow> real \<Rightarrow> real \<Rightarrow> real \<Rightarrow> wait_strategy" where
  "wait_full_jitter m b mx mn = wait_random_exponential m b mx mn"

definition mk_wait_chain :: "wait_strategy list \<Rightarrow> wait_strategy res" where
  "mk_wait_chain ws = (if ws = [] then Inl (ValueError ''wait_chain requires at least one strategy'')
     else Inr (wait_chain ws))"

definition exponential_bound :: "real \<Rightarrow> real \<Rightarrow> real \<Rightarrow> real \<Rightarrow> nat \<Rightarrow> real" where
  "exponential_bound m b mx mn attempts = max (max 0 mn) (min (m * b ^ attempts) mx)"

lemma chain_pick_mem: "ws \<noteq> [] \<Longrightarrow> ws ! min n (length ws - 1) \<in> set ws"
  by (rule nth_mem) (cases ws, auto)

function wait_call :: "rng \<Rightarrow> wait_strategy \<Rightarrow> nat \<Rightarrow> nat option \<Rightarrow> nat \<Rightarrow> real \<times> nat"
and wait_sum :: "rng \<Rightarrow> wait_strategy list \<Rightarrow> nat \<Rightarrow> nat option \<Rightarrow> nat \<Rightarrow> real \<times> nat"
where
  "wait_call g (wait_fixed w) n seed k = (w, k)"
| "wait_call g (wait_exponential m b mx mn) n seed k = (exponential_bound m b mx mn n, k)"
| "wait_call g (wait_incrementing start incr mx) n seed k =
    (let result = start + incr * real n
     in (max 0 (case mx of None \<Rightarrow> result | Some m \<Rightarrow> min result m), k))"
| "wait_call g (wait_random mn mx) n seed k =
    (let d = rng_draw g seed k in (uniform mn mx (fst d), snd d))"
| "wait_call g (wait_exponential_jitter initial b mx jitter) n seed k =
    (let base = min (initial * b ^ n) mx; d = rng_draw g seed k
     in (min (base + uniform 0 jitter (fst d)) mx, snd d))"
| "wait_call g (wait_random_exponential m b mx mn) n seed k =
    (let d = rng_draw g seed k in (uniform mn (exponential_bound m b mx mn n) (fst d), snd d))"
| "wait_call g (wait_chain ws) n seed k =
    (if ws = [] then (0, k) else wait_call g (ws ! min n (length ws - 1)) n seed k)"
| "wait_call g (wait_combine ws) n seed k = wait_sum g ws n seed k"
| "wait_sum g [] n seed k = (0, k)"
| "wait_sum g (w # ws) n seed k =
    (let first = wait_call g w n seed k; rest = wait_sum g ws n seed (snd first)
     in (fst first + fst rest, snd rest))"
  by pat_completeness auto
termination
proof (relation "measure (case_sum (\<lambda>(g, w, n, seed, k). size w) (\<lambda>(g, ws, n, seed, k). size_list size ws))",
       goal_cases)
  case (2 g ws n seed k)
  then have "ws ! min n (length ws - 1) \<in> set ws" by (rule chain_pick_mem)
  then have "size (ws ! min n (length ws - 1)) \<le> size_list size ws"
    by (rule size_list_estimation') simp
  then show ?case by simp
qed simp_all

text \<open>\<open>sum()\<close> over strategies: \<open>0 + w\<close> is \<open>w\<close>, otherwise \<open>+\<close> combines.\<close>

definition wait_add :: "wait_strategy \<Rightarrow> wait_strategy \<Rightarrow> wait_strategy" where
  "wait_add a b = wait_combine [a, b]"

section \<open>Stop conditions\<close>

datatype stop_condition =
    stop_after_attempt int
  | stop_after_delay real
  | stop_before_delay real
  | stop_any "stop_condition list"
  | stop_all "stop_condition list"
  | stop_never

fun stop_call :: "stop_condition \<Rightarrow> nat \<Rightarrow> real \<Rightarrow> real \<Rightarrow> bool" where
  "stop_call (stop_after_attempt m) attempts elapsed upcoming = (int attempts \<ge> m)"
| "stop_call (stop_after_delay d) attempts elapsed upcoming = (elapsed \<ge> d)"
| "stop_call (stop_before_delay d) attempts elapsed upcoming = (elapsed + upcoming \<ge> d)"
| "stop_call (stop_any ss) attempts elapsed upcoming = list_ex (\<lambda>s. stop_call s attempts elapsed upcoming) ss"
| "stop_call (stop_all ss) attempts elapsed upcoming = list_all (\<lambda>s. stop_call s attempts elapsed upcoming) ss"
| "stop_call stop_never attempts elapsed upcoming = False"

definition stop_and :: "stop_condition \<Rightarrow> stop_condition \<Rightarrow> stop_condition" where
  "stop_and a b = stop_all [a, b]"

definition stop_or :: "stop_condition \<Rightarrow> stop_condition \<Rightarrow> stop_condition" where
  "stop_or a b = stop_any [a, b]"

section \<open>The composable policy\<close>

record composable_policy =
  cp_retry :: "retry_condition option"
  cp_wait :: wait_strategy
  cp_stop :: stop_condition

definition composable_next ::
  "rng \<Rightarrow> composable_policy \<Rightarrow> real \<Rightarrow> nat \<Rightarrow> exn \<Rightarrow> nat option \<Rightarrow> nat \<Rightarrow> real option \<times> nat"
where
  "composable_next g p elapsed attempts err seed k =
    (if (case cp_retry p of None \<Rightarrow> False | Some r \<Rightarrow> \<not> retry_call r err) then (None, k)
     else (let delay = wait_call g (cp_wait p) attempts seed k
           in (if stop_call (cp_stop p) attempts elapsed (fst delay) then None else Some (fst delay),
               snd delay)))"

text \<open>The policy as the reducer sees it, with the global generator at position \<open>k\<close>.\<close>

definition as_retry_policy :: "rng \<Rightarrow> nat \<Rightarrow> composable_policy \<Rightarrow> retry_policy" where
  "as_retry_policy g k p =
     RetryPolicy True (\<lambda>elapsed attempts err seed. fst (composable_next g p elapsed attempts err seed k))"

definition default_policy :: composable_policy where
  "default_policy = \<lparr>cp_retry = None, cp_wait = wait_fixed 5, cp_stop = stop_after_attempt 3\<rparr>"

definition ConstantDelayRetryPolicy :: "int \<Rightarrow> real \<Rightarrow> composable_policy" where
  "ConstantDelayRetryPolicy maximum_attempts delay =
    \<lparr>cp_retry = None, cp_wait = wait_fixed delay, cp_stop = stop_after_attempt maximum_attempts\<rparr>"

definition ExponentialBackoffRetryPolicy :: "int \<Rightarrow> real \<Rightarrow> real \<Rightarrow> real \<Rightarrow> bool \<Rightarrow> composable_policy" where
  "ExponentialBackoffRetryPolicy maximum_attempts initial_delay factor max_delay jitter =
    \<lparr>cp_retry = None,
     cp_wait = (if jitter then wait_random_exponential initial_delay factor max_delay 0
                else wait_exponential initial_delay factor max_delay 0),
     cp_stop = stop_after_attempt maximum_attempts\<rparr>"

section \<open>Retry information for a step\<close>

record retry_attempt_info =
  ra_retry_number :: nat
  ra_first_attempt_at :: real
  ra_last_exception :: "exn option"
  ra_last_failed_at :: "real option"
  ra_recovery_counts :: "(string, nat) dict"

record retry_info =
  ri_retry_number :: nat
  ri_elapsed_seconds :: real
  ri_last_exception :: "exn option"
  ri_last_failed_at :: "real option"

definition retry_info_of :: "retry_attempt_info \<Rightarrow> real \<Rightarrow> retry_info" where
  "retry_info_of r now =
    \<lparr>ri_retry_number = ra_retry_number r,
     ri_elapsed_seconds =
       (if ra_retry_number r \<le> 0 \<or> ra_first_attempt_at r = 0 then 0
        else max 0 (now - ra_first_attempt_at r)),
     ri_last_exception = ra_last_exception r, ri_last_failed_at = ra_last_failed_at r\<rparr>"

section \<open>Bounds of a wait\<close>

definition rng_ok :: "rng \<Rightarrow> bool" where
  "rng_ok g \<longleftrightarrow> (\<forall>s. 0 \<le> rng_seeded g s \<and> rng_seeded g s \<le> 1) \<and> (\<forall>k. 0 \<le> rng_global g k \<and> rng_global g k \<le> 1)"

text \<open>Parameters that make sense: no negative time, a minimum below its maximum.\<close>

fun wait_ok :: "wait_strategy \<Rightarrow> bool" where
  "wait_ok (wait_fixed w) = (0 \<le> w)"
| "wait_ok (wait_exponential m b mx mn) = (0 \<le> mn \<and> mn \<le> mx)"
| "wait_ok (wait_incrementing start incr mx) = (case mx of None \<Rightarrow> True | Some m \<Rightarrow> 0 \<le> m)"
| "wait_ok (wait_random mn mx) = (0 \<le> mn \<and> mn \<le> mx)"
| "wait_ok (wait_exponential_jitter initial b mx jitter) = (0 \<le> initial \<and> 0 \<le> b \<and> 0 \<le> mx \<and> 0 \<le> jitter)"
| "wait_ok (wait_random_exponential m b mx mn) = (0 \<le> mn \<and> mn \<le> mx)"
| "wait_ok (wait_chain ws) = (ws \<noteq> [] \<and> list_all wait_ok ws)"
| "wait_ok (wait_combine ws) = list_all wait_ok ws"

text \<open>The longest wait, when there is one.\<close>

fun wait_limit :: "wait_strategy \<Rightarrow> real option" where
  "wait_limit (wait_fixed w) = Some w"
| "wait_limit (wait_exponential m b mx mn) = Some mx"
| "wait_limit (wait_incrementing start incr mx) = mx"
| "wait_limit (wait_random mn mx) = Some mx"
| "wait_limit (wait_exponential_jitter initial b mx jitter) = Some mx"
| "wait_limit (wait_random_exponential m b mx mn) = Some mx"
| "wait_limit (wait_chain ws) =
     (if list_all (\<lambda>w. wait_limit w \<noteq> None) ws then Some (foldr (\<lambda>w m. max (the (wait_limit w)) m) ws 0) else None)"
| "wait_limit (wait_combine ws) =
     (if list_all (\<lambda>w. wait_limit w \<noteq> None) ws then Some (sum_list (map (\<lambda>w. the (wait_limit w)) ws)) else None)"

lemma rng_draw_bounds: "rng_ok g \<Longrightarrow> 0 \<le> fst (rng_draw g seed k) \<and> fst (rng_draw g seed k) \<le> 1"
  by (auto simp: rng_ok_def rng_draw_def split: option.splits)

lemma uniform_bounds: "a \<le> b \<Longrightarrow> 0 \<le> r \<Longrightarrow> r \<le> 1 \<Longrightarrow> a \<le> uniform a b r \<and> uniform a b r \<le> b"
proof -
  assume "a \<le> b" "0 \<le> r" "r \<le> 1"
  then have "0 \<le> (b - a) * r" and "(b - a) * r \<le> (b - a) * 1"
    by (simp_all add: mult_left_le)
  then show ?thesis by (simp add: uniform_def)
qed

lemma exponential_bound_range: "0 \<le> mn \<Longrightarrow> mn \<le> mx \<Longrightarrow>
    mn \<le> exponential_bound m b mx mn n \<and> exponential_bound m b mx mn n \<le> mx"
  by (auto simp: exponential_bound_def)

lemma foldr_max_upper: "w \<in> set ws \<Longrightarrow> (f w :: real) \<le> foldr (\<lambda>w m. max (f w) m) ws 0"
  by (induction ws) auto

lemma wait_call_range:
  assumes "rng_ok g"
  shows "wait_ok w \<Longrightarrow> 0 \<le> fst (wait_call g w n seed k) \<and>
      (\<forall>m. wait_limit w = Some m \<longrightarrow> fst (wait_call g w n seed k) \<le> m)"
    and "list_all wait_ok ws \<Longrightarrow> 0 \<le> fst (wait_sum g ws n seed k) \<and>
      (list_all (\<lambda>w. wait_limit w \<noteq> None) ws \<longrightarrow>
         fst (wait_sum g ws n seed k) \<le> sum_list (map (\<lambda>w. the (wait_limit w)) ws))"
  using assms
proof (induction g w n seed k and g ws n seed k rule: wait_call_wait_sum.induct)
  case (2 g m b mx mn n seed k)
  then show ?case using exponential_bound_range [of mn mx m b n] by simp
next
  case (4 g mn mx n seed k)
  then show ?case
    using uniform_bounds [of mn mx "fst (rng_draw g seed k)"] rng_draw_bounds [of g seed k] by (simp add: Let_def)
next
  case (5 g initial b mx jitter n seed k)
  then have "0 \<le> uniform 0 jitter (fst (rng_draw g seed k))"
    using uniform_bounds [of 0 jitter] rng_draw_bounds [of g seed k] by simp
  moreover have "0 \<le> initial * b ^ n" using 5 by simp
  ultimately show ?case using 5 by (simp add: Let_def)
next
  case (6 g m b mx mn n seed k)
  then show ?case
    using exponential_bound_range [of mn mx m b n] rng_draw_bounds [of g seed k]
      uniform_bounds [of mn "exponential_bound m b mx mn n" "fst (rng_draw g seed k)"] by (simp add: Let_def)
next
  case (7 g ws n seed k)
  let ?w = "ws ! min n (length ws - 1)"
  from "7.prems"(1) have ws: "ws \<noteq> []" "list_all wait_ok ws" by simp_all
  from chain_pick_mem [OF ws(1)] have mem: "?w \<in> set ws" .
  with ws have "wait_ok ?w" by (simp add: list_all_iff)
  from "7.IH" [OF ws(1) this "7.prems"(2)] have r: "0 \<le> fst (wait_call g ?w n seed k)"
    "\<And>m. wait_limit ?w = Some m \<Longrightarrow> fst (wait_call g ?w n seed k) \<le> m" by blast+
  have "fst (wait_call g ?w n seed k) \<le> m" if "wait_limit (wait_chain ws) = Some m" for m
  proof -
    from that have all: "list_all (\<lambda>w. wait_limit w \<noteq> None) ws"
      and m: "m = foldr (\<lambda>w m. max (the (wait_limit w)) m) ws 0" by (auto split: if_splits)
    from all mem obtain x where x: "wait_limit ?w = Some x" by (auto simp: list_all_iff)
    with foldr_max_upper [OF mem, of "\<lambda>w. the (wait_limit w)"] have "x \<le> m" by (simp add: m)
    with r(2) [OF x] show ?thesis by simp
  qed
  with r(1) ws(1) show ?case by (simp only: wait_call.simps if_False) blast
next
  case (10 g w ws n seed k)
  let ?f = "wait_call g w n seed k"
  from "10.prems" have "wait_ok w" "list_all wait_ok ws" by simp_all
  from "10.IH"(1) [OF this(1) "10.prems"(2)] "10.IH"(2) [OF refl this(2) "10.prems"(2)]
  show ?case by (auto simp: Let_def)
qed (auto simp: Let_def split: option.splits)

section \<open>Seeded waits are deterministic\<close>

lemma wait_call_seeded:
  "rng_seeded g = rng_seeded g' \<Longrightarrow> wait_call g w n (Some s) k = (fst (wait_call g' w n (Some s) k'), k)"
  "rng_seeded g = rng_seeded g' \<Longrightarrow> wait_sum g ws n (Some s) k = (fst (wait_sum g' ws n (Some s) k'), k)"
proof (induction g w n "Some s" k and g ws n "Some s" k arbitrary: k' and k' rule: wait_call_wait_sum.induct)
  case (10 g w ws n k)
  from 10(1) [OF 10(3), of k'] 10(2) [OF refl 10(3)] show ?case
    by (simp add: Let_def) (metis fst_conv snd_conv)
qed (auto simp: rng_draw_def Let_def)

lemma composable_next_seeded:
  "rng_seeded g = rng_seeded g' \<Longrightarrow>
   composable_next g p elapsed n err (Some s) k = (fst (composable_next g' p elapsed n err (Some s) k'), k)"
  using wait_call_seeded(1) [of g g' "cp_wait p" n s k k']
  by (simp add: composable_next_def Let_def split: option.splits)

section \<open>Budgets\<close>

text \<open>A stop condition that gives up at attempt \<open>m\<close>, whatever else it is made of.\<close>

fun stops_by :: "int \<Rightarrow> stop_condition \<Rightarrow> bool" where
  "stops_by m (stop_after_attempt a) = (a \<le> m)"
| "stops_by m (stop_any ss) = list_ex (stops_by m) ss"
| "stops_by m (stop_all ss) = list_all (stops_by m) ss"
| "stops_by m _ = False"

lemma stops_by_call: "stops_by m s \<Longrightarrow> m \<le> int n \<Longrightarrow> stop_call s n elapsed upcoming"
  by (induction s) (auto simp: list_ex_iff list_all_iff)

lemma decide_retry_budget:
  assumes "stops_by m (cp_stop p)" and "m \<le> int failures"
  shows "decide_retry_delay (Some (as_retry_policy g k p)) elapsed failures exc run_id step = None"
  using stops_by_call [OF assms]
  by (simp add: decide_retry_delay_def as_retry_policy_def composable_next_def Let_def)

lemma stop_before_delay_next:
  assumes "fst (composable_next g p elapsed n err seed k) = Some delay"
    and "cp_stop p = stop_before_delay limit \<or> (\<exists>ss. cp_stop p = stop_any ss \<and> stop_before_delay limit \<in> set ss)"
  shows "elapsed + delay < limit"
  using assms by (fastforce simp: composable_next_def Let_def list_ex_iff split: if_splits)

text \<open>
  The reducer counts failures from one, and a chain is indexed with that count: whatever its first
  strategy is, the delays are the same.
\<close>

lemma wait_chain_first_unused:
  assumes "ws \<noteq> []" and "0 < n"
  shows "wait_call g (wait_chain (w # ws)) n seed k = wait_call g (wait_chain (w' # ws)) n seed k"
proof -
  from assms obtain j where "min n (length (w # ws) - 1) = Suc j"
    by (cases n; cases ws) auto
  then show ?thesis by simp
qed

end
