(* ===== verification/Graph_Search.thy ===== *)
theory Graph_Search
  imports Prelude
begin

text \<open>
  Depth-first search over an adjacency dictionary (\<open>representation/validate.py\<close>, \<open>_dfs\<close>): it
  terminates on every input and returns exactly the nodes reachable from the seeds. The stack is
  kept with its top first; \<open>visited\<close> is a list without duplicates.
\<close>

definition push_targets :: "'a list \<Rightarrow> 'a list \<Rightarrow> 'a list \<Rightarrow> 'a list" where
  "push_targets targets visited stack = rev (filter (\<lambda>t. t \<notin> set visited) targets) @ stack"

definition dfs_universe :: "('a, 'a list) dict \<Rightarrow> 'a list \<Rightarrow> 'a set" where
  "dfs_universe adj stack = set stack \<union> (\<Union>(k, ts) \<in> set adj. set ts)"

lemma dget_or_universe: "set (dget_or adj node []) \<subseteq> (\<Union>(k, ts) \<in> set adj. set ts)"
proof (cases "dget adj node")
  case (Some ts)
  then have "(node, ts) \<in> set adj" by (rule map_of_SomeD)
  then show ?thesis using Some by (auto simp: dget_or_def)
qed (simp add: dget_or_def)

lemma finite_dfs_universe [simp]: "finite (dfs_universe adj stack)"
  by (auto simp: dfs_universe_def)

function dfs_loop :: "('a, 'a list) dict \<Rightarrow> 'a list \<Rightarrow> 'a list \<Rightarrow> 'a list" where
  "dfs_loop adj [] visited = visited"
| "dfs_loop adj (node # stack) visited =
    (if node \<in> set visited then dfs_loop adj stack visited
     else dfs_loop adj (push_targets (dget_or adj node []) (visited @ [node]) stack) (visited @ [node]))"
  by pat_completeness auto
termination
proof (relation "measures [\<lambda>(adj, stack, visited). card (dfs_universe adj stack - set visited),
                           \<lambda>(adj, stack, visited). length stack]", goal_cases)
  case 1
  show ?case by simp
next
  case (2 adj node stack visited)
  have "dfs_universe adj stack - set visited \<subseteq> dfs_universe adj (node # stack) - set visited"
    by (auto simp: dfs_universe_def)
  then have "card (dfs_universe adj stack - set visited) \<le> card (dfs_universe adj (node # stack) - set visited)"
    by (intro card_mono) auto
  then show ?case by auto
next
  case (3 adj node stack visited)
  let ?stack = "push_targets (dget_or adj node []) (visited @ [node]) stack"
  have "dfs_universe adj ?stack - set (visited @ [node]) \<subseteq> dfs_universe adj (node # stack) - set visited - {node}"
    using dget_or_universe [of adj node] by (auto simp: dfs_universe_def push_targets_def)
  moreover have "node \<in> dfs_universe adj (node # stack) - set visited" using 3 by (simp add: dfs_universe_def)
  ultimately have "dfs_universe adj ?stack - set (visited @ [node]) \<subset> dfs_universe adj (node # stack) - set visited"
    by blast
  then have "card (dfs_universe adj ?stack - set (visited @ [node])) < card (dfs_universe adj (node # stack) - set visited)"
    by (intro psubset_card_mono) auto
  then show ?case by simp
qed

definition dfs :: "'a list \<Rightarrow> ('a, 'a list) dict \<Rightarrow> 'a list" where
  "dfs seeds adj = dfs_loop adj (rev seeds) []"

section \<open>Reachability\<close>

definition edges :: "('a, 'a list) dict \<Rightarrow> ('a \<times> 'a) set" where
  "edges adj = {(u, v). v \<in> set (dget_or adj u [])}"

lemma dfs_loop_distinct: "distinct visited \<Longrightarrow> distinct (dfs_loop adj stack visited)"
  by (induction adj stack visited rule: dfs_loop.induct) auto

lemma dfs_loop_sound:
  "set (dfs_loop adj stack visited) \<subseteq> set visited \<union> (edges adj)\<^sup>* `` set stack"
proof (induction adj stack visited rule: dfs_loop.induct)
  case (2 adj node stack visited)
  show ?case
  proof (cases "node \<in> set visited")
    case True
    with 2 show ?thesis by auto
  next
    case False
    let ?stack = "push_targets (dget_or adj node []) (visited @ [node]) stack"
    have "set ?stack \<subseteq> set stack \<union> edges adj `` {node}"
      by (auto simp: push_targets_def edges_def)
    then have "(edges adj)\<^sup>* `` set ?stack \<subseteq> (edges adj)\<^sup>* `` (set stack \<union> edges adj `` {node})"
      by (rule Image_mono [OF order_refl])
    also have "\<dots> \<subseteq> (edges adj)\<^sup>* `` set (node # stack)"
      by (auto intro: converse_rtrancl_into_rtrancl)
    finally have "(edges adj)\<^sup>* `` set ?stack \<subseteq> (edges adj)\<^sup>* `` set (node # stack)" .
    with 2(2) [OF False] False show ?thesis by auto
  qed
qed simp

text \<open>Every edge out of a visited node leads to a visited or stacked one.\<close>

definition dfs_closed :: "('a, 'a list) dict \<Rightarrow> 'a list \<Rightarrow> 'a list \<Rightarrow> bool" where
  "dfs_closed adj stack visited \<longleftrightarrow> (\<forall>u \<in> set visited. \<forall>v. (u, v) \<in> edges adj \<longrightarrow> v \<in> set visited \<union> set stack)"

lemma dfs_loop_complete:
  "dfs_closed adj stack visited \<Longrightarrow>
   set visited \<union> set stack \<subseteq> set (dfs_loop adj stack visited) \<and> dfs_closed adj [] (dfs_loop adj stack visited)"
proof (induction adj stack visited rule: dfs_loop.induct)
  case (2 adj node stack visited)
  show ?case
  proof (cases "node \<in> set visited")
    case True
    with 2 have "dfs_closed adj stack visited" by (auto simp: dfs_closed_def)
    with 2(1) [OF True] True show ?thesis by auto
  next
    case False
    have "dfs_closed adj (push_targets (dget_or adj node []) (visited @ [node]) stack) (visited @ [node])"
      using 2(3) by (auto simp: dfs_closed_def push_targets_def edges_def)
    from 2(2) [OF False this] False show ?thesis by (auto simp: push_targets_def)
  qed
qed simp

lemma dfs_reachable: "set (dfs seeds adj) = (edges adj)\<^sup>* `` set seeds"
proof
  show "set (dfs seeds adj) \<subseteq> (edges adj)\<^sup>* `` set seeds"
    using dfs_loop_sound [of adj "rev seeds" "[]"] by (simp add: dfs_def)
  have c: "set seeds \<subseteq> set (dfs seeds adj)" "dfs_closed adj [] (dfs seeds adj)"
    using dfs_loop_complete [of adj "rev seeds" "[]"] by (simp_all add: dfs_def dfs_closed_def)
  have "v \<in> set (dfs seeds adj)" if "(u, v) \<in> (edges adj)\<^sup>*" "u \<in> set seeds" for u v
    using that by (induction rule: rtrancl_induct) (use c in \<open>auto simp: dfs_closed_def\<close>)
  then show "(edges adj)\<^sup>* `` set seeds \<subseteq> set (dfs seeds adj)" by auto
qed

lemma dfs_distinct: "distinct (dfs seeds adj)"
  by (simp add: dfs_def dfs_loop_distinct)

end
