(* ===== verification/Stream_Levels.thy ===== *)
theory Stream_Levels
  imports Graph_Search Broker_State
begin

text \<open>
  Static stream levels (\<open>workflows/_stream_levels.py\<close>) and the collection bindings computed from
  them (\<open>runtime/types/internal_state.py\<close>, \<open>_compute_collection_bindings\<close>).

  The source's two mutually recursive closures over \<open>steps\<close> are two mutually recursive functions;
  the inner work-list loop of \<open>walk\<close> is the depth-first search over the successor types of the
  types that occur in the workflow. A Python set of types is a list read as a set.
\<close>

section \<open>Operations\<close>

definition event_types :: "pytype list \<Rightarrow> pytype list" where
  "event_types ts = filter (\<lambda>t. is_subclass t EventT) ts"

text \<open>Every type a level walk can meet: the seeds and what some step returns.\<close>

definition level_universe :: "(string, step_config) dict \<Rightarrow> pytype list \<Rightarrow> pytype list" where
  "level_universe steps seeds =
     remdups (event_types seeds @ concat (map (\<lambda>(n, cfg). event_types (return_types cfg)) steps))"

definition open_names :: "(string, step_config) dict \<Rightarrow> string list \<Rightarrow> nat" where
  "open_names steps guard = card (set (dkeys steps) - set guard)"

lemma open_names_insert:
  "n \<in> set (dkeys steps) \<Longrightarrow> n \<notin> set guard \<Longrightarrow> Suc (open_names steps (List.insert n guard)) = open_names steps guard"
proof -
  assume n: "n \<in> set (dkeys steps)" "n \<notin> set guard"
  have "set (dkeys steps) - set (List.insert n guard) = (set (dkeys steps) - set guard) - {n}" by auto
  moreover have "n \<in> set (dkeys steps) - set guard" using n by blast
  ultimately show ?thesis
    unfolding open_names_def using card_Suc_Diff1 [of "set (dkeys steps) - set guard" n] by simp
qed

lemma open_names_insert_le: "open_names steps (List.insert n guard) \<le> open_names steps guard"
  unfolding open_names_def by (rule card_mono) auto

function collapsed_outputs :: "(string, step_config) dict \<Rightarrow> string \<Rightarrow> string list \<Rightarrow> pytype list"
and walk :: "(string, step_config) dict \<Rightarrow> pytype list \<Rightarrow> string list \<Rightarrow> pytype list"
where
  "collapsed_outputs steps producer guard =
    (case dget steps producer of
       None \<Rightarrow> []
     | Some producer_cfg \<Rightarrow>
         (let child = walk steps (return_types producer_cfg) (List.insert producer guard)
          in concat (map (\<lambda>(collect_name, collect_cfg).
               case collection_param collect_cfg of
                 None \<Rightarrow> []
               | Some (param, collect_event_types) \<Rightarrow>
                   if \<not> list_ex (\<lambda>produced. step_accepts_type (accept_event_subclasses collect_cfg)
                               produced collect_event_types) child
                   then []
                   else if is_fan_out collect_cfg then
                     (if collect_name \<in> set guard then []
                      else collapsed_outputs steps collect_name (List.insert collect_name guard))
                   else event_types (return_types collect_cfg)) steps)))"
| "walk steps seeds guard =
     dfs (event_types seeds)
       (map (\<lambda>event_type. (event_type, concat (map (\<lambda>(name, cfg).
            if \<not> step_accepts_type (accept_event_subclasses cfg) event_type (accepted_events cfg) then []
            else if collection_param cfg \<noteq> None then []
            else if is_fan_out cfg then
              (if name \<in> set guard then [] else collapsed_outputs steps name guard)
            else event_types (return_types cfg)) steps)))
         (level_universe steps seeds))"
  by pat_completeness auto
termination
proof (relation "measure (case_sum
      (\<lambda>(steps, p, guard). 3 * open_names steps guard + (if p \<in> set guard then 2 else 0))
      (\<lambda>(steps, seeds, guard). 3 * open_names steps guard + 1))", goal_cases)
  case 1
  show ?case by simp
next
  case (2 steps producer guard cfg)
  then have "producer \<in> set (dkeys steps)" by (rule dget_mem_keys)
  then show ?case
    using open_names_insert [of producer steps guard] open_names_insert_le [of steps producer guard]
    by (cases "producer \<in> set guard") auto
next
  case (3 steps producer guard cfg child z name collect_cfg)
  then have "name \<in> set (dkeys steps)" by force
  with 3 show ?case using open_names_insert [of name steps guard] by (auto split: if_splits)
next
  case (4 steps seeds guard t z name cfg)
  then show ?case by simp
qed

declare collapsed_outputs.simps [simp del] walk.simps [simp del]

definition same_level_types :: "(string, step_config) dict \<Rightarrow> pytype list \<Rightarrow> string list \<Rightarrow> pytype list" where
  "same_level_types steps seed_types guard = walk steps seed_types guard"

definition stream_level_types_by_producer ::
  "(string, step_config) dict \<Rightarrow> (string, pytype list) dict"
where
  "stream_level_types_by_producer steps =
     map (\<lambda>(name, cfg). (name, same_level_types steps (return_types cfg) [name]))
       (filter (\<lambda>(name, cfg). is_fan_out cfg) steps)"

definition card_repr :: "cardinality \<Rightarrow> string" where
  "card_repr c = (case c of Take n \<Rightarrow> ''Take('' @ nat_to_string n @ '')'' | All \<Rightarrow> ''All'')"

definition binding_id :: "string \<Rightarrow> string \<Rightarrow> pytype list \<Rightarrow> collect \<Rightarrow> string" where
  "binding_id source_step target_step item_types policy =
     source_step @ ''->'' @ target_step @ '':'' @
     join '','' (map (\<lambda>t. type_module t @ ''.'' @ py_qualname t) item_types) @ '':'' @
     card_repr (card_of policy) @ '':nearest''"

text \<open>The body of the double loop: the binding of one source to one collect step, if any.\<close>

definition binding_between ::
  "(string \<times> pytype list) \<Rightarrow> (string \<times> step_config) \<Rightarrow> collection_binding option"
where
  "binding_between source target =
    (case collection_param (snd target) of
       None \<Rightarrow> None
     | Some (param, collect_types) \<Rightarrow>
         (let item_types = event_types collect_types in
          if \<not> list_ex (\<lambda>produced. step_accepts_type (accept_event_subclasses (snd target)) produced item_types)
                 (snd source)
          then None
          else (case collection_policy (snd target) of
                  None \<Rightarrow> None
                | Some policy \<Rightarrow>
                    Some \<lparr>cb_id = binding_id (fst source) (fst target) item_types policy,
                          cb_source_step = fst source, cb_target_step = fst target,
                          cb_item_types = item_types, cb_policy = policy\<rparr>)))"

definition all_bindings :: "(string, step_config) dict \<Rightarrow> collection_binding list" where
  "all_bindings steps = concat (map (\<lambda>source. List.map_filter (binding_between source) steps)
     (stream_level_types_by_producer steps))"

definition compute_collection_bindings :: "(string, step_config) dict \<Rightarrow> (string, collection_binding) dict" where
  "compute_collection_bindings steps = foldl (\<lambda>d b. dset (cb_id b) b d) [] (all_bindings steps)"

section \<open>The walk is closed under same-level production\<close>

definition level_successors :: "(string, step_config) dict \<Rightarrow> string list \<Rightarrow> pytype \<Rightarrow> pytype list" where
  "level_successors steps guard event_type = concat (map (\<lambda>(name, cfg).
     if \<not> step_accepts_type (accept_event_subclasses cfg) event_type (accepted_events cfg) then []
     else if collection_param cfg \<noteq> None then []
     else if is_fan_out cfg then
       (if name \<in> set guard then [] else collapsed_outputs steps name guard)
     else event_types (return_types cfg)) steps)"

lemma walk_dfs: "walk steps seeds guard =
    dfs (event_types seeds) (map (\<lambda>t. (t, level_successors steps guard t)) (level_universe steps seeds))"
  by (simp only: walk.simps level_successors_def)

lemma collapsed_outputs_returned:
  "t \<in> set (collapsed_outputs steps producer guard) \<Longrightarrow>
   \<exists>(n, cfg) \<in> set steps. t \<in> set (event_types (return_types cfg))"
proof (induction "open_names steps guard" arbitrary: producer guard rule: less_induct)
  case less
  then obtain name cfg where mem: "(name, cfg) \<in> set steps"
    and t: "t \<in> set (event_types (return_types cfg)) \<or>
      (name \<notin> set guard \<and> t \<in> set (collapsed_outputs steps name (List.insert name guard)))"
    by (subst (asm) collapsed_outputs.simps) (auto simp: Let_def split: option.splits if_splits prod.splits)
  show ?case
  proof (cases "t \<in> set (event_types (return_types cfg))")
    case True
    with mem show ?thesis by blast
  next
    case False
    with t have "name \<notin> set guard" and t': "t \<in> set (collapsed_outputs steps name (List.insert name guard))" by auto
    moreover have "name \<in> set (dkeys steps)" using mem by force
    ultimately have "open_names steps (List.insert name guard) < open_names steps guard"
      using open_names_insert [of name steps guard] by simp
    from less.hyps [OF this t'] show ?thesis .
  qed
qed

lemma level_universe_returned:
  "(n, cfg) \<in> set steps \<Longrightarrow> t \<in> set (event_types (return_types cfg)) \<Longrightarrow> t \<in> set (level_universe steps seeds)"
  unfolding level_universe_def by force

lemma level_successors_universe:
  assumes "u \<in> set (level_successors steps guard t)"
  shows "u \<in> set (level_universe steps seeds)"
proof -
  from assms obtain n cfg where "(n, cfg) \<in> set steps"
    and "u \<in> set (collapsed_outputs steps n guard) \<or> u \<in> set (event_types (return_types cfg))"
    unfolding level_successors_def by (auto split: if_splits)
  then show ?thesis
    using collapsed_outputs_returned [of u steps n guard] level_universe_returned by blast
qed

lemma walk_closed:
  shows "set (event_types seeds) \<subseteq> set (walk steps seeds guard)"
    and "t \<in> set (walk steps seeds guard) \<Longrightarrow> set (level_successors steps guard t) \<subseteq> set (walk steps seeds guard)"
proof -
  let ?adj = "map (\<lambda>t. (t, level_successors steps guard t)) (level_universe steps seeds)"
  have r: "set (walk steps seeds guard) = (edges ?adj)\<^sup>* `` set (event_types seeds)"
    by (simp only: walk_dfs dfs_reachable)
  then show "set (event_types seeds) \<subseteq> set (walk steps seeds guard)" by auto
  have adj: "dget_or ?adj u [] = (if u \<in> set (level_universe steps seeds) then level_successors steps guard u else [])" for u
    by (simp add: dget_or_def map_of_map_restrict)
  have "u \<in> set (level_universe steps seeds)" if "u \<in> set (walk steps seeds guard)" for u
  proof -
    from that r obtain s where s: "s \<in> set (event_types seeds)" "(s, u) \<in> (edges ?adj)\<^sup>*" by auto
    from s(2) show ?thesis
    proof (induction rule: rtrancl_induct)
      case (step x y)
      then show ?case using level_successors_universe [of y steps guard x seeds] by (auto simp: edges_def adj split: if_splits)
    qed (simp add: level_universe_def s)
  qed
  then show "set (level_successors steps guard t) \<subseteq> set (walk steps seeds guard)"
    if "t \<in> set (walk steps seeds guard)"
    using that unfolding r by (auto simp: edges_def adj intro: rtrancl_into_rtrancl)
qed

section \<open>The levels as a relation\<close>

text \<open>
  The reference for the two closures: \<open>in_level seeds G t\<close> says that \<open>t\<close> is produced at the level of
  \<open>seeds\<close> (\<open>G\<close> holds the producers on the path), \<open>surfaces p G u\<close> that \<open>u\<close> comes back to the level
  that triggered the fan-out step \<open>p\<close>.
\<close>

inductive in_level :: "(string, step_config) dict \<Rightarrow> pytype list \<Rightarrow> string set \<Rightarrow> pytype \<Rightarrow> bool"
  and surfaces :: "(string, step_config) dict \<Rightarrow> string \<Rightarrow> string set \<Rightarrow> pytype \<Rightarrow> bool"
  for steps :: "(string, step_config) dict"
where
  seed: "t \<in> set (event_types seeds) \<Longrightarrow> in_level steps seeds G t"
| one_to_one: "in_level steps seeds G t \<Longrightarrow> (n, cfg) \<in> set steps \<Longrightarrow>
    step_accepts_type (accept_event_subclasses cfg) t (accepted_events cfg) \<Longrightarrow> collection_param cfg = None \<Longrightarrow>
    \<not> is_fan_out cfg \<Longrightarrow> u \<in> set (event_types (return_types cfg)) \<Longrightarrow> in_level steps seeds G u"
| fan_out: "in_level steps seeds G t \<Longrightarrow> (n, cfg) \<in> set steps \<Longrightarrow>
    step_accepts_type (accept_event_subclasses cfg) t (accepted_events cfg) \<Longrightarrow> collection_param cfg = None \<Longrightarrow>
    is_fan_out cfg \<Longrightarrow> n \<notin> G \<Longrightarrow> surfaces steps n G u \<Longrightarrow> in_level steps seeds G u"
| collected: "dget steps p = Some pc \<Longrightarrow> in_level steps (return_types pc) (insert p G) t \<Longrightarrow> (n, cfg) \<in> set steps \<Longrightarrow>
    collection_param cfg = Some (param, ts) \<Longrightarrow> step_accepts_type (accept_event_subclasses cfg) t ts \<Longrightarrow>
    \<not> is_fan_out cfg \<Longrightarrow> u \<in> set (event_types (return_types cfg)) \<Longrightarrow> surfaces steps p G u"
| recollected: "dget steps p = Some pc \<Longrightarrow> in_level steps (return_types pc) (insert p G) t \<Longrightarrow> (n, cfg) \<in> set steps \<Longrightarrow>
    collection_param cfg = Some (param, ts) \<Longrightarrow> step_accepts_type (accept_event_subclasses cfg) t ts \<Longrightarrow>
    is_fan_out cfg \<Longrightarrow> n \<notin> G \<Longrightarrow> surfaces steps n (insert n G) u \<Longrightarrow> surfaces steps p G u"

lemma mem_concat_pairs:
  "u \<in> set (concat (map (\<lambda>(n, c). F n c) xs)) \<longleftrightarrow> (\<exists>n c. (n, c) \<in> set xs \<and> u \<in> set (F n c))"
  by auto

lemma collapsed_outputs_mem:
  "u \<in> set (collapsed_outputs steps p guard) \<longleftrightarrow> (\<exists>pc t n cfg param ts. dget steps p = Some pc \<and>
     t \<in> set (walk steps (return_types pc) (List.insert p guard)) \<and> (n, cfg) \<in> set steps \<and>
     collection_param cfg = Some (param, ts) \<and> step_accepts_type (accept_event_subclasses cfg) t ts \<and>
     (if is_fan_out cfg then n \<notin> set guard \<and> u \<in> set (collapsed_outputs steps n (List.insert n guard))
      else u \<in> set (event_types (return_types cfg))))"
proof (cases "dget steps p")
  case (Some pc)
  let ?child = "walk steps (return_types pc) (List.insert p guard)"
  let ?out = "\<lambda>n cfg. case collection_param cfg of None \<Rightarrow> [] | Some (param, ts) \<Rightarrow>
      if \<not> list_ex (\<lambda>t. step_accepts_type (accept_event_subclasses cfg) t ts) ?child then []
      else if is_fan_out cfg then (if n \<in> set guard then [] else collapsed_outputs steps n (List.insert n guard))
      else event_types (return_types cfg)"
  have mem: "u \<in> set (collapsed_outputs steps p guard) \<longleftrightarrow> (\<exists>n cfg. (n, cfg) \<in> set steps \<and> u \<in> set (?out n cfg))"
    by (subst collapsed_outputs.simps) (simp only: Some option.case Let_def mem_concat_pairs)
  have out: "u \<in> set (?out n cfg) \<longleftrightarrow> (\<exists>t param ts. t \<in> set ?child \<and> collection_param cfg = Some (param, ts) \<and>
      step_accepts_type (accept_event_subclasses cfg) t ts \<and>
      (if is_fan_out cfg then n \<notin> set guard \<and> u \<in> set (collapsed_outputs steps n (List.insert n guard))
       else u \<in> set (event_types (return_types cfg))))" for n cfg
    by (cases "collection_param cfg") (auto simp: list_ex_iff)
  show ?thesis unfolding mem out Some option.inject by blast
qed (simp add: collapsed_outputs.simps)

lemma collapsed_outputs_intro:
  assumes "dget steps p = Some pc" and "t \<in> set (walk steps (return_types pc) (List.insert p guard))"
    and "(n, cfg) \<in> set steps" and "collection_param cfg = Some (param, ts)"
    and "step_accepts_type (accept_event_subclasses cfg) t ts"
    and "if is_fan_out cfg then n \<notin> set guard \<and> u \<in> set (collapsed_outputs steps n (List.insert n guard))
         else u \<in> set (event_types (return_types cfg))"
  shows "u \<in> set (collapsed_outputs steps p guard)"
  unfolding collapsed_outputs_mem [of u steps p] using assms by blast

lemma level_successors_mem:
  "u \<in> set (level_successors steps guard t) \<longleftrightarrow> (\<exists>n cfg. (n, cfg) \<in> set steps \<and>
     step_accepts_type (accept_event_subclasses cfg) t (accepted_events cfg) \<and> collection_param cfg = None \<and>
     (if is_fan_out cfg then n \<notin> set guard \<and> u \<in> set (collapsed_outputs steps n guard)
      else u \<in> set (event_types (return_types cfg))))"
  unfolding level_successors_def mem_concat_pairs by (intro ex_cong1 conj_cong refl) (simp del: not_None_eq)

lemma levels_complete:
  "in_level steps seeds G t \<Longrightarrow> set guard = G \<Longrightarrow> t \<in> set (walk steps seeds guard)"
  "surfaces steps p G u \<Longrightarrow> set guard = G \<Longrightarrow> u \<in> set (collapsed_outputs steps p guard)"
proof (induction arbitrary: guard and guard rule: in_level_surfaces.inducts)
  case (seed t seeds G)
  then show ?case using walk_closed(1) by blast
next
  case (one_to_one seeds G t n cfg u)
  then have "u \<in> set (level_successors steps guard t)" unfolding level_successors_mem by force
  with one_to_one walk_closed(2) show ?case by blast
next
  case (fan_out seeds G t n cfg u)
  then have "u \<in> set (level_successors steps guard t)" unfolding level_successors_mem by force
  with fan_out walk_closed(2) show ?case by blast
next
  case (collected p pc G t n cfg param ts u)
  then have t: "t \<in> set (walk steps (return_types pc) (List.insert p guard))" by simp
  show ?case by (rule collapsed_outputs_intro [OF \<open>dget steps p = Some pc\<close> t \<open>(n, cfg) \<in> set steps\<close>
        \<open>collection_param cfg = Some (param, ts)\<close> \<open>step_accepts_type (accept_event_subclasses cfg) t ts\<close>])
      (simp add: collected)
next
  case (recollected p pc G t n cfg param ts u)
  then have t: "t \<in> set (walk steps (return_types pc) (List.insert p guard))"
    and u: "u \<in> set (collapsed_outputs steps n (List.insert n guard))" by simp_all
  show ?case by (rule collapsed_outputs_intro [OF \<open>dget steps p = Some pc\<close> t \<open>(n, cfg) \<in> set steps\<close>
        \<open>collection_param cfg = Some (param, ts)\<close> \<open>step_accepts_type (accept_event_subclasses cfg) t ts\<close>])
      (simp add: recollected u)
qed

lemma walk_least:
  assumes "set (event_types seeds) \<subseteq> L" and "\<And>t. t \<in> L \<Longrightarrow> set (level_successors steps guard t) \<subseteq> L"
  shows "set (walk steps seeds guard) \<subseteq> L"
proof
  let ?adj = "map (\<lambda>t. (t, level_successors steps guard t)) (level_universe steps seeds)"
  fix u assume "u \<in> set (walk steps seeds guard)"
  then obtain s where s: "s \<in> set (event_types seeds)" "(s, u) \<in> (edges ?adj)\<^sup>*"
    by (auto simp: walk_dfs dfs_reachable)
  from s(2) show "u \<in> L"
  proof (induction rule: rtrancl_induct)
    case (step x y)
    then have "y \<in> set (level_successors steps guard x)"
      by (auto simp: edges_def dget_or_def map_of_map_restrict restrict_map_def split: if_splits)
    with assms(2) step show ?case by blast
  qed (use s assms(1) in blast)
qed

lemma levels_sound:
  "u \<in> set (collapsed_outputs steps p guard) \<Longrightarrow> surfaces steps p (set guard) u"
  "t \<in> set (walk steps seeds guard) \<Longrightarrow> in_level steps seeds (set guard) t"
proof (induction steps p guard and steps seeds guard arbitrary: u and t rule: collapsed_outputs_walk.induct)
  case (1 steps p guard)
  from "1.prems" [THEN collapsed_outputs_mem [THEN iffD1]] obtain pc t n cfg param ts where pc: "dget steps p = Some pc"
    and t: "t \<in> set (walk steps (return_types pc) (List.insert p guard))" and m: "(n, cfg) \<in> set steps"
    and c: "collection_param cfg = Some (param, ts)" "step_accepts_type (accept_event_subclasses cfg) t ts"
    and u: "if is_fan_out cfg then n \<notin> set guard \<and> u \<in> set (collapsed_outputs steps n (List.insert n guard))
       else u \<in> set (event_types (return_types cfg))" by blast
  from "1.IH"(1) [OF pc t] have t': "in_level steps (return_types pc) (insert p (set guard)) t" by simp
  show ?case
  proof (cases "is_fan_out cfg")
    case True
    have "list_ex (\<lambda>t. step_accepts_type (accept_event_subclasses cfg) t ts) (walk steps (return_types pc) (List.insert p guard))"
      using t c(2) by (auto simp: list_ex_iff)
    with "1.IH"(2) [OF pc refl m refl c(1) refl] True u
    have "surfaces steps n (insert n (set guard)) u" by (auto split: if_splits)
    with recollected [OF pc t' m c] True u show ?thesis by simp
  qed (use collected [OF pc t' m c] u in simp)
next
  case (2 steps seeds guard)
  let ?L = "{t \<in> set (level_universe steps seeds). in_level steps seeds (set guard) t}"
  have "set (walk steps seeds guard) \<subseteq> ?L"
  proof (rule walk_least)
    show "set (event_types seeds) \<subseteq> ?L" by (auto intro: seed simp: level_universe_def)
    fix t assume t: "t \<in> ?L"
    have "in_level steps seeds (set guard) u" if "u \<in> set (level_successors steps guard t)" for u
    proof -
      from that obtain n cfg where m: "(n, cfg) \<in> set steps"
        and a: "step_accepts_type (accept_event_subclasses cfg) t (accepted_events cfg)" "collection_param cfg = None"
        and u: "if is_fan_out cfg then n \<notin> set guard \<and> u \<in> set (collapsed_outputs steps n guard)
          else u \<in> set (event_types (return_types cfg))" unfolding level_successors_mem by blast
      show ?thesis
      proof (cases "is_fan_out cfg")
        case True
        with u a "2.IH" [OF _ m refl] t have "surfaces steps n (set guard) u" by auto
        with fan_out [OF _ m a True] t u True show ?thesis by simp
      qed (use one_to_one [OF _ m a] t u in simp)
    qed
    then show "set (level_successors steps guard t) \<subseteq> ?L" using level_successors_universe by blast
  qed
  with "2.prems" show ?case by blast
qed

end
