(* ===== verification/Validate.thy ===== *)
theory Validate
  imports Stream_Levels "HOL-Library.List_Lexorder" "HOL-Library.Char_ord"
begin

text \<open>
  Structural validation of a workflow (\<open>workflows/representation/validate.py\<close>): the step/event
  graph and its three checks, the catch-error handler table, event connectivity, the collection
  binding and join level checks, and \<open>_validate_workflow\<close>, which runs them in order.

  Python sets of types and names are lists without a meaningful order; a message that lists the
  members of an unsorted set lists them in the order of the steps. Loading resource
  configurations (\<open>_validate_resource_configs\<close>, \<open>_validate_resources\<close>) is I/O and not modelled.
\<close>

section \<open>The step graph\<close>

datatype graph_node = StepNode (node_step: string) | EventNode (node_event: pytype)

record step_graph =
  sg_outgoing :: "(graph_node, graph_node list) dict"
  sg_event_types :: "pytype list"
  sg_step_names :: "string list"
  sg_forward_reachable :: "graph_node list"
  sg_reverse_reachable :: "graph_node list"

text \<open>\<open>adjacency.setdefault(source, []).append(target)\<close>, and a sequence of them.\<close>

definition add_edge :: "'a \<times> 'a \<Rightarrow> ('a, 'a list) dict \<Rightarrow> ('a, 'a list) dict" where
  "add_edge e adj = dset (fst e) (dget_or adj (fst e) [] @ [snd e]) adj"

definition add_edges :: "('a \<times> 'a) list \<Rightarrow> ('a, 'a list) dict \<Rightarrow> ('a, 'a list) dict" where
  "add_edges es adj = foldl (\<lambda>a e. add_edge e a) adj es"

definition graph_event_types :: "(string, step_config) dict \<Rightarrow> pytype \<Rightarrow> pytype list" where
  "graph_event_types steps start_event_class = remdups
     ((if steps = [] then [] else [start_event_class]) @
      concat (map (\<lambda>(name, cfg). filter (\<lambda>rt. rt \<noteq> NoneTypeT) (return_types cfg) @ accepted_events cfg) steps))"

definition return_edges :: "(string, step_config) dict \<Rightarrow> (graph_node \<times> graph_node) list" where
  "return_edges steps = concat (map (\<lambda>(name, cfg).
     map (\<lambda>rt. (StepNode name, EventNode rt)) (filter (\<lambda>rt. rt \<noteq> NoneTypeT) (return_types cfg))) steps)"

definition consumes :: "step_config \<Rightarrow> pytype \<Rightarrow> bool" where
  "consumes cfg ev_type = step_accepts_type
     (accept_event_subclasses cfg \<and> \<not> is_subclass ev_type StopEventT) ev_type (accepted_events cfg)"

definition accept_edges :: "(string, step_config) dict \<Rightarrow> pytype list \<Rightarrow> (graph_node \<times> graph_node) list" where
  "accept_edges steps evs = concat (map (\<lambda>ev_type.
     map (\<lambda>(name, cfg). (EventNode ev_type, StepNode name))
       (filter (\<lambda>(name, cfg). consumes cfg ev_type) steps)) evs)"

definition reversed_edges :: "('a, 'a list) dict \<Rightarrow> ('a \<times> 'a) list" where
  "reversed_edges adj = concat (map (\<lambda>(source, targets). map (\<lambda>target. (target, source)) targets) adj)"

definition output_types :: "pytype list" where
  "output_types = [StopEventT, InputRequiredEventT]"

definition graph_seeds :: "pytype list \<Rightarrow> pytype \<Rightarrow> string list \<Rightarrow> graph_node list" where
  "graph_seeds evs start_event_class catch_error_steps = remdups
     (EventNode start_event_class #
      map EventNode (filter (\<lambda>t. is_subclass t HumanResponseEventT) evs) @
      map StepNode catch_error_steps)"

definition build_step_graph ::
  "(string, step_config) dict \<Rightarrow> pytype \<Rightarrow> string list \<Rightarrow> step_graph"
where
  "build_step_graph steps start_event_class catch_error_steps =
    (let evs = graph_event_types steps start_event_class;
         outgoing = add_edges (accept_edges steps evs) (add_edges (return_edges steps) []);
         incoming = add_edges (reversed_edges outgoing) [];
         output_seeds = map EventNode (filter (\<lambda>t. is_subclass_any t output_types) evs)
     in \<lparr>sg_outgoing = outgoing, sg_event_types = evs, sg_step_names = dkeys steps,
         sg_forward_reachable = dfs (graph_seeds evs start_event_class catch_error_steps) outgoing,
         sg_reverse_reachable = dfs output_seeds incoming\<rparr>)"

section \<open>Graph checks\<close>

record graph_validation_error =
  gve_check :: string
  gve_message :: string
  gve_hint :: string
  gve_step_names :: "string list"

definition steps_skipping :: "(string, step_config) dict \<Rightarrow> string \<Rightarrow> string list" where
  "steps_skipping steps check = map fst (filter (\<lambda>(name, cfg). check \<in> set (skip_graph_checks cfg)) steps)"

definition reachability_errors :: "(string, step_config) dict \<Rightarrow> step_graph \<Rightarrow> graph_validation_error list" where
  "reachability_errors steps g =
    (let unreachable = sort (filter (\<lambda>n. n \<notin> set (steps_skipping steps ''reachability'') \<and>
                          StepNode n \<notin> set (sg_forward_reachable g)) (sg_step_names g))
     in if unreachable = [] then [] else
       [\<lparr>gve_check = ''reachability'', gve_message = ''Unreachable steps: '' @ join '', '' unreachable,
         gve_hint = ''Steps must be reachable from StartEvent or HumanResponseEvent.'',
         gve_step_names = unreachable\<rparr>])"

definition dangling_events :: "step_graph \<Rightarrow> pytype list" where
  "dangling_events g = filter (\<lambda>ev_type.
     \<not> list_ex (\<lambda>t. t \<in> StepNode ` set (sg_step_names g)) (dget_or (sg_outgoing g) (EventNode ev_type) []) \<and>
     \<not> is_subclass_any ev_type output_types) (sg_event_types g)"

definition terminal_event_errors :: "step_graph \<Rightarrow> graph_validation_error list" where
  "terminal_event_errors g =
    (let dangling = dangling_events g
     in if dangling = [] then [] else
       [\<lparr>gve_check = ''terminal_event'',
         gve_message = ''Events produced but never consumed: '' @ join '', '' (sort (map type_name dangling)),
         gve_hint = ''Only StopEvent and InputRequiredEvent may be terminal.'',
         gve_step_names = []\<rparr>])"

fun is_type_node :: "graph_node \<Rightarrow> bool" where
  "is_type_node (EventNode (Cls m n q as)) = True"
| "is_type_node (EventNode (NonClass r)) = False"
| "is_type_node (StepNode n) = False"

definition dead_end_errors :: "(string, step_config) dict \<Rightarrow> step_graph \<Rightarrow> graph_validation_error list" where
  "dead_end_errors steps g =
    (let producing = filter (\<lambda>n. list_ex is_type_node (dget_or (sg_outgoing g) (StepNode n) [])) (sg_step_names g);
         dead = sort (filter (\<lambda>n. n \<notin> set (steps_skipping steps ''dead_end'') \<and>
                          StepNode n \<notin> set (sg_reverse_reachable g)) producing)
     in if dead = [] then [] else
       [\<lparr>gve_check = ''dead_end'', gve_message = ''Dead-end steps: '' @ join '', '' dead,
         gve_hint = ''Steps must have a path to StopEvent or InputRequiredEvent.'',
         gve_step_names = dead\<rparr>])"

definition validate_graph ::
  "(string, step_config) dict \<Rightarrow> pytype \<Rightarrow> string list \<Rightarrow> string list \<Rightarrow> graph_validation_error list"
where
  "validate_graph steps start_event_class skip_checks catch_error_steps =
    (let g = build_step_graph steps start_event_class catch_error_steps
     in (if ''reachability'' \<in> set skip_checks then [] else reachability_errors steps g) @
        (if ''terminal_event'' \<in> set skip_checks then [] else terminal_event_errors g) @
        (if ''dead_end'' \<in> set skip_checks then [] else dead_end_errors steps g))"

section \<open>Catch-error handlers\<close>

definition quoted :: "string \<Rightarrow> string" where
  "quoted s = [CHR 0x27] @ s @ [CHR 0x27]"

text \<open>The loop over the targets of a scoped handler: the errors so far and who claimed which step.\<close>

definition claim_target ::
  "string list \<Rightarrow> string list \<Rightarrow> catch_error_handler \<Rightarrow> string list \<times> (string, string) dict \<Rightarrow> string \<Rightarrow>
   string list \<times> (string, string) dict"
where
  "claim_target step_names handler_step_names handler acc target =
    (if target \<notin> set step_names then
       (fst acc @ [''@catch_error handler '' @ quoted (ceh_step_name handler) @ '' lists unknown step '' @
          quoted target @ '' in for_steps.''], snd acc)
     else if target = ceh_step_name handler \<or> target \<in> set handler_step_names then
       (fst acc @ [''@catch_error handler '' @ quoted (ceh_step_name handler) @
          '' cannot cover another handler step '' @ quoted target @ ''.''], snd acc)
     else (case dget (snd acc) target of
         Some owner \<Rightarrow>
           (fst acc @ [''Step '' @ quoted target @ '' is claimed by two @catch_error handlers: '' @
              quoted owner @ '' and '' @ quoted (ceh_step_name handler) @ ''.''], snd acc)
       | None \<Rightarrow> (fst acc, dset target (ceh_step_name handler) (snd acc))))"

definition claim_targets ::
  "string list \<Rightarrow> string list \<Rightarrow> string list \<times> (string, string) dict \<Rightarrow> catch_error_handler \<Rightarrow>
   string list \<times> (string, string) dict"
where
  "claim_targets step_names handler_step_names acc handler =
    (case ceh_for_steps handler of
       None \<Rightarrow> acc
     | Some targets \<Rightarrow> foldl (claim_target step_names handler_step_names handler) acc targets)"

definition wildcard_handlers :: "catch_error_handler list \<Rightarrow> catch_error_handler list" where
  "wildcard_handlers handlers = filter (\<lambda>h. ceh_for_steps h = None) handlers"

definition validate_catch_error_handlers :: "catch_error_handler list \<Rightarrow> string list \<Rightarrow> string list" where
  "validate_catch_error_handlers handlers step_names =
    (let wildcards = wildcard_handlers handlers;
         errors = (if length wildcards > 1
           then [''Only one wildcard @catch_error handler is allowed per workflow, found '' @
                 nat_to_string (length wildcards) @ '': '' @ join '', '' (sort (map ceh_step_name wildcards))]
           else [])
     in fst (foldl (claim_targets step_names (map ceh_step_name handlers)) (errors, []) handlers))"

text \<open>The first loop of \<open>_collect_catch_error_handlers\<close>.\<close>

fun gather_handlers :: "(string, step_config) dict \<Rightarrow> catch_error_handler list res" where
  "gather_handlers [] = Inr []"
| "gather_handlers ((n, cfg) # rest) =
    (if role cfg \<noteq> RoleCatchError then gather_handlers rest
     else if catch_error_max_recoveries cfg < 1 then
       Inl (WorkflowValidationError (''@catch_error handler '' @ quoted n @ '' has max_recoveries='' @
         (if catch_error_max_recoveries cfg < 0 then ''-'' else []) @
         nat_to_string (nat \<bar>catch_error_max_recoveries cfg\<bar>) @ ''; must be an integer >= 1.''))
     else (case gather_handlers rest of
         Inl e \<Rightarrow> Inl e
       | Inr hs \<Rightarrow> Inr (\<lparr>ceh_step_name = n, ceh_for_steps = catch_error_for_steps cfg,
                         ceh_max_recoveries = nat (catch_error_max_recoveries cfg)\<rparr> # hs)))"

text \<open>The routing table: the scoped claims, then the wildcard handler for every other plain step.\<close>

definition scoped_claims :: "catch_error_handler list \<Rightarrow> (string \<times> string) list" where
  "scoped_claims handlers = concat (map (\<lambda>h. case ceh_for_steps h of
      None \<Rightarrow> [] | Some targets \<Rightarrow> map (\<lambda>t. (t, ceh_step_name h)) targets) handlers)"

definition fill_wildcard ::
  "string list \<Rightarrow> string \<Rightarrow> (string, string) dict \<Rightarrow> string \<Rightarrow> (string, string) dict"
where
  "fill_wildcard handler_step_names wildcard table step_name =
    (if step_name \<in> set handler_step_names then table
     else if dget table step_name \<noteq> None then table
     else dset step_name wildcard table)"

definition routing_table :: "catch_error_handler list \<Rightarrow> string list \<Rightarrow> (string, string) dict" where
  "routing_table handlers all_step_names =
    (let scoped = foldl (\<lambda>d c. dset (fst c) (snd c) d) [] (scoped_claims handlers)
     in case wildcard_handlers handlers of
          [] \<Rightarrow> scoped
        | w # _ \<Rightarrow> foldl (fill_wildcard (map ceh_step_name handlers) (ceh_step_name w)) scoped all_step_names)"

definition collect_catch_error_handlers ::
  "(string, step_config) dict \<Rightarrow> ((string, catch_error_handler) dict \<times> (string, string) dict) res"
where
  "collect_catch_error_handlers steps =
    (case gather_handlers steps of
       Inl e \<Rightarrow> Inl e
     | Inr handlers \<Rightarrow>
         (let errors = validate_catch_error_handlers handlers (dkeys steps)
          in if errors \<noteq> [] then Inl (WorkflowValidationError (join [CHR 0x0A] errors))
             else Inr (map (\<lambda>h. (ceh_step_name h, h)) handlers, routing_table handlers (dkeys steps))))"

section \<open>Start and stop events, connectivity\<close>

definition start_events_found :: "(string, step_config) dict \<Rightarrow> pytype list" where
  "start_events_found steps = remdups (filter (\<lambda>t. is_subclass t StartEventT)
     (concat (map (\<lambda>(n, cfg). accepted_events cfg) steps)))"

definition ensure_start_event_class :: "(string, step_config) dict \<Rightarrow> string \<Rightarrow> pytype res" where
  "ensure_start_event_class steps workflow_cls_name =
    (case start_events_found steps of
       [] \<Rightarrow> Inl (WorkflowConfigurationError
              (''At least one Event of type StartEvent must be received by any step. (Workflow '' @
               quoted workflow_cls_name @ '' has no @step that accepts StartEvent.)''))
     | [t] \<Rightarrow> Inr t
     | ts \<Rightarrow> Inl (WorkflowConfigurationError
              (''Only one type of StartEvent is allowed per workflow, found '' @ nat_to_string (length ts))))"

definition stop_events_found :: "(string, step_config) dict \<Rightarrow> pytype list" where
  "stop_events_found steps = remdups (filter (\<lambda>t. is_subclass t StopEventT)
     (concat (map (\<lambda>(n, cfg). return_types cfg) steps)))"

definition ensure_stop_event_class :: "(string, step_config) dict \<Rightarrow> string \<Rightarrow> pytype res" where
  "ensure_stop_event_class steps workflow_cls_name =
    (case stop_events_found steps of
       [] \<Rightarrow> Inl (WorkflowConfigurationError
              (''At least one Event of type StopEvent must be returned by any step. (Workflow '' @
               quoted workflow_cls_name @ '' has no @step that returns StopEvent.)''))
     | [t] \<Rightarrow> Inr t
     | ts \<Rightarrow> Inl (WorkflowConfigurationError
              (''Only one type of StopEvent is allowed per workflow, found '' @ nat_to_string (length ts))))"

definition collect_events :: "(string, step_config) dict \<Rightarrow> pytype list" where
  "collect_events steps = remdups (concat (map (\<lambda>(n, cfg).
     filter (\<lambda>t. is_subclass t EventT) (return_types cfg) @
     filter (\<lambda>t. is_subclass t EventT) (accepted_events cfg)) steps))"

definition produced_events :: "(string, step_config) dict \<Rightarrow> pytype \<Rightarrow> pytype list" where
  "produced_events steps start_event_class = remdups (start_event_class #
     concat (map (\<lambda>(n, cfg). filter (\<lambda>t. t \<noteq> NoneTypeT) (return_types cfg)) steps))"

definition steps_accepting_stop :: "(string, step_config) dict \<Rightarrow> string list" where
  "steps_accepting_stop steps =
     map fst (filter (\<lambda>(n, cfg). list_ex (\<lambda>t. is_subclass t StopEventT) (accepted_events cfg)) steps)"

definition boundary_in :: "pytype list" where
  "boundary_in = [InputRequiredEventT, HumanResponseEventT, StopEventT, StepFailedEventT]"

definition boundary_out :: "pytype list" where
  "boundary_out = [InputRequiredEventT, HumanResponseEventT, StopEventT]"

definition unsatisfied_events :: "(string, step_config) dict \<Rightarrow> pytype list \<Rightarrow> pytype list" where
  "unsatisfied_events steps produced = remdups (concat (map (\<lambda>(n, cfg).
     filter (\<lambda>t. \<not> is_subclass_any t boundary_in \<and>
                 \<not> list_ex (\<lambda>p. type_matches (accept_event_subclasses cfg) p t) produced)
       (accepted_events cfg)) steps))"

definition unused_events :: "(string, step_config) dict \<Rightarrow> pytype list \<Rightarrow> pytype list" where
  "unused_events steps produced = filter (\<lambda>x. \<not> is_subclass_any x boundary_out \<and>
     \<not> list_ex (\<lambda>(n, cfg). step_accepts_type (accept_event_subclasses cfg) x (accepted_events cfg)) steps) produced"

definition validate_event_connectivity :: "(string, step_config) dict \<Rightarrow> pytype \<Rightarrow> bool res" where
  "validate_event_connectivity steps start_event_class =
    (let produced = produced_events steps start_event_class;
         stops = steps_accepting_stop steps;
         unconsumed = unsatisfied_events steps produced;
         unused = unused_events steps produced
     in if stops \<noteq> [] then Inl (WorkflowValidationError
          (''Step'' @ (if length stops = 1 then [] else ''s'') @ '' '' @
           quoted (join ([CHR 0x27] @ '', '' @ [CHR 0x27]) stops) @ '' cannot accept StopEvent. '' @
           ''StopEvent signals the end of the workflow. Use a different Event type instead.''))
        else if unconsumed \<noteq> [] then Inl (WorkflowValidationError
          (''The following events are consumed but never produced: '' @ join '', '' (map type_name unconsumed)))
        else if unused \<noteq> [] then Inl (WorkflowValidationError
          (''The following events are produced but never consumed: '' @ join '', '' (map type_name unused)))
        else Inr (list_ex (\<lambda>p. is_subclass p InputRequiredEventT) produced \<or>
                  list_ex (\<lambda>(n, cfg). list_ex (\<lambda>c. is_subclass c HumanResponseEventT) (accepted_events cfg)) steps))"

section \<open>Collection bindings and join levels\<close>

definition missing_element_types ::
  "(string, pytype list) dict \<Rightarrow> step_config \<Rightarrow> pytype list \<Rightarrow> pytype list"
where
  "missing_element_types levels cfg element_types = filter (\<lambda>t.
     \<not> list_ex (\<lambda>(producer, level_types).
         list_ex (\<lambda>produced. type_matches (accept_event_subclasses cfg) produced t) level_types) levels)
     (event_types element_types)"

definition collection_binding_errors :: "(string, step_config) dict \<Rightarrow> string list" where
  "collection_binding_errors steps = concat (map (\<lambda>(step_name, cfg).
     case collection_param cfg of
       None \<Rightarrow> []
     | Some (param_name, element_types) \<Rightarrow>
         (let missing = missing_element_types (stream_level_types_by_producer steps) cfg element_types
          in if missing = [] then []
             else [''Step '' @ quoted step_name @ '' parameter '' @ quoted param_name @ '' collects list['' @
                   join '', '' (sort (map type_name missing)) @
                   ''], but no returned-list producer creates a stream for those event types.''])) steps)"

definition validate_collection_bindings :: "(string, step_config) dict \<Rightarrow> unit res" where
  "validate_collection_bindings steps =
    (let errors = collection_binding_errors steps
     in if errors \<noteq> [] then Inl (WorkflowValidationError (join [CHR 0x0A] errors)) else Inr ())"

definition external_seeds :: "(string, step_config) dict \<Rightarrow> pytype list" where
  "external_seeds steps = filter (\<lambda>t. is_subclass t HumanResponseEventT)
     (concat (map (\<lambda>(n, cfg). accepted_events cfg) steps))"

definition join_levels :: "(string, step_config) dict \<Rightarrow> pytype \<Rightarrow> (string, pytype list) dict" where
  "join_levels steps start_event_class =
     (''the top level'', same_level_types steps (start_event_class # external_seeds steps) []) #
     map (\<lambda>(producer, level_types). (''the stream of step '' @ quoted producer, level_types))
       (stream_level_types_by_producer steps)"

definition slot_levels :: "(string, pytype list) dict \<Rightarrow> pytype \<Rightarrow> string" where
  "slot_levels levels slot_type =
    (let names = sort (map fst (filter (\<lambda>(level_name, level_types). slot_type \<in> set level_types) levels))
     in if names = [] then ''no level'' else join '', '' names)"

definition multi_slot_errors :: "(string, step_config) dict \<Rightarrow> pytype \<Rightarrow> string list" where
  "multi_slot_errors steps start_event_class =
    (let levels = join_levels steps start_event_class
     in concat (map (\<lambda>(step_name, cfg).
       case collect_params cfg of
         None \<Rightarrow> []
       | Some slots \<Rightarrow>
           if list_ex (\<lambda>(level_name, level_types). set (map snd slots) \<subseteq> set level_types) levels then []
           else [''Step '' @ quoted step_name @
                 '' joins event parameters that are never produced at a common stream level: '' @
                 join ''; '' (map (\<lambda>(param_name, slot_type). quoted param_name @ '' ('' @ type_name slot_type @
                   '') is produced at '' @ slot_levels levels slot_type) slots)]) steps))"

definition validate_multi_slot_levels :: "(string, step_config) dict \<Rightarrow> pytype \<Rightarrow> unit res" where
  "validate_multi_slot_levels steps start_event_class =
    (let errors = multi_slot_errors steps start_event_class
     in if errors \<noteq> [] then Inl (WorkflowValidationError (join [CHR 0x0A] errors)) else Inr ())"

section \<open>The whole validation\<close>

record workflow_validation_result =
  wvr_start_event_class :: pytype
  wvr_stop_event_class :: pytype
  wvr_catch_error_handlers :: "(string, catch_error_handler) dict"
  wvr_handler_for_step :: "(string, string) dict"
  wvr_uses_hitl :: bool

definition graph_error_detail :: "graph_validation_error list \<Rightarrow> string" where
  "graph_error_detail errors = join [CHR 0x0A] (map (\<lambda>e.
     ''  - ['' @ gve_check e @ ''] '' @ gve_message e @ [CHR 0x0A] @ ''    '' @ gve_hint e) errors)"

definition validate_workflow ::
  "(string, step_config) dict \<Rightarrow> string \<Rightarrow> string list \<Rightarrow> workflow_validation_result res"
where
  "validate_workflow steps workflow_cls_name skip_checks =
    (if steps = [] then Inl (WorkflowConfigurationError
        (''Workflow '' @ quoted workflow_cls_name @ '' has no configured steps.''))
     else case ensure_start_event_class steps workflow_cls_name of
       Inl e \<Rightarrow> Inl e
     | Inr start_event_class \<Rightarrow>
     (case ensure_stop_event_class steps workflow_cls_name of
       Inl e \<Rightarrow> Inl e
     | Inr stop_event_class \<Rightarrow>
     (case validate_collection_bindings steps of
       Inl e \<Rightarrow> Inl e
     | Inr _ \<Rightarrow>
     (case validate_multi_slot_levels steps start_event_class of
       Inl e \<Rightarrow> Inl e
     | Inr _ \<Rightarrow>
     (case validate_event_connectivity steps start_event_class of
       Inl e \<Rightarrow> Inl e
     | Inr uses_hitl \<Rightarrow>
     (case collect_catch_error_handlers steps of
       Inl e \<Rightarrow> Inl e
     | Inr (handlers, handler_for_step) \<Rightarrow>
         (let graph_errors = validate_graph steps start_event_class skip_checks (dkeys handlers)
          in if graph_errors \<noteq> [] then Inl (WorkflowValidationError
               (''Graph validation failed:'' @ [CHR 0x0A] @ graph_error_detail graph_errors))
             else Inr \<lparr>wvr_start_event_class = start_event_class, wvr_stop_event_class = stop_event_class,
                       wvr_catch_error_handlers = handlers, wvr_handler_for_step = handler_for_step,
                       wvr_uses_hitl = uses_hitl\<rparr>)))))))"

end
