(* ===== verification/Validation_Facts.thy ===== *)
theory Validation_Facts
  imports Validate
begin

text \<open>
  What validation guarantees: the graph checks decide the reachability conditions over the
  edges of the workflow graph, the catch-error routing table sends a step to the one handler that
  covers it, and every collection binding joins a fan-out step to a collect step.
\<close>

section \<open>Adjacency dictionaries\<close>

lemma edges_add_edge: "edges (add_edge e adj) = insert e (edges adj)"
  by (cases e) (auto simp: edges_def add_edge_def dget_or_def update_conv split: if_splits)

lemma edges_add_edges: "edges (add_edges es adj) = set es \<union> edges adj"
  by (induction es arbitrary: adj) (auto simp: add_edges_def edges_add_edge)

lemma edges_Nil [simp]: "edges [] = {}"
  by (simp add: edges_def dget_or_def)

lemma distinct_add_edges: "distinct (dkeys adj) \<Longrightarrow> distinct (dkeys (add_edges es adj))"
  by (induction es arbitrary: adj) (auto simp: add_edges_def add_edge_def distinct_update)

lemma reversed_edges_converse: "distinct (dkeys adj) \<Longrightarrow> set (reversed_edges adj) = (edges adj)\<inverse>"
  by (auto simp: reversed_edges_def edges_def dget_or_def split: option.splits)

section \<open>The edges of the workflow graph\<close>

inductive graph_edge :: "(string, step_config) dict \<Rightarrow> pytype \<Rightarrow> graph_node \<Rightarrow> graph_node \<Rightarrow> bool"
  for steps :: "(string, step_config) dict" and start :: pytype
where
  returns: "(n, cfg) \<in> set steps \<Longrightarrow> rt \<in> set (return_types cfg) \<Longrightarrow> rt \<noteq> NoneTypeT \<Longrightarrow>
    graph_edge steps start (StepNode n) (EventNode rt)"
| accepts: "ev \<in> set (graph_event_types steps start) \<Longrightarrow> (n, cfg) \<in> set steps \<Longrightarrow> consumes cfg ev \<Longrightarrow>
    graph_edge steps start (EventNode ev) (StepNode n)"

inductive_simps graph_edge_step: "graph_edge steps start (StepNode n) v"
inductive_simps graph_edge_event: "graph_edge steps start (EventNode e) v"

definition graph_outgoing :: "(string, step_config) dict \<Rightarrow> pytype \<Rightarrow> (graph_node, graph_node list) dict" where
  "graph_outgoing steps start =
     add_edges (accept_edges steps (graph_event_types steps start)) (add_edges (return_edges steps) [])"

lemma build_step_graph_outgoing [simp]: "sg_outgoing (build_step_graph steps start hs) = graph_outgoing steps start"
  by (simp add: build_step_graph_def graph_outgoing_def Let_def)

lemma edges_graph: "edges (graph_outgoing steps start) = {(u, v). graph_edge steps start u v}"
  by (auto simp: graph_outgoing_def edges_add_edges accept_edges_def return_edges_def graph_edge.simps)

lemma graph_outgoing_targets: "v \<in> set (dget_or (graph_outgoing steps start) u []) \<longleftrightarrow> graph_edge steps start u v"
  using edges_graph [of steps start] by (auto simp: edges_def set_eq_iff)

lemma forward_reachable_iff:
  "v \<in> set (sg_forward_reachable (build_step_graph steps start hs)) \<longleftrightarrow>
   (\<exists>u \<in> set (graph_seeds (graph_event_types steps start) start hs). (graph_edge steps start)\<^sup>*\<^sup>* u v)"
proof -
  have "set (sg_forward_reachable (build_step_graph steps start hs)) =
      {(u, v). graph_edge steps start u v}\<^sup>* `` set (graph_seeds (graph_event_types steps start) start hs)"
    by (simp add: build_step_graph_def Let_def dfs_reachable edges_graph flip: graph_outgoing_def)
  then show ?thesis by (auto simp: rtranclp_rtrancl_eq)
qed

lemma reverse_reachable_iff:
  "u \<in> set (sg_reverse_reachable (build_step_graph steps start hs)) \<longleftrightarrow>
   (\<exists>e \<in> set (graph_event_types steps start). is_subclass_any e output_types \<and>
      (graph_edge steps start)\<^sup>*\<^sup>* u (EventNode e))"
proof -
  have d: "distinct (dkeys (graph_outgoing steps start))"
    by (simp add: graph_outgoing_def distinct_add_edges)
  have "edges (add_edges (reversed_edges (graph_outgoing steps start)) []) = {(u, v). graph_edge steps start u v}\<inverse>"
    by (simp add: edges_add_edges reversed_edges_converse [OF d] edges_graph)
  then have "set (sg_reverse_reachable (build_step_graph steps start hs)) =
      ({(u, v). graph_edge steps start u v}\<inverse>)\<^sup>* ``
        (EventNode ` {e \<in> set (graph_event_types steps start). is_subclass_any e output_types})"
    by (simp add: build_step_graph_def Let_def dfs_reachable flip: graph_outgoing_def)
  then show ?thesis by (auto simp: rtranclp_rtrancl_eq rtrancl_converse)
qed

section \<open>The graph checks\<close>

definition steps_reachable :: "(string, step_config) dict \<Rightarrow> pytype \<Rightarrow> string list \<Rightarrow> bool" where
  "steps_reachable steps start hs \<longleftrightarrow> (\<forall>(n, cfg) \<in> set steps. ''reachability'' \<notin> set (skip_graph_checks cfg) \<longrightarrow>
     (\<exists>u \<in> set (graph_seeds (graph_event_types steps start) start hs).
        (graph_edge steps start)\<^sup>*\<^sup>* u (StepNode n)))"

definition events_consumed :: "(string, step_config) dict \<Rightarrow> pytype \<Rightarrow> bool" where
  "events_consumed steps start \<longleftrightarrow> (\<forall>e \<in> set (graph_event_types steps start).
     is_subclass_any e output_types \<or> (\<exists>(n, cfg) \<in> set steps. consumes cfg e))"

definition is_class :: "pytype \<Rightarrow> bool" where
  "is_class t = is_type_node (EventNode t)"

definition steps_terminate :: "(string, step_config) dict \<Rightarrow> pytype \<Rightarrow> bool" where
  "steps_terminate steps start \<longleftrightarrow> (\<forall>(n, cfg) \<in> set steps. ''dead_end'' \<notin> set (skip_graph_checks cfg) \<longrightarrow>
     (\<exists>rt \<in> set (return_types cfg). rt \<noteq> NoneTypeT \<and> is_class rt) \<longrightarrow>
     (\<exists>e \<in> set (graph_event_types steps start). is_subclass_any e output_types \<and>
        (graph_edge steps start)\<^sup>*\<^sup>* (StepNode n) (EventNode e)))"

lemma sg_fields [simp]:
  "sg_step_names (build_step_graph steps start hs) = dkeys steps"
  "sg_event_types (build_step_graph steps start hs) = graph_event_types steps start"
  by (simp_all add: build_step_graph_def Let_def)

lemma sort_empty_iff [simp]: "sort xs = [] \<longleftrightarrow> xs = []" for xs :: "'a::linorder list"
  by (metis set_empty set_sort)

lemma report_empty_iff:
  "(if sort (filter P xs) = [] then [] else [y]) = [] \<longleftrightarrow> (\<forall>x \<in> set xs. \<not> P x)" for xs :: "'a::linorder list"
  by (simp add: filter_empty_conv)

lemma steps_skipping_iff:
  assumes "distinct (dkeys steps)" and "(n, cfg) \<in> set steps"
  shows "n \<in> set (steps_skipping steps c) \<longleftrightarrow> c \<in> set (skip_graph_checks cfg)"
proof
  assume "n \<in> set (steps_skipping steps c)"
  then obtain cfg' where m: "(n, cfg') \<in> set steps" and c: "c \<in> set (skip_graph_checks cfg')"
    by (auto simp: steps_skipping_def)
  from eq_key_imp_eq_value [OF assms(1) m assms(2)] c show "c \<in> set (skip_graph_checks cfg)" by simp
next
  assume "c \<in> set (skip_graph_checks cfg)"
  with assms(2) have "(n, cfg) \<in> set (filter (\<lambda>(name, cfg). c \<in> set (skip_graph_checks cfg)) steps)" by simp
  then show "n \<in> set (steps_skipping steps c)" unfolding steps_skipping_def set_map by force
qed

lemma dkeys_ball:
  assumes "distinct (dkeys steps)"
    and "X \<longleftrightarrow> (\<forall>n \<in> set (dkeys steps). n \<notin> set (steps_skipping steps c) \<longrightarrow> P n)"
    and "\<And>n cfg. (n, cfg) \<in> set steps \<Longrightarrow> P n \<longleftrightarrow> Q n cfg"
  shows "X \<longleftrightarrow> (\<forall>(n, cfg) \<in> set steps. c \<notin> set (skip_graph_checks cfg) \<longrightarrow> Q n cfg)"
proof -
  have "X \<longleftrightarrow> (\<forall>(n, cfg) \<in> set steps. n \<notin> set (steps_skipping steps c) \<longrightarrow> P n)"
    unfolding assms(2) by force
  also have "\<dots> \<longleftrightarrow> (\<forall>(n, cfg) \<in> set steps. c \<notin> set (skip_graph_checks cfg) \<longrightarrow> Q n cfg)"
    by (rule ball_cong) (auto simp: steps_skipping_iff [OF assms(1)] assms(3))
  finally show ?thesis .
qed

lemma reachability_errors_iff:
  assumes "distinct (dkeys steps)"
  shows "reachability_errors steps (build_step_graph steps start hs) = [] \<longleftrightarrow> steps_reachable steps start hs"
proof -
  have "reachability_errors steps (build_step_graph steps start hs) = [] \<longleftrightarrow>
      (\<forall>n \<in> set (dkeys steps). n \<notin> set (steps_skipping steps ''reachability'') \<longrightarrow>
         StepNode n \<in> set (sg_forward_reachable (build_step_graph steps start hs)))"
    unfolding reachability_errors_def Let_def sg_fields report_empty_iff by blast
  then show ?thesis
    unfolding steps_reachable_def forward_reachable_iff by (rule dkeys_ball [OF assms]) blast
qed

lemma terminal_event_errors_iff:
  "terminal_event_errors (build_step_graph steps start hs) = [] \<longleftrightarrow> events_consumed steps start"
proof -
  have "list_ex (\<lambda>t. t \<in> StepNode ` set (dkeys steps)) (dget_or (graph_outgoing steps start) (EventNode e) [])
      \<longleftrightarrow> (\<exists>(n, cfg) \<in> set steps. consumes cfg e)" if "e \<in> set (graph_event_types steps start)" for e
    using that by (force simp: list_ex_iff Bex_def graph_outgoing_targets graph_edge_event)
  then have "dangling_events (build_step_graph steps start hs) =
      filter (\<lambda>e. \<not> (\<exists>(n, cfg) \<in> set steps. consumes cfg e) \<and> \<not> is_subclass_any e output_types)
        (graph_event_types steps start)"
    unfolding dangling_events_def sg_fields build_step_graph_outgoing by (intro filter_cong refl) blast
  then have "terminal_event_errors (build_step_graph steps start hs) = [] \<longleftrightarrow>
      (\<forall>e \<in> set (graph_event_types steps start).
        \<not> (\<not> (\<exists>(n, cfg) \<in> set steps. consumes cfg e) \<and> \<not> is_subclass_any e output_types))"
    unfolding terminal_event_errors_def Let_def by (simp add: filter_empty_conv)
  then show ?thesis unfolding events_consumed_def by blast
qed

lemma step_produces_iff:
  assumes d: "distinct (dkeys steps)" and m: "(n, cfg) \<in> set steps"
  shows "list_ex is_type_node (dget_or (graph_outgoing steps start) (StepNode n) []) \<longleftrightarrow>
    (\<exists>rt \<in> set (return_types cfg). rt \<noteq> NoneTypeT \<and> is_class rt)"
proof -
  have "graph_edge steps start (StepNode n) v \<longleftrightarrow>
      (\<exists>rt. v = EventNode rt \<and> rt \<in> set (return_types cfg) \<and> rt \<noteq> NoneTypeT)" for v
  proof
    assume "graph_edge steps start (StepNode n) v"
    then obtain cfg' rt where e: "v = EventNode rt" "(n, cfg') \<in> set steps"
      "rt \<in> set (return_types cfg')" "rt \<noteq> NoneTypeT" by (auto simp: graph_edge_step)
    have "cfg' = cfg" by (rule eq_key_imp_eq_value [OF d e(2) m])
    with e show "\<exists>rt. v = EventNode rt \<and> rt \<in> set (return_types cfg) \<and> rt \<noteq> NoneTypeT" by simp
  qed (use m in \<open>auto intro: returns\<close>)
  then show ?thesis unfolding list_ex_iff Bex_def graph_outgoing_targets is_class_def by auto
qed

lemma dead_end_errors_iff:
  assumes d: "distinct (dkeys steps)"
  shows "dead_end_errors steps (build_step_graph steps start hs) = [] \<longleftrightarrow> steps_terminate steps start"
proof -
  have "dead_end_errors steps (build_step_graph steps start hs) = [] \<longleftrightarrow>
      (\<forall>n \<in> set (dkeys steps). n \<notin> set (steps_skipping steps ''dead_end'') \<longrightarrow>
         (list_ex is_type_node (dget_or (graph_outgoing steps start) (StepNode n) []) \<longrightarrow>
          StepNode n \<in> set (sg_reverse_reachable (build_step_graph steps start hs))))"
    unfolding dead_end_errors_def Let_def sg_fields build_step_graph_outgoing
    unfolding filter_filter report_empty_iff by blast
  then show ?thesis
    unfolding steps_terminate_def reverse_reachable_iff
    by (rule dkeys_ball [OF d]) (simp only: step_produces_iff [OF d])
qed

lemma validate_graph_iff:
  assumes "distinct (dkeys steps)"
  shows "validate_graph steps start skip hs = [] \<longleftrightarrow>
    (''reachability'' \<in> set skip \<or> steps_reachable steps start hs) \<and>
    (''terminal_event'' \<in> set skip \<or> events_consumed steps start) \<and>
    (''dead_end'' \<in> set skip \<or> steps_terminate steps start)"
  by (simp add: validate_graph_def Let_def reachability_errors_iff [OF assms] terminal_event_errors_iff
      dead_end_errors_iff [OF assms])

section \<open>The catch-error routing table\<close>

definition is_handler :: "(string, step_config) dict \<Rightarrow> string \<Rightarrow> bool" where
  "is_handler steps h \<longleftrightarrow> (\<exists>cfg. (h, cfg) \<in> set steps \<and> role cfg = RoleCatchError)"

definition claims :: "(string, step_config) dict \<Rightarrow> string \<Rightarrow> string \<Rightarrow> bool" where
  "claims steps h n \<longleftrightarrow> (\<exists>cfg ts. (h, cfg) \<in> set steps \<and> role cfg = RoleCatchError \<and>
     catch_error_for_steps cfg = Some ts \<and> n \<in> set ts)"

definition is_wildcard :: "(string, step_config) dict \<Rightarrow> string \<Rightarrow> bool" where
  "is_wildcard steps h \<longleftrightarrow> (\<exists>cfg. (h, cfg) \<in> set steps \<and> role cfg = RoleCatchError \<and>
     catch_error_for_steps cfg = None)"

text \<open>The claims of all scoped handlers, in the order the loops visit them.\<close>

definition handler_targets :: "catch_error_handler list \<Rightarrow> (catch_error_handler \<times> string) list" where
  "handler_targets handlers = concat (map (\<lambda>h. case ceh_for_steps h of
      None \<Rightarrow> [] | Some targets \<Rightarrow> map (Pair h) targets) handlers)"

lemma foldl_claim_targets:
  "foldl (claim_targets ns hs) acc handlers =
   foldl (\<lambda>acc (h, t). claim_target ns hs h acc t) acc (handler_targets handlers)"
proof (induction handlers arbitrary: acc)
  case (Cons h handlers)
  have "foldl (\<lambda>acc (h, t). claim_target ns hs h acc t) acc (map (Pair h) ts) = foldl (claim_target ns hs h) acc ts" for ts acc
    by (induction ts arbitrary: acc) auto
  with Cons show ?case by (auto simp: handler_targets_def claim_targets_def split: option.splits)
qed (simp add: handler_targets_def)

lemma scoped_claims_targets: "scoped_claims handlers = map (\<lambda>(h, t). (t, ceh_step_name h)) (handler_targets handlers)"
  by (induction handlers) (auto simp: scoped_claims_def handler_targets_def split: option.splits)

lemma claim_target_accepted:
  "fst (claim_target ns hs h acc t) = [] \<Longrightarrow> fst acc = [] \<and> t \<in> set ns \<and> t \<notin> set hs \<and> dget (snd acc) t = None \<and>
     claim_target ns hs h acc t = (fst acc, dset t (ceh_step_name h) (snd acc))"
  by (auto simp: claim_target_def split: if_splits option.splits)

lemma claims_accepted:
  "fst (foldl (\<lambda>acc (h, t). claim_target ns hs h acc t) acc ps) = [] \<Longrightarrow>
   fst acc = [] \<and> (\<forall>(h, t) \<in> set ps. t \<in> set ns \<and> t \<notin> set hs \<and> dget (snd acc) t = None) \<and> distinct (map snd ps)"
proof (induction ps arbitrary: acc)
  case (Cons p ps)
  obtain h t where p: "p = (h, t)" by (cases p)
  let ?acc = "claim_target ns hs h acc t"
  from Cons.prems have "fst (foldl (\<lambda>acc (h, t). claim_target ns hs h acc t) ?acc ps) = []" by (simp add: p)
  note IH = Cons.IH [OF this]
  then have acc: "fst acc = []" "t \<in> set ns" "t \<notin> set hs" "dget (snd acc) t = None"
    "?acc = (fst acc, dset t (ceh_step_name h) (snd acc))" using claim_target_accepted by blast+
  have "u \<noteq> t \<and> dget (snd acc) u = None" if "(g, u) \<in> set ps" for g u
  proof -
    from IH that have "dget (snd ?acc) u = None" by blast
    then show ?thesis unfolding acc(5) by (auto simp: update_conv split: if_splits)
  qed
  with IH acc show ?case by (force simp: p)
qed auto

lemma validated_claims:
  assumes "validate_catch_error_handlers handlers ns = []"
  shows "length (wildcard_handlers handlers) \<le> 1" "distinct (map fst (scoped_claims handlers))"
    "\<And>t h. (t, h) \<in> set (scoped_claims handlers) \<Longrightarrow> t \<in> set ns \<and> t \<notin> set (map ceh_step_name handlers)"
proof -
  from assms have f: "fst (foldl (\<lambda>acc (h, t). claim_target ns (map ceh_step_name handlers) h acc t)
      ((if length (wildcard_handlers handlers) > 1
           then [''Only one wildcard @catch_error handler is allowed per workflow, found '' @
                 nat_to_string (length (wildcard_handlers handlers)) @ '': '' @
                 join '', '' (sort (map ceh_step_name (wildcard_handlers handlers)))]
           else []), []) (handler_targets handlers)) = []"
    by (simp only: validate_catch_error_handlers_def Let_def foldl_claim_targets)
  note c = claims_accepted [OF f]
  from c show "length (wildcard_handlers handlers) \<le> 1" by (simp split: if_splits)
  from c show "distinct (map fst (scoped_claims handlers))"
    by (simp add: scoped_claims_targets case_prod_unfold comp_def)
  show "t \<in> set ns \<and> t \<notin> set (map ceh_step_name handlers)" if "(t, h) \<in> set (scoped_claims handlers)" for t h
    using that c by (auto simp: scoped_claims_targets)
qed

lemma dget_foldl_dset:
  "distinct (map fst cs) \<Longrightarrow> dget (foldl (\<lambda>d c. dset (fst c) (snd c) d) d cs) k =
     (case map_of cs k of None \<Rightarrow> dget d k | Some v \<Rightarrow> Some v)"
proof (induction cs arbitrary: d)
  case (Cons c cs)
  then have "k = fst c \<Longrightarrow> map_of cs k = None" by (auto simp: map_of_eq_None_iff)
  with Cons show ?case by (cases c) (auto simp: update_conv split: option.splits)
qed simp

lemma dget_fill_wildcard:
  "dget (foldl (fill_wildcard hs w) d ns) k =
     (case dget d k of Some h \<Rightarrow> Some h | None \<Rightarrow> if k \<in> set ns \<and> k \<notin> set hs then Some w else None)"
  by (induction ns arbitrary: d) (auto simp: fill_wildcard_def update_conv split: option.splits if_splits)

lemma gather_handlers_spec:
  "gather_handlers steps = Inr handlers \<Longrightarrow> handlers = map (\<lambda>(n, cfg).
     \<lparr>ceh_step_name = n, ceh_for_steps = catch_error_for_steps cfg,
      ceh_max_recoveries = nat (catch_error_max_recoveries cfg)\<rparr>)
       (filter (\<lambda>(n, cfg). role cfg = RoleCatchError) steps) \<and>
   (\<forall>(n, cfg) \<in> set steps. role cfg = RoleCatchError \<longrightarrow> 1 \<le> catch_error_max_recoveries cfg)"
  by (induction steps arbitrary: handlers rule: gather_handlers.induct) (auto split: if_splits sum.splits)

lemma gathered_names:
  assumes "gather_handlers steps = Inr handlers"
  shows "n \<in> set (map ceh_step_name handlers) \<longleftrightarrow> is_handler steps n"
    and "(n, h) \<in> set (scoped_claims handlers) \<longleftrightarrow> claims steps h n"
    and "(\<exists>w \<in> set (wildcard_handlers handlers). ceh_step_name w = h) \<longleftrightarrow> is_wildcard steps h"
  using gather_handlers_spec [OF assms]
  by (force simp: is_handler_def, force simp: scoped_claims_def claims_def split: option.splits,
      force simp: wildcard_handlers_def is_wildcard_def)

lemma routing_table_spec:
  assumes "collect_catch_error_handlers steps = Inr (hs, table)"
  shows "dget table n = Some h \<longleftrightarrow> n \<in> set (dkeys steps) \<and> \<not> is_handler steps n \<and>
    (claims steps h n \<or> is_wildcard steps h \<and> (\<nexists>g. claims steps g n))"
proof -
  from assms obtain handlers where g: "gather_handlers steps = Inr handlers"
    and v: "validate_catch_error_handlers handlers (dkeys steps) = []"
    and table: "table = routing_table handlers (dkeys steps)"
    by (auto simp: collect_catch_error_handlers_def Let_def split: sum.splits if_splits)
  note names = gathered_names [OF g] and valid = validated_claims [OF v]
  let ?scoped = "foldl (\<lambda>d c. dset (fst c) (snd c) d) [] (scoped_claims handlers)"
  have scoped: "dget ?scoped k = map_of (scoped_claims handlers) k" for k
    by (simp add: dget_foldl_dset [OF valid(2)] split: option.splits)
  have some: "dget ?scoped k = Some i \<longleftrightarrow> claims steps i k" for k i
    unfolding scoped map_of_eq_Some_iff [OF valid(2)] names(2) ..
  have claimed: "k \<in> set (dkeys steps) \<and> \<not> is_handler steps k" if "claims steps i k" for k i
    using valid(3) [unfolded names, OF that] .
  show ?thesis
  proof (cases "wildcard_handlers handlers")
    case Nil
    then have "\<not> is_wildcard steps h" using names(3) [of h] by simp
    moreover have "dget table n = dget ?scoped n" by (simp add: table routing_table_def Let_def Nil)
    ultimately show ?thesis using some [of n h] claimed [of h n] by metis
  next
    case (Cons w ws)
    then have ws: "ws = []" using valid(1) by simp
    have wild: "is_wildcard steps h \<longleftrightarrow> h = ceh_step_name w" using names(3) [of h] by (auto simp: Cons ws)
    have t: "dget table n = (case dget ?scoped n of Some h \<Rightarrow> Some h
        | None \<Rightarrow> if n \<in> set (dkeys steps) \<and> \<not> is_handler steps n then Some (ceh_step_name w) else None)"
      unfolding table routing_table_def Let_def Cons list.case dget_fill_wildcard names(1) ..
    show ?thesis
    proof (cases "dget ?scoped n")
      case None
      then have "\<not> claims steps g n" for g using some [of n g] by simp
      with t None wild show ?thesis by auto
    next
      case (Some g)
      then have "claims steps i n \<longleftrightarrow> i = g" for i using some [of n i] by auto
      with t Some claimed [of g n] show ?thesis by auto
    qed
  qed
qed

lemma handlers_spec:
  assumes "collect_catch_error_handlers steps = Inr (hs, table)" and d: "distinct (dkeys steps)"
  shows "dget hs h = Some c \<longleftrightarrow> (\<exists>cfg. dget steps h = Some cfg \<and> role cfg = RoleCatchError \<and>
    c = \<lparr>ceh_step_name = h, ceh_for_steps = catch_error_for_steps cfg,
         ceh_max_recoveries = nat (catch_error_max_recoveries cfg)\<rparr> \<and> 1 \<le> ceh_max_recoveries c)"
proof -
  from assms(1) obtain handlers where g: "gather_handlers steps = Inr handlers"
    and hs: "hs = map (\<lambda>h. (ceh_step_name h, h)) handlers"
    by (auto simp: collect_catch_error_handlers_def Let_def split: sum.splits if_splits)
  note spec = gather_handlers_spec [OF g]
  have "dkeys hs = map fst (filter (\<lambda>(n, cfg). role cfg = RoleCatchError) steps)"
    by (simp add: hs spec comp_def case_prod_unfold)
  then have "distinct (dkeys hs)" using d by (simp add: distinct_map_filter)
  then have "dget hs h = Some c \<longleftrightarrow> (h, c) \<in> set hs" by simp
  with d spec show ?thesis by (force simp: hs)
qed

section \<open>Collection bindings\<close>

lemma foldl_dset_mem: "(k, v) \<in> set (foldl (\<lambda>d b. dset (f b) b d) d bs) \<Longrightarrow> (k, v) \<in> set d \<or> v \<in> set bs \<and> k = f v"
proof (induction bs arbitrary: d)
  case (Cons b bs)
  have "(k, v) \<in> set (dset x y d) \<Longrightarrow> (k, v) \<in> set d \<or> (k, v) = (x, y)" for x y
    by (induction d) (auto split: if_splits)
  with Cons.IH [of "dset (f b) b d"] Cons.prems show ?case by auto
qed simp

lemma foldl_dset_dget: "b \<in> set bs \<Longrightarrow> \<exists>b'. dget (foldl (\<lambda>d b. dset (f b) b d) d bs) (f b) = Some b'"
proof (induction bs arbitrary: d)
  case (Cons c bs)
  have keep: "dget d k \<noteq> None \<Longrightarrow> dget (foldl (\<lambda>d b. dset (f b) b d) d bs) k \<noteq> None" for d k
    by (induction bs arbitrary: d) (auto simp: update_conv)
  from Cons keep [of "dset (f c) c d" "f c"] show ?case by (auto simp: update_conv)
qed simp

lemma binding_between_Some:
  "binding_between source target = Some b \<longleftrightarrow>
    (\<exists>param ts policy. collection_param (snd target) = Some (param, ts) \<and> collection_policy (snd target) = Some policy \<and>
      (\<exists>produced \<in> set (snd source). step_accepts_type (accept_event_subclasses (snd target)) produced (event_types ts)) \<and>
      b = \<lparr>cb_id = binding_id (fst source) (fst target) (event_types ts) policy, cb_source_step = fst source,
           cb_target_step = fst target, cb_item_types = event_types ts, cb_policy = policy\<rparr>)"
  by (auto simp: binding_between_def Let_def list_ex_iff split: option.splits)

lemma all_bindings_mem:
  "b \<in> set (all_bindings steps) \<longleftrightarrow> (\<exists>source target. source \<in> set (stream_level_types_by_producer steps) \<and>
     target \<in> set steps \<and> binding_between source target = Some b)"
  by (force simp: all_bindings_def List.map_filter_def)

lemma compute_collection_bindings_sound:
  assumes "(i, b) \<in> set (compute_collection_bindings steps)"
  obtains scfg tcfg param ts where "i = cb_id b" "(cb_source_step b, scfg) \<in> set steps" "is_fan_out scfg"
    "(cb_target_step b, tcfg) \<in> set steps" "collection_param tcfg = Some (param, ts)"
    "cb_item_types b = event_types ts" "collection_policy tcfg = Some (cb_policy b)"
    "\<exists>produced \<in> set (same_level_types steps (return_types scfg) [cb_source_step b]).
       step_accepts_type (accept_event_subclasses tcfg) produced (event_types ts)"
proof -
  from assms foldl_dset_mem have "b \<in> set (all_bindings steps)" and i: "i = cb_id b"
    by (fastforce simp: compute_collection_bindings_def)+
  then obtain src tgt where "src \<in> set (stream_level_types_by_producer steps)" "tgt \<in> set steps"
    "binding_between src tgt = Some b" by (auto simp: all_bindings_mem)
  then obtain n scfg m tcfg where st: "(n, scfg) \<in> set steps" "is_fan_out scfg" "(m, tcfg) \<in> set steps"
    and bt: "binding_between (n, same_level_types steps (return_types scfg) [n]) (m, tcfg) = Some b"
    by (cases tgt) (auto simp: stream_level_types_by_producer_def)
  from bt [unfolded binding_between_Some] obtain param ts policy where "collection_param tcfg = Some (param, ts)"
    "collection_policy tcfg = Some policy"
    "\<exists>produced \<in> set (same_level_types steps (return_types scfg) [n]).
       step_accepts_type (accept_event_subclasses tcfg) produced (event_types ts)"
    "b = \<lparr>cb_id = binding_id n m (event_types ts) policy, cb_source_step = n,
          cb_target_step = m, cb_item_types = event_types ts, cb_policy = policy\<rparr>"
    by auto
  with st i show ?thesis by (intro that [of scfg tcfg param ts]) simp_all
qed

text \<open>A validated collect step whose element types are events is the target of a binding.\<close>

lemma validated_collect_bound:
  assumes ok: "validate_collection_bindings steps = Inr u" and m: "(n, cfg) \<in> set steps"
    and p: "collection_param cfg = Some (param, ts)" "collection_policy cfg = Some policy" and t: "t \<in> set (event_types ts)"
  shows "\<exists>b \<in> set (all_bindings steps). cb_target_step b = n \<and> cb_policy b = policy"
proof -
  from ok have "collection_binding_errors steps = []"
    by (auto simp: validate_collection_bindings_def Let_def split: if_splits)
  then have "case collection_param cfg of None \<Rightarrow> True
      | Some (_, ts) \<Rightarrow> missing_element_types (stream_level_types_by_producer steps) cfg ts = []"
    using m unfolding collection_binding_errors_def Let_def concat_eq_Nil_conv
    by (auto split: option.split if_splits dest!: bspec [OF _ m])
  with p have "missing_element_types (stream_level_types_by_producer steps) cfg ts = []" by simp
  with t obtain producer level produced where lv: "(producer, level) \<in> set (stream_level_types_by_producer steps)"
    "produced \<in> set level" "type_matches (accept_event_subclasses cfg) produced t"
    by (auto simp: missing_element_types_def filter_empty_conv list_ex_iff)
  with t have "step_accepts_type (accept_event_subclasses cfg) produced (event_types ts)"
    by (auto simp: step_accepts_type_def list_ex_iff)
  with lv p obtain b where b: "binding_between (producer, level) (n, cfg) = Some b"
    "cb_target_step b = n" "cb_policy b = policy" unfolding binding_between_Some by fastforce
  with lv(1) m have "b \<in> set (all_bindings steps)" unfolding all_bindings_mem by blast
  with b show ?thesis by blast
qed

text \<open>
  Step names are Python identifiers, so they contain neither the hyphen nor the colon of a binding
  id: the id determines the two steps.
\<close>

definition plain_names :: "(string, step_config) dict \<Rightarrow> bool" where
  "plain_names steps \<longleftrightarrow> list_all (\<lambda>(n, cfg). CHR ''-'' \<notin> set n \<and> CHR '':'' \<notin> set n) steps"

lemma append_delimiter_inj: "x \<notin> set a \<Longrightarrow> x \<notin> set b \<Longrightarrow> a @ x # u = b @ x # v \<longleftrightarrow> a = b \<and> u = v"
proof (induction a arbitrary: b)
  case Nil
  then show ?case by (cases b) auto
next
  case (Cons y a)
  then show ?case by (cases b) auto
qed

lemma binding_id_inj:
  assumes "CHR ''-'' \<notin> set s" "CHR ''-'' \<notin> set s'" "CHR '':'' \<notin> set t" "CHR '':'' \<notin> set t'"
    and "binding_id s t xs p = binding_id s' t' ys q"
  shows "s = s' \<and> t = t'"
  using assms append_delimiter_inj [of "CHR ''-''" s s'] append_delimiter_inj [of "CHR '':''" t t']
  by (simp add: binding_id_def)

lemma validated_collect_in_table:
  assumes "validate_collection_bindings steps = Inr u" and m: "(n, cfg) \<in> set steps"
    and "collection_param cfg = Some (param, ts)" "collection_policy cfg = Some policy" and "t \<in> set (event_types ts)"
    and names: "plain_names steps"
  shows "\<exists>i b. (i, b) \<in> set (compute_collection_bindings steps) \<and> cb_target_step b = n"
proof -
  obtain b where b: "b \<in> set (all_bindings steps)" "cb_target_step b = n"
    using validated_collect_bound [OF assms(1-5)] by blast
  from foldl_dset_dget [OF b(1), of cb_id "[]"] obtain b' where "dget (compute_collection_bindings steps) (cb_id b) = Some b'"
    by (auto simp: compute_collection_bindings_def)
  then have d: "(cb_id b, b') \<in> set (compute_collection_bindings steps)" by (rule map_of_SomeD)
  then have b': "b' \<in> set (all_bindings steps)" "cb_id b = cb_id b'"
    using foldl_dset_mem [of "cb_id b" b' cb_id "[]" "all_bindings steps"] by (auto simp: compute_collection_bindings_def)
  have plain: "CHR ''-'' \<notin> set (cb_source_step c) \<and> CHR '':'' \<notin> set (cb_target_step c) \<and>
      (\<exists>xs p. cb_id c = binding_id (cb_source_step c) (cb_target_step c) xs p)" if "c \<in> set (all_bindings steps)" for c
  proof -
    from that obtain src tgt where st: "src \<in> set (stream_level_types_by_producer steps)" "tgt \<in> set steps"
      "binding_between src tgt = Some c" by (auto simp: all_bindings_mem)
    from st(1) have "fst src \<in> set (dkeys steps)" by (force simp: stream_level_types_by_producer_def)
    moreover from st(2) have "fst tgt \<in> set (dkeys steps)" by simp
    ultimately have "CHR ''-'' \<notin> set (fst src)" "CHR '':'' \<notin> set (fst tgt)"
      using names by (auto simp: plain_names_def list_all_iff)
    moreover from st(3) [unfolded binding_between_Some] obtain ts policy where
      "cb_id c = binding_id (fst src) (fst tgt) (event_types ts) policy"
      "cb_source_step c = fst src" "cb_target_step c = fst tgt" by auto
    ultimately show ?thesis by auto
  qed
  have "cb_target_step b' = n" using plain [OF b(1)] plain [OF b'(1)] b b'(2) binding_id_inj by metis
  with d show ?thesis by blast
qed

end
