(* ===== verification/Add_Event.thy ===== *)
theory Add_Event
  imports Streams
begin

text \<open>
  Adding an event to the run (\<open>runtime/control_loop/reduce.py\<close>: \<open>_process_add_event_tick\<close> and the
  functions it is made of): re-delivery of a collect batch, resolution of waiters, routing to every
  accepting step, member arrival at a collect step, static fan-in, and the unhandled-event notice.
  Log output is not modelled.
\<close>

section \<open>Operations\<close>

subsection \<open>Static fan-in\<close>

text \<open>The first index whose candidate yields a result (\<open>for event_index, candidate in enumerate(...)\<close>).\<close>

primrec first_some :: "('a \<Rightarrow> 'b option) \<Rightarrow> 'a list \<Rightarrow> 'b option" where
  "first_some f [] = None"
| "first_some f (x # xs) = (case f x of Some y \<Rightarrow> Some y | None \<Rightarrow> first_some f xs)"

fun static_search :: "event list \<Rightarrow> bool \<Rightarrow> (string \<times> pytype) list \<Rightarrow> nat list \<Rightarrow> nat list option" where
  "static_search events allow [] used = Some []"
| "static_search events allow ((pname, event_type) # params) used =
    first_some (\<lambda>i.
      if i \<in> set used \<or> \<not> event_matches allow (events ! i) event_type then None
      else map_option (Cons i) (static_search events allow params (i # used)))
     [0..<length events]"

definition select_static_collect_batch ::
  "event list \<Rightarrow> (string \<times> pytype) list \<Rightarrow> bool \<Rightarrow> nat list option"
where
  "select_static_collect_batch events params allow =
     static_search events allow params []"

definition bind_params :: "event list \<Rightarrow> (string \<times> pytype) list \<Rightarrow> nat list \<Rightarrow> (string, event) dict" where
  "bind_params events params idxs =
     foldl (\<lambda>d (p, i). dset (fst p) (events ! i) d) [] (zip params idxs)"

definition drop_indices :: "nat list \<Rightarrow> 'a list \<Rightarrow> 'a list" where
  "drop_indices idxs xs = map snd (filter (\<lambda>(i, x). i \<notin> set idxs) (enumerate 0 xs))"

definition static_collect_events ::
  "event \<Rightarrow> worker_state \<Rightarrow> worker_state \<times> (string, event) dict option"
where
  "static_collect_events ev ws =
    (case collect_params (ws_config ws) of
       None \<Rightarrow> (ws, None)
     | Some params \<Rightarrow>
         (let pending = ws_static_collect_events ws @ [ev];
              ws1 = ws\<lparr>ws_static_collect_events := pending\<rparr>
          in case select_static_collect_batch pending params (accept_event_subclasses (ws_config ws)) of
               None \<Rightarrow> (ws1, None)
             | Some idxs \<Rightarrow>
                 (ws1\<lparr>ws_static_collect_events := drop_indices idxs pending\<rparr>,
                  Some (bind_params pending params idxs))))"

subsection \<open>Re-delivery of a collect batch\<close>

definition redelivery_attempt :: "add_event_tick \<Rightarrow> release_payload \<Rightarrow> event_attempt" where
  "redelivery_attempt tick payload =
    \<lparr>ea_event = as_event payload, ea_bound_events = None, ea_attempts = ae_attempts tick,
     ea_first_attempt_at = ae_first_attempt_at tick, ea_last_exception = ae_last_exception tick,
     ea_last_failed_at = ae_last_failed_at tick, ea_recovery_counts = ae_recovery_counts tick,
     ea_not_before = None, ea_scope_path = ae_scope_path tick, ea_payload = Some payload,
     ea_work_item_id = ae_work_item_id tick\<rparr>"

definition redeliver_collection_payload ::
  "add_event_tick \<Rightarrow> broker_state \<Rightarrow> real \<Rightarrow> (broker_state \<times> command list) option res"
where
  "redeliver_collection_payload tick s now =
    (case ae_payload tick of
       None \<Rightarrow> Inr None
     | Some payload \<Rightarrow>
         (case dget (bc_collection_bindings (config s)) (rp_binding_id payload) of
            None \<Rightarrow> Inl (WorkflowRuntimeError ''Collect invocation re-delivered for unknown binding'')
          | Some binding \<Rightarrow>
              (case dget (workers s) (cb_target_step binding) of
                 None \<Rightarrow> Inl (KeyError (cb_target_step binding))
               | Some ws \<Rightarrow>
                   (let out = add_or_enqueue_event (redelivery_attempt tick payload)
                                (StepId_root (cb_target_step binding)) ws now
                    in Inr (Some (s\<lparr>workers := dset (cb_target_step binding) (fst out) (workers s)\<rparr>,
                                  snd out))))))"

subsection \<open>Waiters\<close>

definition waiter_matches :: "bool \<Rightarrow> event \<Rightarrow> waiter \<Rightarrow> bool" where
  "waiter_matches allow ev w \<longleftrightarrow> event_matches allow ev (w_waiting_for_event w) \<and>
     list_all (\<lambda>(k, v). py_eq (event_getattr ev k) v) (w_requirements w)"

definition resume_attempt :: "waiter \<Rightarrow> event_attempt" where
  "resume_attempt w =
    \<lparr>ea_event = w_event w, ea_bound_events = w_bound_events w, ea_attempts = None,
     ea_first_attempt_at = None, ea_last_exception = None, ea_last_failed_at = None,
     ea_recovery_counts = [], ea_not_before = None, ea_scope_path = w_scope_path w,
     ea_payload = w_payload w, ea_work_item_id = w_work_item_id w\<rparr>"

text \<open>The inner loop over one step's waiters, by index, since it mutates them while it dispatches.\<close>

fun resolve_waiters_at ::
  "nat list \<Rightarrow> event \<Rightarrow> bool \<Rightarrow> step_id \<Rightarrow> worker_state \<Rightarrow> real \<Rightarrow> worker_state \<times> command list \<times> bool"
where
  "resolve_waiters_at [] ev allow sid ws now = (ws, [], False)"
| "resolve_waiters_at (i # is) ev allow sid ws now =
    (let w = ws_collected_waiters ws ! i in
     if waiter_matches allow ev w then
       (let ws1 = ws\<lparr>ws_collected_waiters :=
                    (ws_collected_waiters ws)[i := w\<lparr>w_resolved_event := Some ev\<rparr>]\<rparr>;
            out = add_or_enqueue_event (resume_attempt w) sid ws1 now;
            rest = resolve_waiters_at is ev allow sid (fst out) now
        in (fst rest, snd out @ fst (snd rest), True))
     else resolve_waiters_at is ev allow sid ws now)"

definition resolve_step_waiters ::
  "event \<Rightarrow> bool \<Rightarrow> step_id \<Rightarrow> worker_state \<Rightarrow> real \<Rightarrow> worker_state \<times> command list \<times> bool"
where
  "resolve_step_waiters ev allow sid ws now =
     resolve_waiters_at [0..<length (ws_collected_waiters ws)] ev allow sid ws now"

fun resolve_waiters ::
  "(string, internal_step_config) dict \<Rightarrow> add_event_tick \<Rightarrow> broker_state \<Rightarrow> real \<Rightarrow>
   (broker_state \<times> command list \<times> string list) res"
where
  "resolve_waiters [] tick s now = Inr (s, [], [])"
| "resolve_waiters ((step_name, cfg) # steps) tick s now =
    (case dget (workers s) step_name of
       None \<Rightarrow> Inl (KeyError step_name)
     | Some ws \<Rightarrow>
         (let out = resolve_step_waiters (ae_event tick) (isc_accept_event_subclasses cfg)
                      (StepId_root step_name) ws now
          in case resolve_waiters steps tick
                    (s\<lparr>workers := dset step_name (fst out) (workers s)\<rparr>) now of
               Inl err \<Rightarrow> Inl err
             | Inr (s', cmds, resolved) \<Rightarrow>
                 Inr (s', fst (snd out) @ cmds,
                      if snd (snd out) then step_name # resolved else resolved)))"

subsection \<open>Member arrival at a collect step\<close>

definition targeted_collect_error :: exn where
  "targeted_collect_error = WorkflowRuntimeError ''a collect step cannot receive targeted events''"

definition buffer_member ::
  "event \<Rightarrow> string \<Rightarrow> string list \<Rightarrow> collection_binding \<Rightarrow> string \<Rightarrow> broker_state \<Rightarrow> worker_state \<Rightarrow>
   real \<Rightarrow> broker_state \<times> command list"
where
  "buffer_member ev stream_id output_stack binding step_name s ws now =
    (let got = release_state_for s stream_id binding;
         out = member_arrives binding ev (snd got);
         key = release_state_key stream_id (cb_id binding);
         s1 = (fst got)\<lparr>collection_release_states :=
                dset key (fst out) (collection_release_states (fst got))\<rparr>
     in case snd out of
          None \<Rightarrow> (s1, [])
        | Some release \<Rightarrow>
            (let fired = fire_collection_release binding stream_id ws release output_stack now
             in (s1\<lparr>workers := dset step_name (fst fired) (workers s1)\<rparr>, snd fired)))"

definition route_member_to_collect_step ::
  "add_event_tick \<Rightarrow> broker_state \<Rightarrow> string \<Rightarrow> worker_state \<Rightarrow> real \<Rightarrow>
   broker_state \<times> command list \<times> bool"
where
  "route_member_to_collect_step tick s step_name ws now =
    (if ae_scope_path tick = [] then
       (case ae_step_id tick of
          Some _ \<Rightarrow>
            (s\<lparr>is_running := False\<rparr>,
             [CommandPublishEvent (WorkflowFailedEvent step_name targeted_collect_error None None),
              CommandFailWorkflow (StepId_root step_name) targeted_collect_error], True)
        | None \<Rightarrow> (s, [], False))
     else
       (let stream_id = last (ae_scope_path tick) in
        case binding_for_target (config s) stream_id step_name (streams s) of
          None \<Rightarrow>
            (let out = adjust_open_work_items s (Some stream_id) (- 1) now
             in (fst out, snd out, False))
        | Some binding \<Rightarrow>
            (let buffered = buffer_member (ae_event tick) stream_id (butlast (ae_scope_path tick))
                              binding step_name s ws now;
                 out = adjust_open_work_items (fst buffered) (Some stream_id) (- 1) now
             in (fst out, snd buffered @ snd out, False))))"

subsection \<open>Routing\<close>

definition superseded :: "add_event_tick \<Rightarrow> event_attempt \<Rightarrow> bool" where
  "superseded tick a \<longleftrightarrow> ea_not_before a \<noteq> None \<and> ea_attempts a = ae_attempts tick \<and>
     type_of (ea_event a) = type_of (ae_event tick)"

definition consume_superseded_delayed_attempt :: "add_event_tick \<Rightarrow> worker_state \<Rightarrow> worker_state" where
  "consume_superseded_delayed_attempt tick ws =
    (if ae_attempts tick = None \<or> ae_attempts tick = Some 0 then ws
     else (case find_index (superseded tick) (ws_queue ws) of
             None \<Rightarrow> ws
           | Some i \<Rightarrow> ws\<lparr>ws_queue := remove_nth i (ws_queue ws)\<rparr>))"

definition routed_attempt :: "add_event_tick \<Rightarrow> (string, event) dict option \<Rightarrow> event_attempt" where
  "routed_attempt tick bound =
    \<lparr>ea_event = ae_event tick, ea_bound_events = bound, ea_attempts = ae_attempts tick,
     ea_first_attempt_at = ae_first_attempt_at tick, ea_last_exception = ae_last_exception tick,
     ea_last_failed_at = ae_last_failed_at tick, ea_recovery_counts = ae_recovery_counts tick,
     ea_not_before = None, ea_scope_path = ae_scope_path tick, ea_payload = None,
     ea_work_item_id = ae_work_item_id tick\<rparr>"

text \<open>\<open>tick.scope_path[-1]\<close> when there is a scope, for the decrement of a swallowed delivery.\<close>

definition innermost_stream :: "add_event_tick \<Rightarrow> string option" where
  "innermost_stream tick = (if ae_scope_path tick = [] then None else Some (last (ae_scope_path tick)))"

definition needs_static_collect :: "add_event_tick \<Rightarrow> worker_state \<Rightarrow> bool" where
  "needs_static_collect tick ws \<longleftrightarrow> ae_bound_events tick = None \<and>
     collect_params (ws_config ws) \<noteq> None \<and> collect_params (ws_config ws) \<noteq> Some []"

definition bound_events_for ::
  "add_event_tick \<Rightarrow> worker_state \<Rightarrow> worker_state \<times> (string, event) dict option"
where
  "bound_events_for tick ws =
    (if needs_static_collect tick ws then static_collect_events (ae_event tick) ws
     else (ws, ae_bound_events tick))"

definition route_to_step ::
  "add_event_tick \<Rightarrow> broker_state \<Rightarrow> string \<Rightarrow> worker_state \<Rightarrow> real \<Rightarrow> broker_state \<times> command list"
where
  "route_to_step tick s step_name ws now =
    (let ws1 = consume_superseded_delayed_attempt tick ws;
         bound = bound_events_for tick ws1
     in if needs_static_collect tick ws1 \<and> snd bound = None then
          adjust_open_work_items (s\<lparr>workers := dset step_name (fst bound) (workers s)\<rparr>)
            (innermost_stream tick) (- 1) now
        else
          (let out = add_or_enqueue_event (routed_attempt tick (snd bound))
                       (StepId_root step_name) (fst bound) now
           in (s\<lparr>workers := dset step_name (fst out) (workers s)\<rparr>, snd out)))"

record route_result =
  rr_commands :: "command list"
  rr_handled :: bool
  rr_failed :: bool

definition step_targeted :: "add_event_tick \<Rightarrow> string \<Rightarrow> bool" where
  "step_targeted tick step_name = (case ae_step_id tick of
      None \<Rightarrow> True | Some sid \<Rightarrow> root_step_key sid = step_name)"

definition step_receives :: "add_event_tick \<Rightarrow> string \<Rightarrow> internal_step_config \<Rightarrow> bool" where
  "step_receives tick step_name cfg \<longleftrightarrow>
     step_accepts_event (isc_accept_event_subclasses cfg) (ae_event tick) (isc_accepted_events cfg) \<and>
     step_targeted tick step_name"

fun route_to_accepting_steps ::
  "(string, internal_step_config) dict \<Rightarrow> add_event_tick \<Rightarrow> string list \<Rightarrow> real \<Rightarrow>
   broker_state \<times> route_result \<Rightarrow> (broker_state \<times> route_result) res"
where
  "route_to_accepting_steps [] tick resolved now (s, r) = Inr (s, r)"
| "route_to_accepting_steps ((step_name, cfg) # steps) tick resolved now (s, r) =
    (if step_name \<in> set resolved then
       (if step_receives tick step_name cfg \<and> ae_scope_path tick \<noteq> [] then
          (let out = adjust_open_work_items s (innermost_stream tick) (- 1) now
           in route_to_accepting_steps steps tick resolved now
                (fst out, r\<lparr>rr_commands := rr_commands r @ snd out\<rparr>))
        else route_to_accepting_steps steps tick resolved now (s, r))
     else if \<not> step_receives tick step_name cfg then
       route_to_accepting_steps steps tick resolved now (s, r)
     else
       (case dget (workers s) step_name of
          None \<Rightarrow> Inl (KeyError step_name)
        | Some ws \<Rightarrow>
            if collection_param (ws_config ws) \<noteq> None then
              (let out = route_member_to_collect_step tick s step_name ws now;
                   r' = r\<lparr>rr_commands := rr_commands r @ fst (snd out), rr_handled := True\<rparr>
               in if snd (snd out) then Inr (fst out, r'\<lparr>rr_failed := True\<rparr>)
                  else route_to_accepting_steps steps tick resolved now (fst out, r'))
            else
              (let out = route_to_step tick s step_name ws now
               in route_to_accepting_steps steps tick resolved now
                    (fst out, r\<lparr>rr_commands := rr_commands r @ snd out, rr_handled := True\<rparr>))))"

subsection \<open>The whole handler\<close>

definition unhandled_event_commands :: "add_event_tick \<Rightarrow> broker_state \<Rightarrow> command list" where
  "unhandled_event_commands tick s =
    (if isinstance (ae_event tick) InputRequiredEventT then []
     else (let c = type_of (ae_event tick) in
       [CommandPublishEvent (UnhandledEvent (type_name c) (type_module c @ ''.'' @ type_name c)
          (map_option StepId_str (ae_step_id tick)) (check_idle_state s))]))"

definition assign_work_item_id :: "add_event_tick \<Rightarrow> broker_state \<Rightarrow> broker_state \<times> add_event_tick" where
  "assign_work_item_id tick s =
    (case ae_work_item_id tick of
       Some _ \<Rightarrow> (s, tick)
     | None \<Rightarrow>
         (case ae_payload tick of
            Some p \<Rightarrow> (s, tick\<lparr>ae_work_item_id := Some (payload_work_item_id p)\<rparr>)
          | None \<Rightarrow> (let next = next_work_item_id s
                     in (fst next, tick\<lparr>ae_work_item_id := Some (snd next)\<rparr>))))"

definition route_added_event ::
  "add_event_tick \<Rightarrow> broker_state \<Rightarrow> real \<Rightarrow> (broker_state \<times> command list) res"
where
  "route_added_event tick s now =
    (case resolve_waiters (bc_steps (config s)) tick s now of
       Inl err \<Rightarrow> Inl err
     | Inr (s1, cmds, resolved) \<Rightarrow>
         (case route_to_accepting_steps (bc_steps (config s1)) tick resolved now
                 (s1, \<lparr>rr_commands = [], rr_handled = False, rr_failed = False\<rparr>) of
            Inl err \<Rightarrow> Inl err
          | Inr (s2, r) \<Rightarrow>
              if rr_failed r \<or> resolved \<noteq> [] \<or> rr_handled r then Inr (s2, cmds @ rr_commands r)
              else Inr (s2, cmds @ rr_commands r @ unhandled_event_commands tick s2)))"

definition process_add_event_tick ::
  "add_event_tick \<Rightarrow> broker_state \<Rightarrow> real \<Rightarrow> (broker_state \<times> command list) res"
where
  "process_add_event_tick tick init now =
    (let assigned = assign_work_item_id tick (deepcopy init);
         tick1 = snd assigned;
         s1 = (if isinstance (ae_event tick1) StartEventT then (fst assigned)\<lparr>is_running := True\<rparr>
               else fst assigned)
     in case redeliver_collection_payload tick1 s1 now of
          Inl err \<Rightarrow> Inl err
        | Inr (Some out) \<Rightarrow> Inr out
        | Inr None \<Rightarrow> route_added_event tick1 s1 now)"

section \<open>Frame facts\<close>

lemma attempts_eligible [simp]:
  "is_eligible (redelivery_attempt tick payload)" "is_eligible (resume_attempt w)" "is_eligible (routed_attempt tick bound)"
  by (simp_all add: is_eligible_def redelivery_attempt_def resume_attempt_def routed_attempt_def)

lemma resolve_waiters_at_config [simp]:
  "ws_config (fst (resolve_waiters_at is ev allow sid ws now)) = ws_config ws"
  by (induction "is" arbitrary: ws) (auto simp: Let_def)

lemma static_collect_frame [simp]:
  "ws_config (fst (static_collect_events ev ws)) = ws_config ws"
  "ws_in_progress (fst (static_collect_events ev ws)) = ws_in_progress ws"
  "ws_queue (fst (static_collect_events ev ws)) = ws_queue ws"
  by (auto simp: static_collect_events_def Let_def split: option.splits)

lemma bound_events_for_frame [simp]:
  "ws_config (fst (bound_events_for tick ws)) = ws_config ws"
  "ws_in_progress (fst (bound_events_for tick ws)) = ws_in_progress ws"
  "ws_queue (fst (bound_events_for tick ws)) = ws_queue ws"
  by (simp_all add: bound_events_for_def)

lemma consume_superseded_frame [simp]:
  "ws_config (consume_superseded_delayed_attempt tick ws) = ws_config ws"
  "ws_in_progress (consume_superseded_delayed_attempt tick ws) = ws_in_progress ws"
  by (auto simp: consume_superseded_delayed_attempt_def split: option.splits)

lemma consume_superseded_queue:
  "set (ws_queue (consume_superseded_delayed_attempt tick ws)) \<subseteq> set (ws_queue ws)"
  using set_remove_nth [of _ "ws_queue ws"]
  by (simp add: consume_superseded_delayed_attempt_def split: option.splits)

lemma release_state_for_frame [simp]:
  "workers (fst (release_state_for s sid b)) = workers s"
  "config (fst (release_state_for s sid b)) = config s"
  "is_running (fst (release_state_for s sid b)) = is_running s"
  by (auto simp: release_state_for_def Let_def split: option.splits)

section \<open>Static fan-in against its specification\<close>

lemma first_some_None: "first_some f xs = None \<longleftrightarrow> (\<forall>x \<in> set xs. f x = None)"
  by (induction xs) (auto split: option.splits)

lemma first_some_Some: "first_some f xs = Some y \<Longrightarrow> \<exists>x \<in> set xs. f x = Some y"
  by (induction xs) (auto split: option.splits)

text \<open>An assignment of distinct, unused events to all slots.\<close>

definition batch_fits :: "event list \<Rightarrow> bool \<Rightarrow> (string \<times> pytype) list \<Rightarrow> nat list \<Rightarrow> nat list \<Rightarrow> bool" where
  "batch_fits events allow params used idxs \<longleftrightarrow>
     list_all2 (\<lambda>(p, t) i. i < length events \<and> event_matches allow (events ! i) t) params idxs \<and>
     distinct idxs \<and> set idxs \<inter> set used = {}"

lemma static_search_sound:
  "static_search events allow params used = Some idxs \<Longrightarrow> batch_fits events allow params used idxs"
proof (induction params arbitrary: used idxs)
  case Nil
  then show ?case by (simp add: batch_fits_def)
next
  case (Cons param params)
  obtain p t where param: "param = (p, t)" by fastforce
  from first_some_Some [OF Cons.prems [unfolded param static_search.simps]] obtain i rest where
    i: "i < length events" "i \<notin> set used" "event_matches allow (events ! i) t"
    and rest: "static_search events allow params (i # used) = Some rest" and idxs: "idxs = i # rest"
    by (auto split: if_splits)
  from Cons.IH [OF rest] i idxs show ?case by (auto simp: batch_fits_def param)
qed

lemma static_search_complete:
  "static_search events allow params used = None \<Longrightarrow> \<not> batch_fits events allow params used idxs"
proof (induction params arbitrary: used idxs)
  case (Cons param params)
  obtain p t where param: "param = (p, t)" by fastforce
  show ?case
  proof
    assume "batch_fits events allow (param # params) used idxs"
    then obtain i rest where idxs: "idxs = i # rest" and i: "i < length events"
      "event_matches allow (events ! i) t" "i \<notin> set used"
      and rest: "batch_fits events allow params (i # used) rest"
      by (auto simp: batch_fits_def list_all2_Cons1 param)
    have "\<forall>j \<in> set [0..<length events]. (if j \<in> set used \<or> \<not> event_matches allow (events ! j) t then None
        else map_option (Cons j) (static_search events allow params (j # used))) = None"
      using Cons.prems unfolding param static_search.simps first_some_None .
    from bspec [OF this, of i] i have "static_search events allow params (i # used) = None" by simp
    from Cons.IH [OF this] rest show False by blast
  qed
qed simp

lemma drop_indices_alt: "drop_indices idxs xs = map ((!) xs) (filter (\<lambda>i. i \<notin> set idxs) [0..<length xs])"
proof -
  have "enumerate 0 xs = map (\<lambda>i. (i, xs ! i)) [0..<length xs]"
    by (rule nth_equalityI) (simp_all add: nth_enumerate_eq)
  then show ?thesis unfolding drop_indices_def by (simp only: filter_map map_map comp_def split_conv snd_conv)
qed

lemma drop_indices_mset:
  assumes "distinct idxs" and "set idxs \<subseteq> {..<length xs}"
  shows "mset (drop_indices idxs xs) + mset (map ((!) xs) idxs) = mset xs"
proof -
  let ?out = "filter (\<lambda>i. i \<notin> set idxs) [0..<length xs]"
  have "mset idxs = mset (filter (\<lambda>i. i \<in> set idxs) [0..<length xs])"
    using assms by (subst set_eq_iff_mset_eq_distinct [symmetric]) auto
  then have "mset ?out + mset idxs = filter_mset (\<lambda>i. i \<notin> set idxs) (mset [0..<length xs]) +
      filter_mset (\<lambda>i. i \<in> set idxs) (mset [0..<length xs])" by (simp only: mset_filter)
  also have "\<dots> = mset [0..<length xs]"
    by (subst add.commute) (rule multiset_partition [symmetric])
  finally have "mset ?out + mset idxs = mset [0..<length xs]" .
  then have "image_mset ((!) xs) (mset ?out + mset idxs) = mset (map ((!) xs) [0..<length xs])" by simp
  then show ?thesis by (simp add: drop_indices_alt map_nth)
qed

lemma bind_params_fresh:
  "distinct (map fst params) \<Longrightarrow> length idxs = length params \<Longrightarrow> set (map fst params) \<inter> set (dkeys d) = {} \<Longrightarrow>
   foldl (\<lambda>d (p, i). dset (fst p) (events ! i) d) d (zip params idxs) =
     d @ zip (map fst params) (map ((!) events) idxs)"
proof (induction params arbitrary: idxs d)
  case (Cons p params)
  then obtain i rest where idxs: "idxs = i # rest" by (cases idxs) auto
  have "dset (fst p) (events ! i) d = d @ [(fst p, events ! i)]"
    using Cons.prems(3) by (intro dset_fresh) auto
  moreover have "foldl (\<lambda>d (p, i). dset (fst p) (events ! i) d) (d @ [(fst p, events ! i)]) (zip params rest) =
      (d @ [(fst p, events ! i)]) @ zip (map fst params) (map ((!) events) rest)"
    using Cons.prems idxs by (intro Cons.IH) auto
  ultimately show ?case by (simp add: idxs)
qed simp

lemma static_collect_fires:
  assumes "collect_params (ws_config ws) = Some params" and "distinct (map fst params)"
    and "static_collect_events ev ws = (ws', Some bound)"
  shows "dkeys bound = map fst params"
    and "list_all2 (\<lambda>(p, t) (k, e). event_matches (accept_event_subclasses (ws_config ws)) e t) params bound"
    and "mset (ws_static_collect_events ws') + mset (map snd bound) =
      add_mset ev (mset (ws_static_collect_events ws))"
proof -
  let ?pending = "ws_static_collect_events ws @ [ev]" and ?allow = "accept_event_subclasses (ws_config ws)"
  from assms(1,3) obtain idxs where sel: "static_search ?pending ?allow params [] = Some idxs"
    and ws': "ws_static_collect_events ws' = drop_indices idxs ?pending"
    and bound: "bound = bind_params ?pending params idxs"
    by (auto simp: static_collect_events_def select_static_collect_batch_def Let_def split: option.splits)
  from static_search_sound [OF sel] have fits: "list_all2 (\<lambda>(p, t) i. i < length ?pending \<and>
      event_matches ?allow (?pending ! i) t) params idxs" and dist: "distinct idxs"
    by (auto simp: batch_fits_def)
  from fits have len: "length idxs = length params" by (simp add: list_all2_lengthD)
  have b: "bound = zip (map fst params) (map ((!) ?pending) idxs)"
    using bind_params_fresh [OF assms(2) len, of "[]" ?pending] by (simp add: bound bind_params_def)
  with len show "dkeys bound = map fst params" by simp
  from fits len show "list_all2 (\<lambda>(p, t) (k, e). event_matches ?allow e t) params bound"
    by (simp add: b list_all2_conv_all_nth case_prod_unfold)
  have "set idxs \<subseteq> {..<length ?pending}"
    using fits by (auto simp: list_all2_conv_all_nth in_set_conv_nth case_prod_unfold)
  from drop_indices_mset [OF dist this] len
  show "mset (ws_static_collect_events ws') + mset (map snd bound) =
      add_mset ev (mset (ws_static_collect_events ws))" by (simp add: ws' b)
qed

lemma static_collect_waits:
  assumes "collect_params (ws_config ws) = Some params" and "static_collect_events ev ws = (ws', None)"
  shows "ws_static_collect_events ws' = ws_static_collect_events ws @ [ev]"
    and "\<not> batch_fits (ws_static_collect_events ws @ [ev]) (accept_event_subclasses (ws_config ws)) params [] idxs"
  using assms static_search_complete
  by (auto simp: static_collect_events_def select_static_collect_batch_def Let_def split: option.splits)

end
