(* ===== verification/Reduce.thy ===== *)
theory Reduce
  imports Step_Result Add_Event
begin

text \<open>
  The reducer of the control loop (\<open>runtime/control_loop/reduce.py\<close>): the remaining tick handlers,
  \<open>_reduce_tick\<close>, and the replay of a journal of ticks.
\<close>

section \<open>Operations\<close>

definition process_cancel_run_tick :: "broker_state \<Rightarrow> broker_state \<times> command list" where
  "process_cancel_run_tick init =
    (deepcopy init, [CommandPublishEvent WorkflowCancelledEvent, CommandHalt WorkflowCancelledByUser])"

definition process_publish_event_tick :: "event \<Rightarrow> broker_state \<Rightarrow> broker_state \<times> command list" where
  "process_publish_event_tick ev init = (init, [CommandPublishEvent ev])"

definition process_timeout_tick :: "real \<Rightarrow> broker_state \<Rightarrow> broker_state \<times> command list" where
  "process_timeout_tick timeout init =
    (clear_collection_state ((deepcopy init)\<lparr>is_running := False\<rparr>),
     [CommandPublishEvent (WorkflowTimedOutEvent timeout
        (map fst (filter (\<lambda>(n, w). 0 < length (ws_in_progress w)) (workers init)))),
      CommandHalt (WorkflowTimeoutError ''Operation timed out'')])"

definition flip_due :: "real \<Rightarrow> event_attempt \<Rightarrow> event_attempt" where
  "flip_due due a = (case ea_not_before a of
      None \<Rightarrow> a
    | Some t \<Rightarrow> if t \<le> due then a\<lparr>ea_not_before := None\<rparr> else a)"

definition wakeup_worker ::
  "real \<Rightarrow> real \<Rightarrow> string \<Rightarrow> worker_state \<Rightarrow> worker_state \<times> command list"
where
  "wakeup_worker due now step_name ws =
     drain_eligible_queue (StepId_root step_name) (ws\<lparr>ws_queue := map (flip_due due) (ws_queue ws)\<rparr>) now"

definition process_wakeup_tick :: "real \<Rightarrow> broker_state \<Rightarrow> real \<Rightarrow> broker_state \<times> command list" where
  "process_wakeup_tick due init now =
    (let s = deepcopy init;
         upd = update_workers (wakeup_worker due now) (sort_key fst (workers s)) (workers s)
     in (s\<lparr>workers := fst upd\<rparr>, snd upd))"

definition process_waiter_timeout_tick ::
  "step_id \<Rightarrow> string \<Rightarrow> broker_state \<Rightarrow> real \<Rightarrow> broker_state \<times> command list"
where
  "process_waiter_timeout_tick sid waiter_id init now =
    (let s = deepcopy init; step_name = root_step_key sid in
     case dget (workers s) step_name of
       None \<Rightarrow> (s, [])
     | Some ws \<Rightarrow>
         (case find_index (\<lambda>w. w_waiter_id w = waiter_id) (ws_collected_waiters ws) of
            None \<Rightarrow> (s, [])
          | Some i \<Rightarrow>
              (let w = ws_collected_waiters ws ! i in
               if w_resolved_event w \<noteq> None then (s, [])
               else
                 (let ws1 = ws\<lparr>ws_collected_waiters :=
                              (ws_collected_waiters ws)[i := w\<lparr>w_timed_out := True\<rparr>]\<rparr>;
                      out = add_or_enqueue_event (resume_attempt w) sid ws1 now
                  in (s\<lparr>workers := dset step_name (fst out) (workers s)\<rparr>, snd out)))))"

definition process_idle_check_tick :: "broker_state \<Rightarrow> broker_state \<times> command list" where
  "process_idle_check_tick init =
    (if check_idle_state init then
       (case detect_stuck_streams init of
          Some (stuck_step, stuck_error) \<Rightarrow>
            ((deepcopy init)\<lparr>is_running := False\<rparr>,
             [CommandPublishEvent (WorkflowFailedEvent stuck_step stuck_error None None),
              CommandFailWorkflow (StepId_root stuck_step) stuck_error])
        | None \<Rightarrow> (init, [CommandPublishEvent WorkflowIdleEvent]))
     else (init, []))"

definition with_idle_check :: "broker_state \<times> command list \<Rightarrow> broker_state \<times> command list" where
  "with_idle_check out =
    (if check_idle_state (fst out) then (fst out, snd out @ [CommandScheduleIdleCheck]) else out)"

fun reduce_tick ::
  "tick \<Rightarrow> broker_state \<Rightarrow> real \<Rightarrow> string option \<Rightarrow> (broker_state \<times> command list) res"
where
  "reduce_tick (TickStepResult t) init now run_id =
     map_sum id with_idle_check (process_step_result_tick t init now run_id)"
| "reduce_tick (TickAddEvent t) init now run_id =
     map_sum id with_idle_check (process_add_event_tick t init now)"
| "reduce_tick TickCancelRun init now run_id = Inr (with_idle_check (process_cancel_run_tick init))"
| "reduce_tick TickIdleRelease init now run_id = Inr (init, [CommandCompleteRun IdleReleasedEvent])"
| "reduce_tick (TickPublishEvent ev) init now run_id =
     Inr (with_idle_check (process_publish_event_tick ev init))"
| "reduce_tick (TickTimeout t) init now run_id = Inr (with_idle_check (process_timeout_tick t init))"
| "reduce_tick (TickWaiterTimeout sid wid) init now run_id =
     Inr (with_idle_check (process_waiter_timeout_tick sid wid init now))"
| "reduce_tick TickIdleCheck init now run_id = Inr (process_idle_check_tick init)"
| "reduce_tick (TickWakeup due) init now run_id =
     Inr (with_idle_check (process_wakeup_tick due init now))"

text \<open>
  Replay. \<open>time.time()\<close> is read once per tick: the clock values are an argument, paired with the
  ticks.
\<close>

fun last_exit :: "command option \<Rightarrow> command list \<Rightarrow> command option" where
  "last_exit e [] = e"
| "last_exit e (c # cs) = last_exit (if indicates_exit c then Some c else e) cs"

fun replay_loop ::
  "(tick \<times> real) list \<Rightarrow> broker_state \<Rightarrow> string option \<Rightarrow> command option \<Rightarrow>
   (broker_state \<times> command option) res"
where
  "replay_loop [] s run_id e = Inr (s, e)"
| "replay_loop ((t, now) # ts) s run_id e =
    (case reduce_tick t s now run_id of
       Inl err \<Rightarrow> Inl err
     | Inr (s', cmds) \<Rightarrow> replay_loop ts s' run_id (last_exit e cmds))"

definition replay_ticks_stream ::
  "broker_state \<Rightarrow> real \<Rightarrow> (tick \<times> real) list \<Rightarrow> string option \<Rightarrow> (broker_state \<times> command option) res"
where
  "replay_ticks_stream s t0 ticks run_id = replay_loop ticks (fst (rewind_in_progress s t0)) run_id None"

fun rebuild_loop :: "(tick \<times> real) list \<Rightarrow> broker_state \<Rightarrow> string option \<Rightarrow> broker_state res" where
  "rebuild_loop [] s run_id = Inr s"
| "rebuild_loop ((t, now) # ts) s run_id =
    (case reduce_tick t s now run_id of
       Inl err \<Rightarrow> Inl err
     | Inr (s', cmds) \<Rightarrow> rebuild_loop ts s' run_id)"

definition rebuild_state_from_ticks ::
  "broker_state \<Rightarrow> real \<Rightarrow> (tick \<times> real) list \<Rightarrow> string option \<Rightarrow> broker_state res"
where
  "rebuild_state_from_ticks s t0 ticks run_id = rebuild_loop ticks (fst (rewind_in_progress s t0)) run_id"

section \<open>Frame facts\<close>

lemma with_idle_check_fst [simp]: "fst (with_idle_check out) = fst out"
  by (simp add: with_idle_check_def)

end
