(* ===== verification/Invariants.thy ===== *)
theory Invariants
  imports Reduce
begin

text \<open>
  Invariants of the control loop's state under every tick. A property of one worker pool that meets
  the contract \<open>pool_contract\<close> is kept by every handler that dispatches, edits buffers and drains;
  the contract is met by the pool invariant (worker ids distinct and within capacity) and by work
  conservation (no free slot beside an eligible attempt). The step-result handler, which also
  frees the finished execution's slot, is treated separately.
\<close>

section \<open>States whose worker pools keep a property\<close>

text \<open>
  \<open>s'\<close> has the configuration and steps of \<open>s\<close>, each with its step configuration, and every pool
  outside \<open>X\<close> that had property \<open>I\<close> still has it.
\<close>

definition keeps :: "(worker_state \<Rightarrow> bool) \<Rightarrow> string set \<Rightarrow> broker_state \<Rightarrow> broker_state \<Rightarrow> bool" where
  "keeps I X s s' \<longleftrightarrow> config s' = config s \<and> dkeys (workers s') = dkeys (workers s) \<and>
     (\<forall>n w. dget (workers s) n = Some w \<longrightarrow>
        (\<exists>w'. dget (workers s') n = Some w' \<and> ws_config w' = ws_config w \<and> (n \<notin> X \<longrightarrow> I w \<longrightarrow> I w')))"

lemma keeps_refl [simp]: "keeps I X s s"
  by (simp add: keeps_def)

lemma keeps_trans: "keeps I X s t \<Longrightarrow> keeps I X t u \<Longrightarrow> keeps I X s u"
  unfolding keeps_def by (metis (no_types, lifting))

lemma keeps_mono: "keeps I X s t \<Longrightarrow> X \<subseteq> Y \<Longrightarrow> keeps I Y s t"
  unfolding keeps_def by blast

lemma keeps_dget:
  assumes "keeps I X s s'" and "dget (workers s) n = Some w"
  obtains w' where "dget (workers s') n = Some w'" and "ws_config w' = ws_config w"
    and "n \<notin> X \<Longrightarrow> I w \<Longrightarrow> I w'"
  using assms unfolding keeps_def by blast

lemma keeps_cong: "workers s' = workers s \<Longrightarrow> config s' = config s \<Longrightarrow> keeps I X s s'"
  by (simp add: keeps_def)

lemma keeps_dset:
  assumes "dget (workers s) n = Some w" and "ws_config w' = ws_config w"
    and "n \<notin> X \<Longrightarrow> I w \<Longrightarrow> I w'"
  shows "keeps I X s (s\<lparr>workers := dset n w' (workers s)\<rparr>)"
  using assms by (auto simp: keeps_def)

lemma keeps_map:
  assumes "\<And>w. ws_config (f w) = ws_config w" and "\<And>w. I w \<Longrightarrow> I (f w)"
  shows "keeps I X s (s\<lparr>workers := map (\<lambda>(n, w). (n, f w)) (workers s)\<rparr>)"
  using assms by (simp add: keeps_def map_of_map) (simp add: comp_def case_prod_unfold)

text \<open>
  What a property of a pool must satisfy to survive every handler that dispatches, edits buffers
  and drains: it is kept by dispatching; it does not depend on anything but the configuration, the
  worker ids in use and the queue, and survives taking attempts out of the queue; draining any
  queue into the pool re-establishes it.
\<close>

locale pool_contract = pool_invariant +
  assumes shrink: "I w \<Longrightarrow> ws_config w' = ws_config w \<Longrightarrow>
      map ip_worker_id (ws_in_progress w') = map ip_worker_id (ws_in_progress w) \<Longrightarrow>
      set (ws_queue w') \<subseteq> set (ws_queue w) \<Longrightarrow> I w'"
    and drained: "I w \<Longrightarrow> ws_config w' = ws_config w \<Longrightarrow>
      map ip_worker_id (ws_in_progress w') = map ip_worker_id (ws_in_progress w) \<Longrightarrow> delays w' \<subseteq> delays w \<Longrightarrow>
      I (fst (drain_eligible_queue sid w' now))"
begin

lemma evolve_keeps:
  assumes "workers_evolve s s'" shows "keeps I X s s'"
proof -
  have "\<exists>w'. dget (workers s') n = Some w' \<and> ws_config w' = ws_config w \<and> (n \<notin> X \<longrightarrow> I w \<longrightarrow> I w')"
    if "dget (workers s) n = Some w" for n w
    using workers_evolve_dget [OF assms that] dispatched_frame(1) dispatched_keeps by metis
  with workers_evolve_fields [OF assms] show ?thesis by (simp add: keeps_def)
qed

lemma deepcopy_keeps: "keeps I X s (deepcopy s)"
  unfolding deepcopy_def by (rule keeps_map) (auto intro: shrink)

lemma dispatch_into_keeps:
  assumes "dget (workers s) n = Some w" and "ws_config w1 = ws_config w"
    and "map ip_worker_id (ws_in_progress w1) = map ip_worker_id (ws_in_progress w)"
    and "set (ws_queue w1) \<subseteq> set (ws_queue w)" and "is_eligible a"
  shows "keeps I X s (s\<lparr>workers := dset n (fst (add_or_enqueue_event a sid w1 now)) (workers s)\<rparr>)"
  using assms by (auto intro!: keeps_dset [of s n w] intro: dispatch_keeps shrink)

lemma redeliver_keeps:
  "redeliver_collection_payload tick s now = Inr (Some (s', cmds)) \<Longrightarrow> keeps I X s s'"
  by (auto simp: redeliver_collection_payload_def Let_def split: option.splits
      intro!: dispatch_into_keeps)

lemma resolve_waiters_at_keeps:
  "I ws \<Longrightarrow> I (fst (resolve_waiters_at is ev allow sid ws now))"
proof (induction "is" arbitrary: ws)
  case (Cons i "is")
  have "I (ws\<lparr>ws_collected_waiters := x\<rparr>)" for x by (rule shrink [OF Cons.prems]) simp_all
  with Cons show ?case by (simp add: Let_def dispatch_keeps)
qed simp

lemma resolve_waiters_keeps:
  "resolve_waiters steps tick s now = Inr (s', cmds, resolved) \<Longrightarrow> keeps I X s s'"
proof (induction steps tick s now arbitrary: s' cmds resolved rule: resolve_waiters.induct)
  case (2 n cfg steps tick s now)
  let ?ev = "ae_event tick" and ?al = "isc_accept_event_subclasses cfg"
  from "2.prems" obtain ws where ws: "dget (workers s) n = Some ws"
    by (auto split: option.splits)
  let ?out = "resolve_step_waiters ?ev ?al (StepId_root n) ws now"
  let ?s1 = "s\<lparr>workers := dset n (fst ?out) (workers s)\<rparr>"
  have k: "keeps I X s ?s1"
    using ws by (rule keeps_dset) (simp_all add: resolve_step_waiters_def resolve_waiters_at_keeps)
  from "2.prems" ws obtain s2 c2 r2 where r: "resolve_waiters steps tick ?s1 now = Inr (s2, c2, r2)"
    and "s' = s2" by (auto simp: Let_def split: sum.splits)
  with "2.IH" [OF ws refl r] k show ?case by (auto intro: keeps_trans)
qed simp

lemma buffer_member_keeps:
  assumes "dget (workers s) n = Some ws"
  shows "keeps I X s (fst (buffer_member ev sid stack b n s ws now))"
proof -
  have "keeps I X s s1" if "workers s1 = dset n (fst (add_or_enqueue_event a sid' ws now)) (workers s)"
    and "config s1 = config s" and "is_eligible a" for s1 a sid'
    using dispatch_into_keeps [OF assms refl refl _ that(3), of X sid' now] that by (simp add: keeps_def)
  then show ?thesis
    by (auto simp: buffer_member_def Let_def fire_collection_release_def split: option.splits
        intro!: keeps_cong)
qed

lemma route_member_keeps:
  assumes "dget (workers s) n = Some ws"
  shows "keeps I X s (fst (route_member_to_collect_step tick s n ws now))"
proof -
  have "keeps I X s (fst (adjust_open_work_items (fst (buffer_member ev sid stack b n s ws now)) x d now))"
    for ev sid stack b x d
    using buffer_member_keeps [OF assms] evolve_keeps [OF adjust_open_work_items_evolve]
    by (rule keeps_trans)
  then show ?thesis
    by (auto simp: route_member_to_collect_step_def Let_def split: option.splits
        intro: keeps_cong evolve_keeps adjust_open_work_items_evolve)
qed

lemma route_to_step_keeps:
  assumes "dget (workers s) n = Some ws"
  shows "keeps I X s (fst (route_to_step tick s n ws now))"
proof -
  let ?w = "fst (bound_events_for tick (consume_superseded_delayed_attempt tick ws))"
  have w: "ws_config ?w = ws_config ws" "ws_in_progress ?w = ws_in_progress ws"
    "set (ws_queue ?w) \<subseteq> set (ws_queue ws)"
    using consume_superseded_queue [of tick ws] by simp_all
  have "keeps I X s (s\<lparr>workers := dset n ?w (workers s)\<rparr>)"
    using assms w(1) by (rule keeps_dset) (rule shrink [where w = ws], use w in simp_all)
  then have a: "keeps I X s (fst (adjust_open_work_items (s\<lparr>workers := dset n ?w (workers s)\<rparr>) x d now))" for x d
    using evolve_keeps [OF adjust_open_work_items_evolve] by (rule keeps_trans)
  have "keeps I X s (s\<lparr>workers := dset n (fst (add_or_enqueue_event a sid ?w now)) (workers s)\<rparr>)" if "is_eligible a" for a sid
    using assms w that by (intro dispatch_into_keeps) simp_all
  with a show ?thesis by (simp add: route_to_step_def Let_def)
qed

lemma route_to_accepting_steps_keeps:
  "route_to_accepting_steps steps tick resolved now (s, r) = Inr (s', r') \<Longrightarrow> keeps I X s s'"
proof (induction steps arbitrary: s r)
  case (Cons step steps)
  obtain n cfg where step: "step = (n, cfg)" by fastforce
  have adj: "keeps I X s (fst (adjust_open_work_items s x d now))" for x d
    by (rule evolve_keeps [OF adjust_open_work_items_evolve])
  have onwards: "route_to_accepting_steps steps tick resolved now (t, q) = Inr (s', r') \<Longrightarrow>
      keeps I X s t \<Longrightarrow> keeps I X s s'" for t q
    using Cons.IH keeps_trans by blast
  show ?case
  proof (cases "n \<in> set resolved \<or> \<not> step_receives tick n cfg")
    case True
    with Cons.prems adj show ?thesis
      by (auto simp: step Let_def split: if_splits intro: onwards Cons.IH)
  next
    case False
    with Cons.prems obtain ws where ws: "dget (workers s) n = Some ws"
      by (auto simp: step split: option.splits)
    have "keeps I X s (fst (route_member_to_collect_step tick s n ws now))"
      "keeps I X s (fst (route_to_step tick s n ws now))"
      using ws by (auto intro: route_member_keeps route_to_step_keeps)
    with Cons.prems False ws show ?thesis
      by (auto simp: step Let_def simp del: not_None_eq split: if_splits intro: onwards)
  qed
qed simp

lemma process_add_event_keeps:
  assumes "process_add_event_tick tick s now = Inr (s', cmds)"
  shows "keeps I X s s'"
proof -
  let ?a = "assign_work_item_id tick (deepcopy s)"
  let ?s1 = "if isinstance (ae_event (snd ?a)) StartEventT then (fst ?a)\<lparr>is_running := True\<rparr> else fst ?a"
  have "keeps I X (deepcopy s) ?s1"
    by (rule keeps_cong) (auto simp: assign_work_item_id_def next_work_item_id_def Let_def split: option.splits)
  with deepcopy_keeps have k: "keeps I X s ?s1" by (rule keeps_trans)
  from assms have "keeps I X ?s1 s'"
    by (auto simp: process_add_event_tick_def route_added_event_def Let_def
        split: sum.splits option.splits if_splits prod.splits
        dest!: redeliver_keeps resolve_waiters_keeps route_to_accepting_steps_keeps
        intro: keeps_trans)
  with k show ?thesis by (rule keeps_trans)
qed

lemma wakeup_keeps:
  assumes "distinct (dkeys (workers s))"
  shows "keeps I X s (fst (process_wakeup_tick due s now))"
proof -
  have "I (fst (wakeup_worker due now n (worker_deepcopy w)))" if "I w" for n w
    unfolding wakeup_worker_def by (rule drained [OF that]) (auto simp: delays_def flip_due_def split: if_splits option.splits)
  then show ?thesis
    using assms by (auto simp: keeps_def process_wakeup_tick_def Let_def dkeys_update_sorted
        dget_update_sorted wakeup_worker_def)
qed

lemma waiter_timeout_keeps: "keeps I X s (fst (process_waiter_timeout_tick sid wid s now))"
proof -
  have "keeps I X (deepcopy s) (fst (process_waiter_timeout_tick sid wid s now))"
    by (auto simp: process_waiter_timeout_tick_def Let_def simp del: find_index_None
        split: option.splits intro!: dispatch_into_keeps)
  with deepcopy_keeps show ?thesis by (rule keeps_trans)
qed

text \<open>Every tick but a step result.\<close>

lemma reduce_tick_keeps:
  assumes "reduce_tick t s now run_id = Inr (s', cmds)" and "distinct (dkeys (workers s))"
    and "\<And>r. t \<noteq> TickStepResult r"
  shows "keeps I X s s'"
proof -
  have cong: "keeps I X s s1" if "workers s1 = workers (deepcopy s)" "config s1 = config s" for s1
    using deepcopy_keeps [of X s] that by (simp add: keeps_def)
  show ?thesis
  proof (cases t)
    case (TickStepResult r)
    with assms(3) show ?thesis by blast
  next
    case (TickAddEvent r)
    with assms(1) obtain out where "process_add_event_tick r s now = Inr out" and "s' = fst out"
      by (cases "process_add_event_tick r s now") (auto simp: with_idle_check_def split: if_splits)
    then show ?thesis using process_add_event_keeps [of r s now] by (cases out) simp
  next
    case (TickWakeup due)
    with assms(1) have "s' = fst (process_wakeup_tick due s now)" by (auto dest: arg_cong [where f = fst])
    with wakeup_keeps [OF assms(2)] show ?thesis by simp
  next
    case (TickWaiterTimeout sid wid)
    with assms(1) have "s' = fst (process_waiter_timeout_tick sid wid s now)" by (auto dest: arg_cong [where f = fst])
    with waiter_timeout_keeps show ?thesis by simp
  qed (use assms(1) in \<open>auto simp: process_cancel_run_tick_def process_publish_event_tick_def
      process_timeout_tick_def process_idle_check_tick_def clear_collection_state_def with_idle_check_def
      split: if_splits option.splits intro: cong\<close>)
qed

end

interpretation ok: pool_contract worker_ok
  by unfold_locales (blast intro: worker_ok_cong drain_worker_ok)+

interpretation conserving: pool_contract work_conserving
proof unfold_locales
  show "work_conserving w'" if "work_conserving w" "ws_config w' = ws_config w"
    "map ip_worker_id (ws_in_progress w') = map ip_worker_id (ws_in_progress w)"
    "set (ws_queue w') \<subseteq> set (ws_queue w)" for w w'
    using that map_eq_imp_length_eq [OF that(3)] by (auto simp: work_conserving_def)
qed (rule drain_work_conserving)

section \<open>Step results\<close>

lemma keeps_modify_worker:
  assumes "\<And>w. ws_config (f w) = ws_config w" and "\<And>w. n \<notin> X \<Longrightarrow> I w \<Longrightarrow> I (f w)"
  shows "keeps I X s (modify_worker n f s)"
  using assms by (auto simp: modify_worker_def split: option.splits intro: keeps_dset)

lemma schedule_retry_keeps:
  assumes "\<And>w w'. root_step_key (sr_step_id tick) \<notin> X \<Longrightarrow> I w \<Longrightarrow> ws_config w' = ws_config w \<Longrightarrow>
      map ip_worker_id (ws_in_progress w') = map ip_worker_id (ws_in_progress w) \<Longrightarrow> I w'"
  shows "keeps I X s (fst (schedule_retry_or_route_failure exc f d fa tick s ws e acc run_id))"
proof -
  have "keeps I X s (modify_worker (root_step_key (sr_step_id tick)) (\<lambda>w. w\<lparr>ws_queue := a # ws_queue w\<rparr>) s)" for a
    by (rule keeps_modify_worker) (auto intro: assms)
  moreover have "keeps I X s (s\<lparr>is_running := False\<rparr>)" by (rule keeps_cong) simp_all
  ultimately show ?thesis
    by (simp add: schedule_retry_or_route_failure_def Let_def split: option.splits)
qed

text \<open>
  Applying results edits the pool of the finished step and, on a stop event, clears every pool.
\<close>

lemma apply_step_result_keeps:
  assumes "apply_step_result r tick scope did run_id (s, e, acc) = Inr (s', e', acc')"
    and n: "\<And>w w'. root_step_key (sr_step_id tick) \<notin> X \<Longrightarrow> I w \<Longrightarrow> ws_config w' = ws_config w \<Longrightarrow>
      map ip_worker_id (ws_in_progress w') = map ip_worker_id (ws_in_progress w) \<Longrightarrow> I w'"
    and clear: "\<And>w. I w \<Longrightarrow> I (clear_worker w)"
  shows "keeps I X s s'"
proof (cases r)
  case (StepWorkerResult res fanned)
  have "keeps I X s (clear_collection_state (clear_workers (s\<lparr>is_running := False\<rparr>)))"
    using keeps_map [of clear_worker I X s] clear
    by (simp add: keeps_def clear_collection_state_def clear_workers_def)
  with assms(1) StepWorkerResult show ?thesis by (auto simp: Let_def split: option.splits if_splits)
next
  case (StepWorkerFailed exc failed_at decision first_at)
  have "keeps I X s (fst (schedule_retry_or_route_failure exc f d fa tick s ws e acc run_id))" for f d fa ws
    by (rule schedule_retry_keeps) (fact n)
  with assms(1) StepWorkerFailed show ?thesis by (auto simp: Let_def split: option.splits)
qed (use assms(1) in \<open>auto simp: Let_def simp del: find_index_None split: option.splits if_splits
      intro!: keeps_dset intro: n\<close>)

lemma apply_step_results_keeps:
  assumes "apply_step_results rs tick scope did run_id (s, e, acc) = Inr (s', e', acc')"
    and n: "\<And>w w'. root_step_key (sr_step_id tick) \<notin> X \<Longrightarrow> I w \<Longrightarrow> ws_config w' = ws_config w \<Longrightarrow>
      map ip_worker_id (ws_in_progress w') = map ip_worker_id (ws_in_progress w) \<Longrightarrow> I w'"
    and clear: "\<And>w. I w \<Longrightarrow> I (clear_worker w)"
  shows "keeps I X s s'"
  using assms(1)
proof (induction rs arbitrary: s e acc)
  case (Cons r rs)
  then obtain t e1 acc1 where t: "apply_step_result r tick scope did run_id (s, e, acc) = Inr (t, e1, acc1)"
    and "apply_step_results rs tick scope did run_id (t, e1, acc1) = Inr (s', e', acc')"
    by (auto split: sum.splits)
  with Cons.IH have "keeps I X t s'" by blast
  moreover have "keeps I X s t"
    by (rule apply_step_result_keeps [where I = I and X = X, OF t]) (fact n clear)+
  ultimately show ?case by (blast intro: keeps_trans)
qed simp

lemma worker_ok_finish: "worker_ok w \<Longrightarrow> worker_ok (finish_execution wid w)"
  using set_remove_first [of "\<lambda>x. ip_worker_id x = wid" "ws_in_progress w"]
  by (auto simp: worker_ok_def finish_execution_def)

lemma drain_worker_keeps:
  assumes "\<And>w. root_step_key sid \<notin> X \<Longrightarrow> I w \<Longrightarrow> I (fst (drain_eligible_queue sid w now))"
  shows "keeps I X s (fst (drain_worker sid s now))"
  using assms by (auto simp: drain_worker_def Let_def split: option.splits intro!: keeps_dset)

lemma finalize_keeps:
  assumes "\<And>w. root_step_key (sr_step_id tick) \<notin> X \<Longrightarrow> I w \<Longrightarrow>
      I (fst (drain_eligible_queue (sr_step_id tick) w now)) \<and> I (finish_execution (sr_worker_id tick) w)"
  shows "keeps I X s (fst (finalize_step_result tick s acc cmds now))"
proof -
  let ?f = "modify_worker (root_step_key (sr_step_id tick)) (finish_execution (sr_worker_id tick)) s"
  have f: "keeps I X s ?f" using assms by (intro keeps_modify_worker) auto
  have d: "keeps I X t (fst (drain_worker (sr_step_id tick) t now))" for t
    using assms by (intro drain_worker_keeps) blast
  from f d [of s] d [of ?f] show ?thesis
    by (auto simp: finalize_step_result_def Let_def intro: keeps_trans)
qed

text \<open>The part of the handler up to its finalisation.\<close>

lemma process_step_result_worker_ok:
  assumes "process_step_result_tick tick s now run_id = Inr (s', cmds)"
  shows "keeps worker_ok X s s'"
  using assms
proof (cases rule: process_step_result_cases)
  case (rerun ws e)
  have "keeps worker_ok X (deepcopy s) s'"
    unfolding rerun(4) by (rule keeps_modify_worker) (auto intro: ok.shrink)
  with ok.deepcopy_keeps show ?thesis by (rule keeps_trans)
next
  case (applied ws e scoped s2 e2 acc s3 stream_cmds)
  have "keeps worker_ok X (deepcopy s) (fst scoped)"
    unfolding applied(4) by (rule keeps_cong) simp_all
  moreover have "keeps worker_ok X (fst scoped) s2"
    using applied(5) by (rule apply_step_results_keeps) (auto intro: worker_ok_cong simp: worker_ok_def [of "clear_worker _"])
  moreover have "keeps worker_ok X s2 s3"
    using applied(6) by (intro ok.evolve_keeps) (rule resolve_work_item_evolve)
  moreover have "keeps worker_ok X s3 s'"
    using finalize_keeps [of tick X worker_ok now s3] applied(7) [THEN arg_cong [where f = fst]]
    by (auto intro: worker_ok_finish drain_worker_ok)
  ultimately show ?thesis using ok.deepcopy_keeps keeps_trans by metis
qed

lemma keeps_established:
  assumes "keeps I {n} s s'" and "\<And>w. dget (workers s') n = Some w \<Longrightarrow> I w"
  shows "keeps I {} s s'"
  using assms unfolding keeps_def by (metis empty_iff singletonD)

lemma process_step_result_work_conserving:
  assumes "process_step_result_tick tick s now run_id = Inr (s', cmds)"
    and "\<not> list_ex indicates_exit cmds"
  shows "keeps work_conserving {} s s'"
  using assms(1)
proof (cases rule: process_step_result_cases)
  case (rerun ws e)
  have "keeps work_conserving {} (deepcopy s) s'"
    unfolding rerun(4) by (rule keeps_modify_worker) (auto intro: conserving.shrink)
  with conserving.deepcopy_keeps show ?thesis by (rule keeps_trans)
next
  case (applied ws e scoped s2 e2 acc s3 stream_cmds)
  let ?n = "root_step_key (sr_step_id tick)"
  have "keeps work_conserving {?n} (deepcopy s) (fst scoped)"
    unfolding applied(4) by (rule keeps_cong) simp_all
  moreover have "keeps work_conserving {?n} (fst scoped) s2"
    using applied(5) by (rule apply_step_results_keeps) (auto simp: work_conserving_def)
  moreover have "keeps work_conserving {?n} s2 s3"
    using applied(6) by (intro conserving.evolve_keeps) (rule resolve_work_item_evolve)
  moreover have "keeps work_conserving {?n} s3 s'"
    using finalize_keeps [of tick "{?n}" work_conserving now s3] applied(7) [THEN arg_cong [where f = fst]]
    by auto
  ultimately have k: "keeps work_conserving {?n} s s'" using conserving.deepcopy_keeps keeps_trans by metis
  from applied(7) assms(2) obtain t where t: "s' = fst (drain_worker (sr_step_id tick) t now)"
    by (rule finalize_drained)
  have "work_conserving w" if "dget (workers s') ?n = Some w" for w
    using that by (auto simp: t drain_worker_def Let_def drain_work_conserving split: option.splits)
  with k show ?thesis by (rule keeps_established)
qed

section \<open>The state invariant\<close>

definition binding_ok :: "broker_state \<Rightarrow> collection_binding \<Rightarrow> bool" where
  "binding_ok s b \<longleftrightarrow> dget (workers s) (cb_target_step b) \<noteq> None"

definition step_config_matches :: "internal_step_config \<Rightarrow> step_config \<Rightarrow> bool" where
  "step_config_matches ic sc \<longleftrightarrow> isc_accepted_events ic = accepted_events sc \<and>
     isc_num_workers ic = num_workers sc \<and>
     isc_accept_event_subclasses ic = accept_event_subclasses sc"

definition state_ok :: "broker_state \<Rightarrow> bool" where
  "state_ok s \<longleftrightarrow> distinct (dkeys (workers s)) \<and> dkeys (bc_steps (config s)) = dkeys (workers s) \<and>
     list_all (\<lambda>(n, w). worker_ok w \<and>
        (case dget (bc_steps (config s)) n of None \<Rightarrow> False | Some c \<Rightarrow> step_config_matches c (ws_config w)))
       (workers s) \<and>
     list_all (\<lambda>(i, b). binding_ok s b) (bc_collection_bindings (config s))"

definition state_conserving :: "broker_state \<Rightarrow> bool" where
  "state_conserving s \<longleftrightarrow> list_all (\<lambda>(n, w). work_conserving w) (workers s)"

lemma state_ok_pools:
  "state_ok s \<Longrightarrow> distinct (dkeys (workers s))" "state_ok s \<Longrightarrow> list_all (\<lambda>(n, w). worker_ok w) (workers s)"
  by (auto simp: state_ok_def list_all_iff)

lemma keeps_state_ok:
  assumes "keeps worker_ok {} s s'" and "state_ok s"
  shows "state_ok s'"
proof -
  from assms have keys: "config s' = config s" "dkeys (workers s') = dkeys (workers s)"
    "distinct (dkeys (workers s))" by (auto simp: keeps_def state_ok_def)
  have "\<exists>w. dget (workers s) n = Some w \<and> ws_config w' = ws_config w \<and> (worker_ok w \<longrightarrow> worker_ok w')"
    if "dget (workers s') n = Some w'" for n w'
  proof -
    from dget_same_keys [OF keys(2) that] obtain w where w: "dget (workers s) n = Some w" by blast
    from assms(1) w that show ?thesis by (auto elim!: keeps_dget)
  qed
  moreover have "binding_ok s' b = binding_ok s b" for b
    using keys(2) by (simp add: binding_ok_def dget_keys del: not_None_eq)
  ultimately show ?thesis using assms(2) keys
    by (simp add: state_ok_def list_all_dget split: option.splits) fastforce
qed

lemma keeps_state_conserving:
  assumes "keeps work_conserving {} s s'" and "state_conserving s" and "distinct (dkeys (workers s))"
  shows "state_conserving s'"
proof -
  from assms have keys: "dkeys (workers s') = dkeys (workers s)" by (simp add: keeps_def)
  have "work_conserving w'" if "dget (workers s') n = Some w'" for n w'
  proof -
    from dget_same_keys [OF keys that] obtain w where w: "dget (workers s) n = Some w" by blast
    with assms that show ?thesis by (auto elim!: keeps_dget simp: state_conserving_def list_all_dget)
  qed
  with keys assms(3) show ?thesis by (simp add: state_conserving_def list_all_dget)
qed

lemma reduce_tick_worker_ok:
  assumes "reduce_tick t s now run_id = Inr (s', cmds)" and "distinct (dkeys (workers s))"
  shows "keeps worker_ok {} s s'"
proof (cases "\<exists>r. t = TickStepResult r")
  case True
  then obtain r where r: "t = TickStepResult r" by blast
  with assms(1) obtain out where "process_step_result_tick r s now run_id = Inr out" and "s' = fst out"
    by (cases "process_step_result_tick r s now run_id") (auto simp: with_idle_check_def split: if_splits)
  then show ?thesis using process_step_result_worker_ok [of r s now run_id] by (cases out) simp
next
  case False
  with assms show ?thesis by (blast intro: ok.reduce_tick_keeps)
qed

lemma reduce_tick_work_conserving:
  assumes "reduce_tick t s now run_id = Inr (s', cmds)" and "distinct (dkeys (workers s))"
    and "\<not> list_ex indicates_exit cmds"
  shows "keeps work_conserving {} s s'"
proof (cases "\<exists>r. t = TickStepResult r")
  case True
  then obtain r where r: "t = TickStepResult r" by blast
  with assms(1) obtain out where "process_step_result_tick r s now run_id = Inr out" and "s' = fst out"
    and "cmds = snd (with_idle_check out)"
    by (cases "process_step_result_tick r s now run_id") (auto dest: arg_cong [where f = fst] arg_cong [where f = snd])
  with assms(3) show ?thesis using process_step_result_work_conserving [of r s now run_id s' "snd out"]
    by (cases out) (auto simp: with_idle_check_def split: if_splits)
next
  case False
  with assms show ?thesis by (blast intro: conserving.reduce_tick_keeps)
qed

section \<open>Which ticks the reducer accepts\<close>

definition results_classifiable :: "step_result list \<Rightarrow> bool" where
  "results_classifiable rs \<longleftrightarrow> list_ex is_result rs \<or> list_ex is_failed rs \<or> list_ex is_add_waiter rs \<or>
     list_all is_add_collected rs"

fun tick_ok :: "broker_state \<Rightarrow> tick \<Rightarrow> bool" where
  "tick_ok s (TickStepResult t) =
     ((case dget (workers s) (root_step_key (sr_step_id t)) of
         None \<Rightarrow> False
       | Some w \<Rightarrow> list_ex (\<lambda>e. ip_worker_id e = sr_worker_id t) (ws_in_progress w)) \<and>
      results_classifiable (sr_result t))"
| "tick_ok s (TickAddEvent t) =
     (case ae_payload t of
        None \<Rightarrow> True
      | Some p \<Rightarrow> dget (bc_collection_bindings (config s)) (rp_binding_id p) \<noteq> None)"
| "tick_ok s _ = True"

lemma schedule_retry_redelivers:
  "acc_redelivery_scheduled (snd (schedule_retry_or_route_failure exc f d fa tick s ws e acc run_id)) \<or>
   list_ex indicates_exit (acc_commands (snd (schedule_retry_or_route_failure exc f d fa tick s ws e acc run_id)))"
  by (simp add: schedule_retry_or_route_failure_def Let_def acc_emit_def split: option.splits prod.splits)

lemma schedule_retry_mono:
  "\<exists>new. acc_commands (snd (schedule_retry_or_route_failure exc f d fa tick s ws e acc run_id)) =
     acc_commands acc @ new"
  "acc_redelivery_scheduled acc \<Longrightarrow>
     acc_redelivery_scheduled (snd (schedule_retry_or_route_failure exc f d fa tick s ws e acc run_id))"
  by (simp_all add: schedule_retry_or_route_failure_def Let_def acc_emit_def split: option.splits prod.splits)

lemma apply_step_result_mono:
  assumes "apply_step_result r tick scope did run_id (s, e, acc) = Inr (s', e', acc')"
  shows "(\<exists>new. acc_commands acc' = acc_commands acc @ new) \<and>
    (acc_redelivery_scheduled acc \<longrightarrow> acc_redelivery_scheduled acc')"
proof (cases r)
  case (StepWorkerFailed exc f d fa)
  with assms schedule_retry_mono show ?thesis by (auto simp: Let_def split: option.splits)
qed (use assms in \<open>auto simp: Let_def acc_emit_def simp del: find_index_None
      split: option.splits if_splits\<close>)

lemma apply_step_results_mono:
  assumes "apply_step_results rs tick scope did run_id (s, e, acc) = Inr (s', e', acc')"
  shows "(\<exists>new. acc_commands acc' = acc_commands acc @ new) \<and>
    (acc_redelivery_scheduled acc \<longrightarrow> acc_redelivery_scheduled acc')"
  using assms
proof (induction rs arbitrary: s e acc)
  case (Cons r rs)
  then obtain t e1 acc1 where t: "apply_step_result r tick scope did run_id (s, e, acc) = Inr (t, e1, acc1)"
    and "apply_step_results rs tick scope did run_id (t, e1, acc1) = Inr (s', e', acc')"
    by (auto split: sum.splits)
  with Cons.IH [of t e1 acc1] apply_step_result_mono [OF t] show ?case by force
qed simp

lemma apply_step_results_failed:
  assumes "apply_step_results rs tick scope did run_id (s, e, acc) = Inr (s', e', acc')"
    and "list_ex is_failed rs"
  shows "acc_redelivery_scheduled acc' \<or> list_ex indicates_exit (acc_commands acc')"
  using assms
proof (induction rs arbitrary: s e acc)
  case (Cons r rs)
  then obtain t e1 acc1 where t: "apply_step_result r tick scope did run_id (s, e, acc) = Inr (t, e1, acc1)"
    and u: "apply_step_results rs tick scope did run_id (t, e1, acc1) = Inr (s', e', acc')"
    by (auto split: sum.splits)
  show ?case
  proof (cases "is_failed r")
    case True
    then obtain exc f d fa where r: "r = StepWorkerFailed exc f d fa" by (cases r) auto
    with t have "acc_redelivery_scheduled acc1 \<or> list_ex indicates_exit (acc_commands acc1)"
      using schedule_retry_redelivers [of exc f d fa tick s _ e acc run_id]
      by (auto simp: Let_def split: option.splits)
    with apply_step_results_mono [OF u] show ?thesis by auto
  next
    case False
    with Cons.prems Cons.IH [OF u] show ?thesis by simp
  qed
qed simp

lemma apply_step_result_total:
  assumes "dget (workers s) (root_step_key (sr_step_id tick)) \<noteq> None"
  shows "\<exists>s' e' acc'. apply_step_result r tick scope did run_id (s, e, acc) = Inr (s', e', acc')"
  using assms by (cases r) (auto simp: Let_def simp del: find_index_None split: option.splits)

lemma apply_step_results_total:
  assumes "dget (workers s) (root_step_key (sr_step_id tick)) \<noteq> None"
  shows "\<exists>s' e' acc'. apply_step_results rs tick scope did run_id (s, e, acc) = Inr (s', e', acc')"
  using assms
proof (induction rs arbitrary: s e acc)
  case (Cons r rs)
  from apply_step_result_total [OF Cons.prems] obtain t e1 acc1
    where t: "apply_step_result r tick scope did run_id (s, e, acc) = Inr (t, e1, acc1)" by blast
  then have "keeps (\<lambda>w. True) {} s t" by (rule apply_step_result_keeps) simp_all
  with Cons.prems have "dget (workers t) (root_step_key (sr_step_id tick)) \<noteq> None"
    by (simp add: keeps_def dget_keys del: not_None_eq)
  from Cons.IH [OF this] t show ?case by simp
qed simp

lemma classify_total:
  assumes "results_classifiable (sr_result tick)"
    and "list_ex is_failed (sr_result tick) \<Longrightarrow> redelivery \<or> list_ex indicates_exit cmds"
  shows "\<exists>d. classify_work_item tick cmds rerun redelivery fanned = Inr d"
  using assms by (auto simp: classify_work_item_def Let_def results_classifiable_def)

lemma resolve_work_item_total:
  "classify_work_item tick (acc_commands acc) (\<not> acc_step_no_longer_in_progress acc)
     (acc_redelivery_scheduled acc) (fs_fanned_out scope) = Inr d \<Longrightarrow>
   \<exists>out. resolve_work_item_in_stream tick s scope acc now = Inr out"
  by (cases d; cases "fs_fan_out_stream_id scope") (simp_all add: resolve_work_item_in_stream_def Let_def)

lemma process_step_result_total:
  assumes "tick_ok s (TickStepResult tick)"
  shows "\<exists>out. process_step_result_tick tick s now run_id = Inr out"
proof -
  let ?n = "root_step_key (sr_step_id tick)"
  from assms obtain w where w: "dget (workers s) ?n = Some w"
    and run: "list_ex (\<lambda>e. ip_worker_id e = sr_worker_id tick) (ws_in_progress w)"
    and cls: "results_classifiable (sr_result tick)" by (auto split: option.splits)
  from run have "find (\<lambda>e. ip_worker_id e = sr_worker_id tick) (ws_in_progress (worker_deepcopy w)) \<noteq> None"
    by (auto simp: find_None_iff list_ex_iff)
  then obtain e where e: "find_in_progress (worker_deepcopy w) (sr_worker_id tick) = Inr e"
    by (auto simp: find_in_progress_def simp del: worker_deepcopy_simps)
  show ?thesis
  proof (cases "rerun_for_stale_collect_buffer tick (worker_deepcopy w) e")
    case (Some x)
    with w e show ?thesis by (cases x) (simp add: process_step_result_tick_def Let_def)
  next
    case None
    let ?sc = "mk_fan_out_scope (deepcopy s) ?n e (list_ex fanned_out_result (sr_result tick))"
    from w have "dget (workers (fst ?sc)) ?n \<noteq> None" by simp
    from apply_step_results_total [OF this] obtain s2 e2 acc where
      a: "apply_step_results (sr_result tick) tick (snd ?sc) (list_ex is_result (sr_result tick)) run_id
        (fst ?sc, e, new_acc) = Inr (s2, e2, acc)" by blast
    from classify_total [OF cls apply_step_results_failed [OF a]]
    obtain d where "classify_work_item tick (acc_commands acc) (\<not> acc_step_no_longer_in_progress acc)
        (acc_redelivery_scheduled acc) (fs_fanned_out (snd ?sc)) = Inr d" by blast
    then obtain out where "resolve_work_item_in_stream tick s2 (snd ?sc) acc now = Inr out"
      using resolve_work_item_total by blast
    with w e a None show ?thesis by (cases out) (simp add: process_step_result_tick_def Let_def)
  qed
qed

lemma resolve_waiters_total:
  assumes "set (dkeys steps) \<subseteq> set (dkeys (workers s))"
  shows "\<exists>s' cmds resolved. resolve_waiters steps tick s now = Inr (s', cmds, resolved)"
  using assms
proof (induction steps arbitrary: s)
  case (Cons step steps)
  obtain n cfg where step: "step = (n, cfg)" by fastforce
  with Cons.prems obtain ws where ws: "dget (workers s) n = Some ws"
    using dget_keys [of "workers s" n] by auto
  let ?s1 = "s\<lparr>workers := dset n (fst (resolve_step_waiters (ae_event tick)
      (isc_accept_event_subclasses cfg) (StepId_root n) ws now)) (workers s)\<rparr>"
  from Cons.prems ws have "set (dkeys steps) \<subseteq> set (dkeys (workers ?s1))"
    by (simp add: dkeys_dset_existing del: not_None_eq)
  from Cons.IH [OF this] ws step show ?case by (auto simp: Let_def split: sum.splits)
qed simp

lemma route_total:
  assumes "set (dkeys steps) \<subseteq> set (dkeys (workers s))"
  shows "\<exists>s' r'. route_to_accepting_steps steps tick resolved now (s, r) = Inr (s', r')"
  using assms
proof (induction steps arbitrary: s r)
  case (Cons step steps)
  obtain n cfg where step: "step = (n, cfg)" by fastforce
  with Cons.prems obtain ws where ws: "dget (workers s) n = Some ws"
    using dget_keys [of "workers s" n] by auto
  have onwards: "\<exists>s' r'. route_to_accepting_steps steps tick resolved now (t, q) = Inr (s', r')"
    if "keeps worker_ok {} s t" for t q
  proof (rule Cons.IH)
    from that have "dkeys (workers t) = dkeys (workers s)" by (simp add: keeps_def)
    with Cons.prems show "set (dkeys steps) \<subseteq> set (dkeys (workers t))" by (simp only: list.set list.map) blast
  qed
  have "keeps worker_ok {} s (fst (adjust_open_work_items s (innermost_stream tick) (- 1) now))"
    "keeps worker_ok {} s (fst (route_member_to_collect_step tick s n ws now))"
    "keeps worker_ok {} s (fst (route_to_step tick s n ws now))"
    using ws by (auto intro: ok.evolve_keeps adjust_open_work_items_evolve ok.route_member_keeps
        ok.route_to_step_keeps)
  with ws step show ?case
    by (simp add: Let_def onwards)
qed simp

lemma process_add_event_total:
  assumes "state_ok s" and "tick_ok s (TickAddEvent tick)"
  shows "\<exists>out. process_add_event_tick tick s now = Inr out"
proof -
  let ?a = "assign_work_item_id tick (deepcopy s)"
  define s1 where "s1 = (if isinstance (ae_event (snd ?a)) StartEventT then (fst ?a)\<lparr>is_running := True\<rparr> else fst ?a)"
  have s1: "workers s1 = workers (deepcopy s)" "config s1 = config s" "ae_payload (snd ?a) = ae_payload tick"
    by (auto simp: s1_def assign_work_item_id_def next_work_item_id_def Let_def split: option.splits)
  have bind: "dget (workers s1) (cb_target_step b) \<noteq> None"
    if "dget (bc_collection_bindings (config s)) i = Some b" for i b
    using assms(1) map_of_SomeD [OF that] s1 by (auto simp: state_ok_def list_all_iff binding_ok_def)
  have "\<exists>x. redeliver_collection_payload (snd ?a) s1 now = Inr x"
    using assms(2) s1
    by (auto simp: redeliver_collection_payload_def Let_def split: option.splits dest: bind)
  then obtain x where x: "redeliver_collection_payload (snd ?a) s1 now = Inr x" by blast
  have keys: "set (dkeys (bc_steps (config s1))) \<subseteq> set (dkeys (workers s1))"
    using assms(1) s1 by (simp add: state_ok_def)
  from resolve_waiters_total [OF this] obtain s2 cmds resolved
    where r: "resolve_waiters (bc_steps (config s1)) (snd ?a) s1 now = Inr (s2, cmds, resolved)" by blast
  from ok.resolve_waiters_keeps [OF r, of "{}"] keys
  have "set (dkeys (bc_steps (config s2))) \<subseteq> set (dkeys (workers s2))" by (simp add: keeps_def)
  from route_total [OF this, of "snd ?a" resolved now "\<lparr>rr_commands = [], rr_handled = False, rr_failed = False\<rparr>"] r
  have "\<exists>out. route_added_event (snd ?a) s1 now = Inr out"
    by (auto simp: route_added_event_def)
  with x show ?thesis
    unfolding process_add_event_tick_def Let_def s1_def [symmetric] by (cases x) simp_all
qed

lemma reduce_tick_accepts:
  assumes "state_ok s" and "tick_ok s t"
  shows "\<exists>s' cmds. reduce_tick t s now run_id = Inr (s', cmds)"
proof (cases t)
  case (TickStepResult r)
  with process_step_result_total [of s r now run_id] assms(2) show ?thesis
    by (auto simp del: tick_ok.simps)
next
  case (TickAddEvent r)
  with process_add_event_total [of s r now] assms show ?thesis
    by (auto simp del: tick_ok.simps)
qed (auto simp: prod_eq_iff)

section \<open>Replay\<close>

text \<open>The contract of a state property that rewinding establishes or keeps and every tick keeps.\<close>

locale replay_invariant =
  fixes Inv :: "broker_state \<Rightarrow> bool"
  assumes rewind_Inv: "Inv s \<Longrightarrow> Inv (fst (rewind_in_progress s now))"
    and tick_Inv: "Inv s \<Longrightarrow> reduce_tick t s now run_id = Inr (s', cmds) \<Longrightarrow> Inv s'"
begin

lemma rebuild_loop_Inv: "Inv s \<Longrightarrow> rebuild_loop ts s run_id = Inr s' \<Longrightarrow> Inv s'"
proof (induction ts arbitrary: s)
  case (Cons x ts)
  obtain t now where x: "x = (t, now)" by fastforce
  with Cons.prems obtain s1 cmds where r: "reduce_tick t s now run_id = Inr (s1, cmds)"
    and "rebuild_loop ts s1 run_id = Inr s'" by (auto split: sum.splits)
  with Cons.IH tick_Inv [OF Cons.prems(1) r] show ?case by blast
qed simp

lemma rebuild_Inv: "Inv s \<Longrightarrow> rebuild_state_from_ticks s t0 ts run_id = Inr s' \<Longrightarrow> Inv s'"
  unfolding rebuild_state_from_ticks_def using rebuild_loop_Inv rewind_Inv by blast

end

lemma rewind_keeps_worker_ok:
  "distinct (dkeys (workers s)) \<Longrightarrow> keeps worker_ok {} s (fst (rewind_in_progress s now))"
  by (auto simp: keeps_def dget_rewind_in_progress worker_ok_rewind rewind_worker_config)

lemma rewind_state_conserving:
  "distinct (dkeys (workers s)) \<Longrightarrow> state_conserving (fst (rewind_in_progress s now))"
  by (auto simp: state_conserving_def list_all_dget dget_rewind_in_progress work_conserving_rewind)

interpretation replay_ok: replay_invariant state_ok
proof unfold_locales
  show "state_ok (fst (rewind_in_progress s now))" if "state_ok s" for s now
    using keeps_state_ok [OF rewind_keeps_worker_ok] that by (simp add: state_ok_def [of s])
  show "state_ok s'" if "state_ok s" "reduce_tick t s now run_id = Inr (s', cmds)" for s t now run_id s' cmds
    using keeps_state_ok [OF reduce_tick_worker_ok [OF that(2)] that(1)] that(1) by (simp add: state_ok_def [of s])
qed

lemma rebuild_loop_append:
  "rebuild_loop (xs @ ys) s run_id =
    (case rebuild_loop xs s run_id of Inl e \<Rightarrow> Inl e | Inr s' \<Rightarrow> rebuild_loop ys s' run_id)"
  by (induction xs arbitrary: s) (auto split: sum.splits)

lemma replay_loop_state: "map_sum id fst (replay_loop ts s run_id e) = rebuild_loop ts s run_id"
  by (induction ts arbitrary: s e) (auto split: sum.splits)

lemma last_exit_spec: "last_exit e cs = (case filter indicates_exit cs of [] \<Rightarrow> e | xs \<Rightarrow> Some (last xs))"
  by (induction cs arbitrary: e) (simp_all split: list.splits)

text \<open>The initial state of a workflow is well formed when its bindings target its steps.\<close>

lemma from_workflow_ok:
  assumes "distinct (dkeys steps)" and "\<And>i b. (i, b) \<in> set bindings \<Longrightarrow> cb_target_step b \<in> set (dkeys steps)"
  shows "state_ok (from_workflow steps timeout handlers handler_for bindings)"
proof -
  let ?s = "from_workflow steps timeout handlers handler_for bindings"
  have keys: "dkeys (workers ?s) = dkeys steps" "dkeys (bc_steps (config ?s)) = dkeys steps"
    by (simp_all add: from_workflow_def case_prod_unfold comp_def)
  have "dget (workers ?s) (cb_target_step b) \<noteq> None" if "(i, b) \<in> set bindings" for i b
    using assms(2) [OF that] keys(1) by (simp only: dget_keys) simp
  then have bindings: "list_all (\<lambda>(i, b). binding_ok ?s b) (bc_collection_bindings (config ?s))"
    by (auto simp: binding_ok_def list_all_iff from_workflow_def)
  have "worker_ok w \<and> (case dget (bc_steps (config ?s)) n of None \<Rightarrow> False | Some c \<Rightarrow> step_config_matches c (ws_config w))"
    if "(n, w) \<in> set (workers ?s)" for n w
  proof -
    from that obtain c where c: "(n, c) \<in> set steps" and w: "ws_config w = c" "ws_in_progress w = []"
      by (auto simp: from_workflow_def)
    then have "dget steps n = Some c" using assms(1) by simp
    then have "dget (bc_steps (config ?s)) n = Some \<lparr>isc_accepted_events = accepted_events c,
        isc_retry_policy = retry_policy c, isc_num_workers = num_workers c,
        isc_accept_event_subclasses = accept_event_subclasses c\<rparr>"
      by (simp add: from_workflow_def map_of_map)
    with w show ?thesis by (simp add: worker_ok_def step_config_matches_def)
  qed
  with keys assms(1) bindings show ?thesis by (auto simp: state_ok_def list_all_iff)
qed

end
