(* ===== verification/Outcomes.thy ===== *)
theory Outcomes
  imports Invariants
begin

text \<open>
  What particular ticks do: a wakeup releases exactly the due attempts; a failed execution is
  retried, handed to its catch-error handler within the handler's budget, or fails the run; a stop
  event ends the run and leaves nothing behind.
\<close>

section \<open>Wakeups\<close>

lemma set_skip_eligible: "set (skip_eligible k q) \<subseteq> set q"
  by (induction k q rule: skip_eligible.induct) auto

lemma drain_queue_subset: "set (ws_queue (fst (drain_eligible_queue sid w now))) \<subseteq> set (ws_queue w)"
  using drain_spec [of sid w now] set_skip_eligible by metis

lemma flip_due_work [simp]: "work_of_attempt (flip_due due a) = work_of_attempt a"
  by (simp add: flip_due_def work_of_attempt_def split: option.splits)

lemma wakeup_worker_spec:
  "pool_work (fst (wakeup_worker due now n w)) = pool_work w"
  "a \<in> set (ws_queue (fst (wakeup_worker due now n w))) \<Longrightarrow> ea_not_before a = Some t \<Longrightarrow> due < t"
proof -
  show "pool_work (fst (wakeup_worker due now n w)) = pool_work w"
    by (simp add: wakeup_worker_def pool_work_drain) (simp add: pool_work_def multiset.map_comp comp_def)
  assume "a \<in> set (ws_queue (fst (wakeup_worker due now n w)))" and t: "ea_not_before a = Some t"
  then have "a \<in> flip_due due ` set (ws_queue w)"
    unfolding wakeup_worker_def using drain_queue_subset by fastforce
  with t show "due < t" by (auto simp: flip_due_def split: option.splits if_splits)
qed

lemma wakeup_spec:
  assumes "distinct (dkeys (workers s))" and "dget (workers s) n = Some w"
  shows "\<exists>w'. dget (workers (fst (process_wakeup_tick due s now))) n = Some w' \<and>
    pool_work w' = pool_work (worker_deepcopy w) \<and>
    (\<forall>a \<in> set (ws_queue w'). \<forall>t. ea_not_before a = Some t \<longrightarrow> due < t)"
  using assms wakeup_worker_spec
  by (simp add: process_wakeup_tick_def Let_def dget_update_sorted)

section \<open>Outcomes of a finished execution\<close>

lemma find_remove_first:
  "find p xs = Some x \<Longrightarrow> mset xs = add_mset x (mset (remove_first p xs))"
  by (induction xs) (auto split: if_splits)

lemma pool_work_finish:
  assumes "find_in_progress w wid = Inr e"
  shows "pool_work w = add_mset (work_of_execution e) (pool_work (finish_execution wid w))"
proof -
  from assms have "find (\<lambda>x. ip_worker_id x = wid) (ws_in_progress w) = Some e"
    by (auto simp: find_in_progress_def split: option.splits)
  from find_remove_first [OF this] show ?thesis
    by (simp add: pool_work_def finish_execution_def)
qed

lemma modify_worker_dget:
  "dget (workers (modify_worker n f s)) m = (if m = n then map_option f (dget (workers s) n) else dget (workers s) m)"
  by (simp add: modify_worker_def split: option.splits)

lemma modify_worker_frame [simp]:
  "config (modify_worker n f s) = config s" "is_running (modify_worker n f s) = is_running s"
  "streams (modify_worker n f s) = streams s"
  "collection_release_states (modify_worker n f s) = collection_release_states s"
  by (simp_all add: modify_worker_def split: option.splits)

lemma drain_worker_frame [simp]:
  "config (fst (drain_worker sid s now)) = config s" "is_running (fst (drain_worker sid s now)) = is_running s"
  "streams (fst (drain_worker sid s now)) = streams s"
  "collection_release_states (fst (drain_worker sid s now)) = collection_release_states s"
  by (simp_all add: drain_worker_def Let_def split: option.splits)

definition failed_tick :: "step_id \<Rightarrow> nat \<Rightarrow> event \<Rightarrow> exn \<Rightarrow> real \<Rightarrow> real option \<Rightarrow> real option \<Rightarrow> step_result_tick" where
  "failed_tick sid wid ev exc failed_at delay first_at =
    \<lparr>sr_step_id = sid, sr_worker_id = wid, sr_event = ev,
     sr_result = [StepWorkerFailed exc failed_at (Some delay) first_at]\<rparr>"

lemma process_failed_tick:
  assumes "dget (workers s) (root_step_key sid) = Some w"
    and "find_in_progress (worker_deepcopy w) wid = Inr e"
    and "out = schedule_retry_or_route_failure exc failed_at (Some delay) first_at
           (failed_tick sid wid ev exc failed_at delay first_at) (deepcopy s) (worker_deepcopy w) e new_acc run_id"
  shows "process_step_result_tick (failed_tick sid wid ev exc failed_at delay first_at) s now run_id =
    Inr (finalize_step_result (failed_tick sid wid ev exc failed_at delay first_at) (fst out) (snd out)
       (acc_commands (snd out)) now)"
proof -
  let ?t = "failed_tick sid wid ev exc failed_at delay first_at"
  have "classify_work_item ?t (acc_commands (snd out)) (\<not> acc_step_no_longer_in_progress (snd out))
      (acc_redelivery_scheduled (snd out)) False \<in> {Inr STILL_LIVE, Inr RUN_ENDING}"
    using schedule_retry_redelivers [of exc failed_at "Some delay" first_at ?t "deepcopy s" "worker_deepcopy w" e new_acc run_id]
    by (auto simp: assms(3) classify_work_item_def failed_tick_def)
  then have "resolve_work_item_in_stream ?t (fst out) (snd (mk_fan_out_scope (deepcopy s) (root_step_key sid) e False))
      (snd out) now = Inr (fst out, [])"
    by (auto simp: resolve_work_item_in_stream_def mk_fan_out_scope_def Let_def)
  moreover have "fst (mk_fan_out_scope (deepcopy s) (root_step_key sid) e False) = deepcopy s"
    by (simp add: mk_fan_out_scope_def Let_def)
  ultimately show ?thesis
    using assms by (simp add: process_step_result_tick_def rerun_for_stale_collect_buffer_def failed_tick_def Let_def)
qed

text \<open>Freeing the slot and draining, when the run goes on: the pool loses exactly the execution.\<close>

lemma finalize_pool:
  assumes "acc_step_no_longer_in_progress acc" and "\<not> list_ex indicates_exit cmds"
    and "dget (workers s) (root_step_key (sr_step_id tick)) = Some w"
    and "find_in_progress w (sr_worker_id tick) = Inr e"
  shows "\<exists>w'. dget (workers (fst (finalize_step_result tick s acc cmds now))) (root_step_key (sr_step_id tick)) = Some w' \<and>
     work_conserving w' \<and> add_mset (work_of_execution e) (pool_work w') = pool_work w"
  using assms pool_work_finish [OF assms(4)]
  by (simp add: finalize_step_result_def Let_def modify_worker_dget drain_worker_dget pool_work_drain
      drain_work_conserving)

lemma find_in_progress_queue [simp]:
  "find_in_progress (w\<lparr>ws_queue := q\<rparr>) wid = find_in_progress w wid"
  by (simp add: find_in_progress_def)

lemma dispatch_no_exit: "\<not> list_ex indicates_exit (snd (add_or_enqueue_event a sid w now))"
  by (simp add: add_or_enqueue_event_def Let_def)

lemma drain_no_exit: "\<not> list_ex indicates_exit (snd (drain_eligible_queue sid w now))"
  by (rule drain_induct [where P = "\<lambda>st st' cs. \<not> list_ex indicates_exit cs"]) (auto simp: dispatch_no_exit)

lemma drain_worker_no_exit: "\<not> list_ex indicates_exit (snd (drain_worker sid s now))"
  by (simp add: drain_worker_def Let_def drain_no_exit split: option.splits)

lemma skip_eligible_delayed: "a \<in> set q \<Longrightarrow> \<not> is_eligible a \<Longrightarrow> a \<in> set (skip_eligible k q)"
  by (induction k q rule: skip_eligible.induct) auto

lemma drain_keeps_delayed:
  "a \<in> set (ws_queue w) \<Longrightarrow> \<not> is_eligible a \<Longrightarrow> a \<in> set (ws_queue (fst (drain_eligible_queue sid w now)))"
  using drain_spec [of sid w now] skip_eligible_delayed by metis

lemma finalize_keeps_delayed:
  assumes "dget (workers s) (root_step_key (sr_step_id tick)) = Some w" and "a \<in> set (ws_queue w)"
    and "\<not> is_eligible a" and "dget (workers (fst (finalize_step_result tick s acc cmds now))) (root_step_key (sr_step_id tick)) = Some w'"
  shows "a \<in> set (ws_queue w')"
proof -
  have "a \<in> set (ws_queue (finish_execution (sr_worker_id tick) w))" using assms(2) by (simp add: finish_execution_def)
  with assms drain_keeps_delayed show ?thesis
    by (auto simp: finalize_step_result_def Let_def modify_worker_dget drain_worker_dget split: if_splits)
qed

lemma finalize_exit: "list_ex indicates_exit (snd (finalize_step_result tick s acc cmds now)) = list_ex indicates_exit cmds"
  by (auto simp: finalize_step_result_def Let_def not_running_event_def drain_worker_no_exit)

lemma finalize_cmds: "set cmds \<subseteq> set (snd (finalize_step_result tick s acc cmds now))"
  by (auto simp: finalize_step_result_def Let_def)

lemma finalize_frame [simp]:
  "is_running (fst (finalize_step_result tick s acc cmds now)) = is_running s"
  "streams (fst (finalize_step_result tick s acc cmds now)) = streams s"
  "config (fst (finalize_step_result tick s acc cmds now)) = config s"
  by (simp_all add: finalize_step_result_def Let_def)

lemma work_of_retry: "work_of_attempt (retry_attempt e t exc failed_at nb) =
    work_of_execution e \<lparr>wk_attempts := ip_attempts e + 1, wk_last_exception := Some exc, wk_last_failed_at := Some failed_at\<rparr>"
  by (simp add: work_of_attempt_def retry_attempt_def work_of_execution_def nat_or_zero_def)

lemma failed_retry:
  assumes "dget (workers s) (root_step_key sid) = Some w"
    and "find_in_progress (worker_deepcopy w) wid = Inr e"
  obtains s' cmds w' where
    "process_step_result_tick (failed_tick sid wid ev exc failed_at (Some delay) first_at) s now run_id = Inr (s', cmds)"
    "dget (workers s') (root_step_key sid) = Some w'"
    "add_mset (work_of_execution e) (pool_work w') =
      add_mset (work_of_execution e \<lparr>wk_attempts := ip_attempts e + 1, wk_last_exception := Some exc,
        wk_last_failed_at := Some failed_at\<rparr>) (pool_work (worker_deepcopy w))"
    "0 < delay \<Longrightarrow> CommandScheduleWakeup (failed_at + delay) \<in> set cmds \<and>
       (\<exists>a \<in> set (ws_queue w'). ea_not_before a = Some (failed_at + delay) \<and> ea_event a = ip_event e \<and>
          ea_attempts a = Some (ip_attempts e + 1))"
    "is_running s' = is_running s" "streams s' = streams s" "\<not> list_ex indicates_exit cmds"
proof -
  let ?t = "failed_tick sid wid ev exc failed_at (Some delay) first_at"
  let ?fa = "case first_at of Some t \<Rightarrow> t | None \<Rightarrow> ip_first_attempt_at e"
  let ?nb = "if 0 < delay then Some (failed_at + delay) else None"
  let ?a = "retry_attempt e ?fa exc failed_at ?nb"
  define out where "out = schedule_retry_or_route_failure exc failed_at (Some (Some delay)) first_at ?t
      (deepcopy s) (worker_deepcopy w) e new_acc run_id"
  have t: "sr_step_id ?t = sid" "sr_worker_id ?t = wid" by (simp_all add: failed_tick_def)
  have s1: "fst out = modify_worker (root_step_key sid) (\<lambda>w. w\<lparr>ws_queue := ?a # ws_queue w\<rparr>) (deepcopy s)"
    by (simp add: out_def schedule_retry_or_route_failure_def Let_def t)
  have acc: "acc_step_no_longer_in_progress (snd out)" "acc_commands (snd out) =
      (if 0 < delay then [CommandScheduleWakeup (failed_at + delay)] else [])"
    by (simp_all add: out_def schedule_retry_or_route_failure_def Let_def acc_emit_def new_acc_def)
  let ?w1 = "worker_deepcopy w \<lparr>ws_queue := ?a # ws_queue w\<rparr>"
  have w1: "dget (workers (fst out)) (root_step_key (sr_step_id ?t)) = Some ?w1"
    using assms(1) by (simp add: s1 t modify_worker_dget)
  have e1: "find_in_progress ?w1 (sr_worker_id ?t) = Inr e" using assms(2) by (simp add: t)
  let ?fin = "finalize_step_result ?t (fst out) (snd out) (acc_commands (snd out)) now"
  have noexit: "\<not> list_ex indicates_exit (acc_commands (snd out))" by (simp add: acc)
  from finalize_pool [OF acc(1) noexit w1 e1, of now] obtain w' where
    w': "dget (workers (fst ?fin)) (root_step_key (sr_step_id ?t)) = Some w'"
    and pw: "add_mset (work_of_execution e) (pool_work w') = pool_work ?w1" by blast
  show thesis
  proof (rule that)
    show "process_step_result_tick ?t s now run_id = Inr (fst ?fin, snd ?fin)"
      using process_failed_tick [OF assms out_def] by simp
    show "dget (workers (fst ?fin)) (root_step_key sid) = Some w'" using w' by (simp add: t)
    show "add_mset (work_of_execution e) (pool_work w') =
      add_mset (work_of_execution e \<lparr>wk_attempts := ip_attempts e + 1, wk_last_exception := Some exc,
        wk_last_failed_at := Some failed_at\<rparr>) (pool_work (worker_deepcopy w))"
      unfolding pw by (simp add: pool_work_def work_of_retry)
    show "CommandScheduleWakeup (failed_at + delay) \<in> set (snd ?fin) \<and>
       (\<exists>a \<in> set (ws_queue w'). ea_not_before a = Some (failed_at + delay) \<and> ea_event a = ip_event e \<and>
          ea_attempts a = Some (ip_attempts e + 1))" if "0 < delay"
    proof -
      have "?a \<in> set (ws_queue w')"
        using finalize_keeps_delayed [OF w1 _ _ w', of ?a] that by (simp add: retry_attempt_def is_eligible_def)
      with that finalize_cmds [of "acc_commands (snd out)" ?t "fst out" "snd out" now] show ?thesis
        by (auto simp: acc retry_attempt_def intro!: bexI [of _ ?a])
    qed
    show "\<not> list_ex indicates_exit (snd ?fin)" using noexit by (simp add: finalize_exit)
  qed (simp_all add: s1)
qed

text \<open>A failure that is not retried and has a catch-error handler with budget left.\<close>

lemma failed_routed:
  assumes "dget (workers s) (root_step_key sid) = Some w"
    and "find_in_progress (worker_deepcopy w) wid = Inr e"
    and "catch_error_route (config s) (root_step_key sid) e = Some (handler, k)"
  obtains s' cmds w' where
    "process_step_result_tick (failed_tick sid wid ev exc failed_at None first_at) s now run_id = Inr (s', cmds)"
    "dget (workers s') (root_step_key sid) = Some w'"
    "add_mset (work_of_execution e) (pool_work w') = pool_work (worker_deepcopy w)"
    "\<exists>elapsed. CommandQueueEvent (StepFailedEvent (root_step_key sid) ev exc (ip_attempts e + 1) elapsed failed_at)
       (Some (StepId_root handler)) (dset handler k (ip_recovery_counts e)) (ip_scope_path e) \<in> set cmds"
    "is_running s' = is_running s" "streams s' = streams s" "\<not> list_ex indicates_exit cmds"
proof -
  let ?t = "failed_tick sid wid ev exc failed_at None first_at"
  define out where "out = schedule_retry_or_route_failure exc failed_at (Some None) first_at ?t
      (deepcopy s) (worker_deepcopy w) e new_acc run_id"
  have t: "sr_step_id ?t = sid" "sr_worker_id ?t = wid" "sr_event ?t = ev" by (simp_all add: failed_tick_def)
  let ?el = "failed_at - (case first_at of Some t \<Rightarrow> t | None \<Rightarrow> ip_first_attempt_at e)"
  let ?c = "CommandQueueEvent (StepFailedEvent (root_step_key sid) ev exc (ip_attempts e + 1) ?el failed_at)
       (Some (StepId_root handler)) (dset handler k (ip_recovery_counts e)) (ip_scope_path e)"
  have o: "fst out = deepcopy s" "acc_step_no_longer_in_progress (snd out)" "acc_commands (snd out) = [?c]"
    using assms(3) by (simp_all add: out_def schedule_retry_or_route_failure_def Let_def t acc_emit_def
        new_acc_def queue_catch_error_event_def)
  let ?fin = "finalize_step_result ?t (fst out) (snd out) (acc_commands (snd out)) now"
  have w1: "dget (workers (fst out)) (root_step_key (sr_step_id ?t)) = Some (worker_deepcopy w)"
    using assms(1) by (simp add: o t)
  have noexit: "\<not> list_ex indicates_exit (acc_commands (snd out))" by (simp add: o)
  from finalize_pool [OF o(2) noexit w1, of e now] assms(2) obtain w' where
    w': "dget (workers (fst ?fin)) (root_step_key sid) = Some w'"
    and pw: "add_mset (work_of_execution e) (pool_work w') = pool_work (worker_deepcopy w)" by (auto simp: t)
  show thesis
  proof (rule that)
    show "process_step_result_tick ?t s now run_id = Inr (fst ?fin, snd ?fin)"
      using process_failed_tick [OF assms(1,2) out_def] by simp
    show "\<exists>elapsed. CommandQueueEvent (StepFailedEvent (root_step_key sid) ev exc (ip_attempts e + 1) elapsed failed_at)
       (Some (StepId_root handler)) (dset handler k (ip_recovery_counts e)) (ip_scope_path e) \<in> set (snd ?fin)"
      using finalize_cmds [of "acc_commands (snd out)" ?t "fst out" "snd out" now] by (auto simp: o)
    show "\<not> list_ex indicates_exit (snd ?fin)" using noexit by (simp add: finalize_exit)
  qed (use w' pw in \<open>simp_all add: o(1)\<close>)
qed

lemma failed_fatal:
  assumes "dget (workers s) (root_step_key sid) = Some w"
    and "find_in_progress (worker_deepcopy w) wid = Inr e"
    and "catch_error_route (config s) (root_step_key sid) e = None"
  obtains s' elapsed where
    "process_step_result_tick (failed_tick sid wid ev exc failed_at None first_at) s now run_id =
      Inr (s', [CommandPublishEvent (StepStateChanged (root_step_key sid) NOT_RUNNING (nat_to_string wid)
                  (str_type (type_of ev)) None),
                CommandPublishEvent (WorkflowFailedEvent (root_step_key sid) exc (Some (ip_attempts e + 1)) (Some elapsed)),
                CommandFailWorkflow sid exc])"
    "\<not> is_running s'" "\<not> check_idle_state s'"
proof -
  let ?t = "failed_tick sid wid ev exc failed_at None first_at"
  define out where "out = schedule_retry_or_route_failure exc failed_at (Some None) first_at ?t
      (deepcopy s) (worker_deepcopy w) e new_acc run_id"
  have t: "sr_step_id ?t = sid" "sr_worker_id ?t = wid" "sr_event ?t = ev" by (simp_all add: failed_tick_def)
  let ?el = "failed_at - (case first_at of Some t \<Rightarrow> t | None \<Rightarrow> ip_first_attempt_at e)"
  have o: "fst out = (deepcopy s)\<lparr>is_running := False\<rparr>" "acc_step_no_longer_in_progress (snd out)"
    "acc_output_event_name (snd out) = None" "acc_commands (snd out) =
      [CommandPublishEvent (WorkflowFailedEvent (root_step_key sid) exc (Some (ip_attempts e + 1)) (Some ?el)),
       CommandFailWorkflow sid exc]"
    using assms(3) by (simp_all add: out_def schedule_retry_or_route_failure_def Let_def t acc_emit_def new_acc_def)
  let ?fin = "finalize_step_result ?t (fst out) (snd out) (acc_commands (snd out)) now"
  have f: "snd ?fin = not_running_event ?t (snd out) # acc_commands (snd out)"
    by (simp add: finalize_step_result_def o)
  have run: "\<not> is_running (fst ?fin)" by (simp add: o(1))
  show thesis
  proof (rule that)
    have "process_step_result_tick ?t s now run_id = Inr (fst ?fin, snd ?fin)"
      using process_failed_tick [OF assms(1,2) out_def] by simp
    then show "process_step_result_tick ?t s now run_id =
      Inr (fst ?fin, [CommandPublishEvent (StepStateChanged (root_step_key sid) NOT_RUNNING (nat_to_string wid)
                  (str_type (type_of ev)) None),
                CommandPublishEvent (WorkflowFailedEvent (root_step_key sid) exc (Some (ip_attempts e + 1)) (Some ?el)),
                CommandFailWorkflow sid exc])"
      unfolding f by (simp add: not_running_event_def t o)
    show "\<not> check_idle_state (fst ?fin)" using run by (simp add: check_idle_state_def)
  qed (rule run)
qed

lemma catch_error_route_budget:
  assumes "catch_error_route c n e = Some (handler, k)"
  obtains h where "dget (bc_handler_for_step c) n = Some h"
    and "\<exists>hd. dget (bc_catch_error_handlers c) h = Some hd \<and> ceh_step_name hd = handler \<and>
      k = dget_or (ip_recovery_counts e) handler 0 + 1 \<and> k \<le> ceh_max_recoveries hd"
  using assms by (auto simp: catch_error_route_def Let_def split: option.splits if_splits)

section \<open>Stop events\<close>

definition pools_empty :: "broker_state \<Rightarrow> bool" where
  "pools_empty s \<longleftrightarrow> list_all (\<lambda>(n, w). ws_queue w = [] \<and> ws_in_progress w = []) (workers s)"

definition run_over :: "broker_state \<Rightarrow> bool" where
  "run_over s \<longleftrightarrow> \<not> is_running s \<and> pools_empty s \<and> streams s = [] \<and> collection_release_states s = []"

lemma pools_empty_dget: "pools_empty s \<Longrightarrow> dget (workers s) n = Some w \<Longrightarrow> ws_queue w = [] \<and> ws_in_progress w = []"
  by (auto simp: pools_empty_def list_all_iff dest: map_of_SomeD)

lemma list_all_dset: "list_all (\<lambda>(k, v). P v) d \<Longrightarrow> P v \<Longrightarrow> list_all (\<lambda>(k, v). P v) (dset k v d)"
  by (induction d) auto

lemma run_over_dset:
  "run_over s \<Longrightarrow> ws_queue w = [] \<Longrightarrow> ws_in_progress w = [] \<Longrightarrow> run_over (s\<lparr>workers := dset n w (workers s)\<rparr>)"
  by (simp add: run_over_def pools_empty_def list_all_dset)

lemma write_execution_empty [simp]: "ws_in_progress w = [] \<Longrightarrow> ws_in_progress (write_execution e w) = []"
  by (simp add: write_execution_def)

lemma run_over_clear: "run_over (clear_collection_state (clear_workers (s\<lparr>is_running := False\<rparr>)))"
  by (auto simp: run_over_def pools_empty_def clear_collection_state_def clear_workers_def list_all_iff)

lemma apply_step_result_run_over:
  assumes "apply_step_result r tick scope did run_id (s, e, acc) = Inr (s', e', acc')"
    and "run_over s" and "\<not> is_failed r"
  shows "run_over s'"
proof -
  have empty: "ws_queue w = []" "ws_in_progress w = []" if "dget (workers s) n = Some w" for n w
    using pools_empty_dget [OF _ that] assms(2) by (auto simp: run_over_def)
  show ?thesis
  proof (cases r)
    case (StepWorkerResult res fanned)
    with assms run_over_clear show ?thesis by (auto simp: Let_def split: option.splits if_splits)
  next
    case (StepWorkerFailed exc f d fa)
    with assms(3) show ?thesis by simp
  qed (use assms(1,2) empty in \<open>auto simp: Let_def simp del: find_index_None split: option.splits if_splits
        intro!: run_over_dset [OF assms(2)]\<close>)
qed

lemma apply_step_results_run_over:
  assumes "apply_step_results rs tick scope did run_id (s, e, acc) = Inr (s', e', acc')"
    and "run_over s \<or> StepWorkerResult (Some ev) fanned \<in> set rs"
    and "isinstance ev StopEventT" and "\<not> list_ex is_failed rs"
  shows "run_over s'"
  using assms(1,2,4)
proof (induction rs arbitrary: s e acc)
  case (Cons r rs)
  then obtain t e1 acc1 where t: "apply_step_result r tick scope did run_id (s, e, acc) = Inr (t, e1, acc1)"
    and u: "apply_step_results rs tick scope did run_id (t, e1, acc1) = Inr (s', e', acc')"
    by (auto split: sum.splits)
  have "run_over t \<or> StepWorkerResult (Some ev) fanned \<in> set rs"
  proof (cases "r = StepWorkerResult (Some ev) fanned")
    case True
    with t assms(3) run_over_clear show ?thesis by (auto simp: Let_def)
  next
    case False
    with Cons.prems apply_step_result_run_over [OF t] show ?thesis by auto
  qed
  with Cons.IH [OF u] Cons.prems(3) show ?case by simp
qed simp

lemma apply_step_results_complete:
  assumes "apply_step_results rs tick scope did run_id (s, e, acc) = Inr (s', e', acc')"
    and "StepWorkerResult (Some ev) fanned \<in> set rs" and "isinstance ev StopEventT"
  shows "CommandCompleteRun ev \<in> set (acc_commands acc') \<and> CommandPublishEvent ev \<in> set (acc_commands acc')"
  using assms(1,2)
proof (induction rs arbitrary: s e acc)
  case (Cons r rs)
  then obtain t e1 acc1 where t: "apply_step_result r tick scope did run_id (s, e, acc) = Inr (t, e1, acc1)"
    and u: "apply_step_results rs tick scope did run_id (t, e1, acc1) = Inr (s', e', acc')"
    by (auto split: sum.splits)
  show ?case
  proof (cases "r = StepWorkerResult (Some ev) fanned")
    case True
    with t assms(3) have "{CommandCompleteRun ev, CommandPublishEvent ev} \<subseteq> set (acc_commands acc1)"
      by (auto simp: Let_def acc_emit_def)
    with apply_step_results_mono [OF u] show ?thesis by auto
  next
    case False
    with Cons.prems Cons.IH [OF u] show ?thesis by simp
  qed
qed simp

lemma run_over_modify:
  "run_over s \<Longrightarrow> (\<And>w. ws_queue w = [] \<Longrightarrow> ws_in_progress w = [] \<Longrightarrow> ws_queue (f w) = [] \<and> ws_in_progress (f w) = []) \<Longrightarrow>
   run_over (modify_worker n f s)"
  using pools_empty_dget [of s n] by (auto simp: modify_worker_def run_over_def [of s] split: option.splits
      intro!: run_over_dset)

text \<open>A step that returned a stop event ends the run, whatever else it returned, unless it is re-run.\<close>

lemma process_stop:
  assumes "process_step_result_tick tick s now run_id = Inr (s', cmds)"
    and "StepWorkerResult (Some ev) fanned \<in> set (sr_result tick)" and "isinstance ev StopEventT"
    and "\<not> list_ex is_failed (sr_result tick)"
    and "\<And>i. DeleteCollectedEvent i \<notin> set (sr_result tick)"
  shows "run_over s' \<and> CommandCompleteRun ev \<in> set cmds \<and> CommandPublishEvent ev \<in> set cmds"
  using assms(1)
proof (cases rule: process_step_result_cases)
  case (rerun ws e)
  have "\<not> stale_firing ws e r" if "r \<in> set (sr_result tick)" for r
  proof
    assume "stale_firing ws e r"
    then obtain i where "r = DeleteCollectedEvent i" by (cases r) auto
    with that assms(5) show False by blast
  qed
  with rerun show ?thesis by (auto simp: rerun_for_stale_collect_buffer_def list_ex_iff split: if_splits)
next
  case (applied ws e scoped s2 e2 acc s3 stream_cmds)
  from apply_step_results_run_over [OF applied(5) _ assms(3,4)] assms(2) have over: "run_over s2" by blast
  from apply_step_results_complete [OF applied(5) assms(2,3)]
  have c: "CommandCompleteRun ev \<in> set (acc_commands acc)" "CommandPublishEvent ev \<in> set (acc_commands acc)" by auto
  then have ex: "list_ex indicates_exit (acc_commands acc)" by (auto simp: list_ex_iff intro!: bexI [of _ "CommandCompleteRun ev"])
  with applied(6) have s3: "s3 = s2" "stream_cmds = []"
    by (auto simp: resolve_work_item_in_stream_def classify_work_item_def Let_def)
  have "s' = fst (finalize_step_result tick s2 acc (acc_commands acc) now)"
    "cmds = snd (finalize_step_result tick s2 acc (acc_commands acc) now)"
    using applied(7) s3 by simp_all
  with ex over c show ?thesis
    by (auto simp: finalize_step_result_def Let_def intro!: run_over_modify simp: finish_execution_def)
qed

end
