(* ===== verification/Retry_Timers.thy ===== *)
theory Retry_Timers
  imports Outcomes
begin

text \<open>
  Delayed retries. An attempt that a retry delays sits in its step's queue with a time before which
  it may not start; nothing else in the state starts it, so the reducer asks the runner for a wakeup
  at that time. Here: whatever tick is reduced, the delays of the new state are delays of the old one
  or times for which a wakeup is scheduled, and a wakeup clears every delay that is due.
\<close>

definition wakeup_times :: "command list \<Rightarrow> real set" where
  "wakeup_times cmds = {t. CommandScheduleWakeup t \<in> set cmds}"

lemma wakeup_times_append [simp]: "wakeup_times (xs @ ys) = wakeup_times xs \<union> wakeup_times ys"
  by (auto simp: wakeup_times_def)

text \<open>Every delay of the state is in the set.\<close>

definition delays_in :: "real set \<Rightarrow> broker_state \<Rightarrow> bool" where
  "delays_in D s \<longleftrightarrow> list_all (\<lambda>(n, w). delays w \<subseteq> D) (workers s)"

lemma delays_drain: "delays (fst (drain_eligible_queue sid w now)) \<subseteq> delays w"
  by (rule delays_mono) (rule drain_queue_subset)

interpretation pool_delays: pool_invariant "\<lambda>w. delays w \<subseteq> D" for D
  by unfold_locales (simp add: delays_dispatch)

interpretation delayed: pool_contract "\<lambda>w. delays w \<subseteq> D" for D
  by unfold_locales (use delays_mono delays_drain in blast)+

lemma delays_simps [simp]:
  "delays (w\<lparr>ws_collected_events := ce\<rparr>) = delays w"
  "delays (w\<lparr>ws_collected_waiters := cw\<rparr>) = delays w"
  "delays (write_execution e w) = delays w"
  "delays (finish_execution i w) = delays w"
  "delays (clear_worker w) = {}"
  by (simp_all add: delays_def write_execution_def finish_execution_def clear_worker_def)

lemma retry_attempt_not_before [simp]: "ea_not_before (retry_attempt e t exc failed_at nb) = nb"
  by (simp add: retry_attempt_def)

lemma schedule_retry_delays:
  assumes "wakeup_times (acc_commands (snd (schedule_retry_or_route_failure exc f d fa tick s ws e acc run_id))) \<subseteq> D"
  shows "keeps (\<lambda>w. delays w \<subseteq> D) X s (fst (schedule_retry_or_route_failure exc f d fa tick s ws e acc run_id))"
proof -
  have push: "keeps (\<lambda>w. delays w \<subseteq> D) X s
      (modify_worker n (\<lambda>w. w\<lparr>ws_queue := retry_attempt e t exc f nb # ws_queue w\<rparr>) s)"
    if "set_option nb \<subseteq> D" for n t nb
    using that by (intro keeps_modify_worker) (auto simp: delays_def)
  have stop: "keeps (\<lambda>w. delays w \<subseteq> D) X s (s\<lparr>is_running := False\<rparr>)" by (rule keeps_cong) simp_all
  show ?thesis using assms
    by (auto simp: schedule_retry_or_route_failure_def Let_def acc_emit_def wakeup_times_def
        split: option.splits if_splits intro!: push stop)
qed

lemma apply_step_result_delays:
  assumes "apply_step_result r tick scope did run_id (s, e, acc) = Inr (s', e', acc')"
    and D: "wakeup_times (acc_commands acc') \<subseteq> D"
  shows "keeps (\<lambda>w. delays w \<subseteq> D) X s s'"
proof (cases r)
  case (StepWorkerResult res fanned)
  have "keeps (\<lambda>w. delays w \<subseteq> D) X s (clear_collection_state (clear_workers (s\<lparr>is_running := False\<rparr>)))"
    using keeps_map [of clear_worker "\<lambda>w. delays w \<subseteq> D" X s]
    by (simp add: keeps_def clear_collection_state_def clear_workers_def)
  with assms(1) StepWorkerResult show ?thesis by (auto simp: Let_def split: option.splits if_splits)
next
  case (StepWorkerFailed exc failed_at decision first_at)
  with assms schedule_retry_delays show ?thesis by (auto simp: Let_def split: option.splits)
qed (use assms(1) in \<open>auto simp: Let_def simp del: find_index_None split: option.splits if_splits
      intro!: keeps_dset\<close>)

lemma apply_step_results_delays:
  assumes "apply_step_results rs tick scope did run_id (s, e, acc) = Inr (s', e', acc')"
    and D: "wakeup_times (acc_commands acc') \<subseteq> D"
  shows "keeps (\<lambda>w. delays w \<subseteq> D) X s s'"
  using assms(1)
proof (induction rs arbitrary: s e acc)
  case (Cons r rs)
  then obtain t e1 acc1 where t: "apply_step_result r tick scope did run_id (s, e, acc) = Inr (t, e1, acc1)"
    and ts: "apply_step_results rs tick scope did run_id (t, e1, acc1) = Inr (s', e', acc')"
    by (auto split: sum.splits)
  with Cons.IH have "keeps (\<lambda>w. delays w \<subseteq> D) X t s'" by blast
  moreover have "wakeup_times (acc_commands acc1) \<subseteq> D" using apply_step_results_mono [OF ts] D by auto
  with t have "keeps (\<lambda>w. delays w \<subseteq> D) X s t" by (rule apply_step_result_delays)
  ultimately show ?case by (blast intro: keeps_trans)
qed simp

lemma process_step_result_delays:
  assumes "process_step_result_tick tick s now run_id = Inr (s', cmds)" and D: "wakeup_times cmds \<subseteq> D"
  shows "keeps (\<lambda>w. delays w \<subseteq> D) {} s s'"
  using assms(1)
proof (cases rule: process_step_result_cases)
  case (rerun ws e)
  have "keeps (\<lambda>w. delays w \<subseteq> D) {} (deepcopy s) s'"
    unfolding rerun(4) by (rule keeps_modify_worker) simp_all
  with delayed.deepcopy_keeps show ?thesis by (rule keeps_trans)
next
  case (applied ws e scoped s2 e2 acc s3 stream_cmds)
  let ?I = "\<lambda>w. delays w \<subseteq> D"
  have "wakeup_times (acc_commands acc) \<subseteq> D"
    using finalize_cmds [of "acc_commands acc @ stream_cmds" tick s3 acc now] D unfolding applied(7)
    by (auto simp: wakeup_times_def)
  with applied(5) have "keeps ?I {} (fst scoped) s2" by (rule apply_step_results_delays)
  moreover have "keeps ?I {} (deepcopy s) (fst scoped)" unfolding applied(4) by (rule keeps_cong) simp_all
  moreover have "keeps ?I {} s2 s3"
    using applied(6) by (intro delayed.evolve_keeps) (rule resolve_work_item_evolve)
  moreover have "keeps ?I {} s3 s'"
    using finalize_keeps [of tick "{}" ?I now s3] applied(7) [THEN arg_cong [where f = fst]] delays_drain by fastforce
  ultimately show ?thesis using delayed.deepcopy_keeps keeps_trans by metis
qed

lemma keeps_delays_in:
  assumes "keeps (\<lambda>w. delays w \<subseteq> D) {} s s'" and "distinct (dkeys (workers s))" and "delays_in D s"
  shows "delays_in D s'"
proof -
  from assms(1) have keys: "dkeys (workers s') = dkeys (workers s)" by (simp add: keeps_def)
  have "delays w' \<subseteq> D" if "dget (workers s') n = Some w'" for n w'
  proof -
    from dget_same_keys [OF keys that] obtain w where w: "dget (workers s) n = Some w" by blast
    with assms that show ?thesis by (auto elim!: keeps_dget simp: delays_in_def list_all_dget)
  qed
  with keys assms(2) show ?thesis by (simp add: delays_in_def list_all_dget)
qed

lemma reduce_tick_delays:
  assumes "reduce_tick t s now run_id = Inr (s', cmds)" and keys: "distinct (dkeys (workers s))"
    and "delays_in D s" and "wakeup_times cmds \<subseteq> D"
  shows "delays_in D s'"
proof (cases "\<exists>r. t = TickStepResult r")
  case True
  then obtain r where r: "t = TickStepResult r" by blast
  with assms(1) obtain out where out: "process_step_result_tick r s now run_id = Inr out" and "s' = fst out"
    and "cmds = snd (with_idle_check out)"
    by (cases "process_step_result_tick r s now run_id") (auto dest: arg_cong [where f = fst] arg_cong [where f = snd])
  moreover from this assms(4) have "wakeup_times (snd out) \<subseteq> D"
    by (auto simp: with_idle_check_def wakeup_times_def split: if_splits)
  ultimately have "keeps (\<lambda>w. delays w \<subseteq> D) {} s s'"
    using process_step_result_delays [of r s now run_id "fst out" "snd out" D] by simp
  with keys assms(3) show ?thesis by (blast intro: keeps_delays_in)
next
  case False
  with assms keys show ?thesis by (blast intro: keeps_delays_in delayed.reduce_tick_keeps)
qed

lemma wakeup_clears_delays:
  assumes "distinct (dkeys (workers s))" and "delays_in (D \<union> {..due}) s"
  shows "delays_in D (fst (process_wakeup_tick due s now))"
proof -
  have "delays_in (D \<union> {..due}) (fst (process_wakeup_tick due s now))"
    by (rule keeps_delays_in [OF delayed.wakeup_keeps assms]) (fact assms(1))
  moreover have keys: "dkeys (workers (fst (process_wakeup_tick due s now))) = dkeys (workers s)"
    using assms(1) by (simp add: process_wakeup_tick_def Let_def dkeys_update_sorted)
  moreover have "delays w' \<inter> {..due} = {}" if "dget (workers (fst (process_wakeup_tick due s now))) n = Some w'" for n w'
  proof -
    from dget_same_keys [OF keys that] obtain w where "dget (workers s) n = Some w" by blast
    from wakeup_spec [OF assms(1) this, of due now] that show ?thesis by (auto simp: delays_def)
  qed
  ultimately show ?thesis using assms(1) by (fastforce simp: delays_in_def list_all_dget)
qed

end
