(* ===== verification/Run_Commands.thy ===== *)
theory Run_Commands
  imports Outcomes
begin

text \<open>
  The commands that start workers against the slots of the state. Every tick but a step result only
  takes free slots and starts each of them once; a step result may start its own slot again; rewinding
  restarts exactly the slots in use. The runner looks the execution up by its slot
  (\<open>runtime/control_loop/runner.py\<close>, \<open>run_worker\<close>), so a command without a slot would fail there.
\<close>

section \<open>Slots\<close>

definition pool_ids :: "worker_state \<Rightarrow> nat set" where
  "pool_ids w = set (map ip_worker_id (ws_in_progress w))"

text \<open>The slot a command starts a worker in.\<close>

fun run_slot :: "command \<Rightarrow> (string \<times> nat) option" where
  "run_slot (CommandRunWorker sid ev wid b) = Some (root_step_key sid, wid)"
| "run_slot _ = None"

definition run_slots :: "command list \<Rightarrow> (string \<times> nat) list" where
  "run_slots cmds = List.map_filter run_slot cmds"

lemma run_slots_simps [simp]:
  "run_slots [] = []" "run_slots (c # cs) = (case run_slot c of None \<Rightarrow> run_slots cs | Some x \<Rightarrow> x # run_slots cs)"
  "run_slots (cs @ ds) = run_slots cs @ run_slots ds"
  by (simp_all add: run_slots_def List.map_filter_def split: option.splits)

fun queues_event :: "command \<Rightarrow> bool" where
  "queues_event (CommandQueueEvent ev sid rc path) \<longleftrightarrow> True"
| "queues_event _ \<longleftrightarrow> False"

text \<open>
  The slots in use, and the transitions that only take free slots: every slot in use stays in use,
  the commands start each newly used slot once, and none of them queues an event.
\<close>

definition slots :: "broker_state \<Rightarrow> (string \<times> nat) set" where
  "slots s = {(n, i). \<exists>w. dget (workers s) n = Some w \<and> i \<in> pool_ids w}"

definition emits :: "broker_state \<Rightarrow> broker_state \<Rightarrow> command list \<Rightarrow> bool" where
  "emits s s' cmds \<longleftrightarrow> slots s \<subseteq> slots s' \<and> set (run_slots cmds) = slots s' - slots s \<and> distinct (run_slots cmds) \<and>
     \<not> list_ex queues_event cmds"

definition pool_emits :: "string \<Rightarrow> worker_state \<Rightarrow> worker_state \<Rightarrow> command list \<Rightarrow> bool" where
  "pool_emits n w w' cmds \<longleftrightarrow> pool_ids w \<subseteq> pool_ids w' \<and>
     set (run_slots cmds) = {n} \<times> (pool_ids w' - pool_ids w) \<and> distinct (run_slots cmds) \<and>
     \<not> list_ex queues_event cmds"

lemma emits_refl [simp]: "emits s s []"
  by (simp add: emits_def)

lemma emits_trans: "emits s t c \<Longrightarrow> emits t u d \<Longrightarrow> emits s u (c @ d)"
  unfolding emits_def by auto

lemma emits_same: "slots s' = slots s \<Longrightarrow> emits s s' []"
  by (simp add: emits_def)

lemma slots_cong: "workers s' = workers s \<Longrightarrow> slots s' = slots s"
  by (simp add: slots_def)

lemma pool_emits_refl [simp]: "pool_emits n w w []"
  by (simp add: pool_emits_def)

lemma pool_emits_trans: "pool_emits n w v c \<Longrightarrow> pool_emits n v u d \<Longrightarrow> pool_emits n w u (c @ d)"
  unfolding pool_emits_def by auto

lemma pool_emits_ids: "pool_ids w1 = pool_ids w \<Longrightarrow> pool_emits n w1 w' c = pool_emits n w w' c"
  by (simp add: pool_emits_def)

lemma emits_dset:
  assumes "dget (workers s) n = Some w" and "pool_emits n w w' cmds"
  shows "emits s (s\<lparr>workers := dset n w' (workers s)\<rparr>) cmds"
proof -
  have s': "slots (s\<lparr>workers := dset n w' (workers s)\<rparr>) = {x \<in> slots s. fst x \<noteq> n} \<union> {n} \<times> pool_ids w'"
    by (auto simp: slots_def split: if_splits)
  have "(n, i) \<in> slots s \<longleftrightarrow> i \<in> pool_ids w" for i using assms(1) by (simp add: slots_def)
  with assms(2) show ?thesis unfolding emits_def pool_emits_def s' by auto
qed

lemma dispatch_emits: "pool_emits (root_step_key sid) w (fst (add_or_enqueue_event a sid w now))
    (snd (add_or_enqueue_event a sid w now))"
proof (cases "has_space a w")
  case True
  then have "length (ws_in_progress w) < num_workers (ws_config w)" by (simp add: has_space_def)
  from free_worker_id [OF this] True show ?thesis
    by (auto simp: pool_emits_def pool_ids_def add_or_enqueue_event_def Let_def)
next
  case False
  then show ?thesis by (simp add: pool_emits_def pool_ids_def add_or_enqueue_event_def Let_def)
qed

lemma pool_ids_simps [simp]:
  "pool_ids (w\<lparr>ws_queue := q\<rparr>) = pool_ids w"
  "pool_ids (w\<lparr>ws_collected_events := x\<rparr>) = pool_ids w"
  "pool_ids (w\<lparr>ws_collected_waiters := y\<rparr>) = pool_ids w"
  by (simp_all add: pool_ids_def)

lemma drain_emits: "pool_emits (root_step_key sid) w (fst (drain_eligible_queue sid w now))
    (snd (drain_eligible_queue sid w now))"
proof (rule drain_induct [where P = "\<lambda>st st' cs. pool_emits (root_step_key sid) st st' cs"])
  fix st st' :: worker_state and ys a zs cs
  let ?st1 = "st\<lparr>ws_queue := ys @ zs\<rparr>"
  assume "pool_emits (root_step_key sid) (fst (add_or_enqueue_event a sid ?st1 now)) st' cs"
  with dispatch_emits [of sid ?st1 a now]
  have "pool_emits (root_step_key sid) ?st1 st' (snd (add_or_enqueue_event a sid ?st1 now) @ cs)"
    by (rule pool_emits_trans)
  then show "pool_emits (root_step_key sid) st st' (snd (add_or_enqueue_event a sid ?st1 now) @ cs)"
    by (simp add: pool_emits_def)
qed simp_all

lemma root_key_root [simp]: "root_step_key (StepId_root n) = n"
  by (simp add: root_step_key_def)

lemma close_bindings_emits: "emits s (fst (close_bindings bs i path s now)) (snd (close_bindings bs i path s now))"
proof (induction bs arbitrary: s)
  case (Cons b bs)
  show ?case
  proof (cases "dget (workers s) (cb_target_step b)")
    case None
    with Cons show ?thesis by simp
  next
    case ws: (Some ws)
    let ?s1 = "s\<lparr>collection_release_states := dpop (release_state_key i (cb_id b)) (collection_release_states s)\<rparr>"
    have s1: "emits s ?s1 []" by (rule emits_same [OF slots_cong]) simp
    have "emits ?s1 (?s1\<lparr>workers := dset (cb_target_step b) (fst (fire_collection_release b i ws rel path now)) (workers s)\<rparr>)
        (snd (fire_collection_release b i ws rel path now))" for rel
      using emits_dset [of ?s1 "cb_target_step b" ws] ws
        dispatch_emits [of "StepId_root (cb_target_step b)" ws "release_attempt b i rel path" now]
      by (simp add: fire_collection_release_def)
    then have "emits s (?s1\<lparr>workers := dset (cb_target_step b) (fst (fire_collection_release b i ws rel path now)) (workers s)\<rparr>)
        (snd (fire_collection_release b i ws rel path now))" for rel
      using emits_trans [OF s1] by fastforce
    then have fired: "emits s u (snd (fire_collection_release b i ws rel path now) @ c)" if "emits (?s1\<lparr>workers := dset (cb_target_step b)
        (fst (fire_collection_release b i ws rel path now)) (workers s)\<rparr>) u c" for rel u c
      using that by (rule emits_trans)
    have popped: "emits s u c" if "emits ?s1 u c" for u c using emits_trans [OF s1 that] by simp
    show ?thesis
    proof (cases "collection_param (ws_config ws)")
      case None
      with ws Cons show ?thesis by simp
    next
      case (Some cp)
      with ws popped [OF Cons] fired [OF Cons] show ?thesis by (simp add: Let_def split: option.splits)
    qed
  qed
qed simp

lemma close_emits: "emits s (fst (close_collection_stream s i now)) (snd (close_collection_stream s i now))"
proof (cases "dget (streams s) i")
  case (Some st)
  have "emits s (s\<lparr>streams := dpop i (streams s)\<rparr>) []" by (rule emits_same [OF slots_cong]) simp
  from emits_trans [OF this close_bindings_emits] Some show ?thesis by (simp add: close_collection_stream_def)
qed (simp add: close_collection_stream_def)

lemma adjust_emits: "emits s (fst (adjust_open_work_items s i d now)) (snd (adjust_open_work_items s i d now))"
proof -
  have "emits s (s\<lparr>streams := x\<rparr>) []" for x by (rule emits_same [OF slots_cong]) simp
  then have "emits s (s\<lparr>streams := x\<rparr>) []"
    "emits s (fst (close_collection_stream (s\<lparr>streams := x\<rparr>) j now)) (snd (close_collection_stream (s\<lparr>streams := x\<rparr>) j now))" for x j
    using emits_trans [OF _ close_emits, of s "s\<lparr>streams := x\<rparr>" "[]"] by auto
  then show ?thesis by (auto simp: adjust_open_work_items_def Let_def split: option.splits)
qed

lemma deepcopy_pool_ids [simp]: "pool_ids (worker_deepcopy w) = pool_ids w"
  by (simp add: pool_ids_def image_image)

lemma deepcopy_slots [simp]: "slots (deepcopy s) = slots s"
  by (auto simp: slots_def)

lemma dispatch_into_emits:
  assumes "dget (workers s) (root_step_key sid) = Some w" and "ws_in_progress w1 = ws_in_progress w"
  shows "emits s (s\<lparr>workers := dset (root_step_key sid) (fst (add_or_enqueue_event a sid w1 now)) (workers s)\<rparr>)
    (snd (add_or_enqueue_event a sid w1 now))"
proof (rule emits_dset [OF assms(1)])
  from assms(2) have "pool_ids w1 = pool_ids w" by (simp add: pool_ids_def)
  from dispatch_emits [THEN pool_emits_ids [OF this, THEN iffD1]]
  show "pool_emits (root_step_key sid) w (fst (add_or_enqueue_event a sid w1 now))
      (snd (add_or_enqueue_event a sid w1 now))" .
qed

lemma redeliver_emits:
  "redeliver_collection_payload tick s now = Inr (Some (s', cmds)) \<Longrightarrow> emits s s' cmds"
  using dispatch_into_emits [of s "StepId_root _"]
  by (auto simp: redeliver_collection_payload_def Let_def split: option.splits)

lemma resolve_waiters_at_emits:
  "pool_emits (root_step_key sid) ws (fst (resolve_waiters_at is ev allow sid ws now))
     (fst (snd (resolve_waiters_at is ev allow sid ws now)))"
proof (induction "is" arbitrary: ws)
  case (Cons i "is")
  let ?w = "ws_collected_waiters ws ! i"
  let ?ws1 = "ws\<lparr>ws_collected_waiters := (ws_collected_waiters ws)[i := ?w\<lparr>w_resolved_event := Some ev\<rparr>]\<rparr>"
  have "pool_ids ?ws1 = pool_ids ws" by (simp add: pool_ids_def)
  from dispatch_emits [THEN pool_emits_ids [OF this, THEN iffD1]]
  have "pool_emits (root_step_key sid) ws (fst (add_or_enqueue_event (resume_attempt ?w) sid ?ws1 now))
      (snd (add_or_enqueue_event (resume_attempt ?w) sid ?ws1 now))" .
  from pool_emits_trans [OF this Cons] Cons show ?case by (simp add: Let_def)
qed simp

lemma resolve_waiters_emits:
  "resolve_waiters steps tick s now = Inr (s', cmds, resolved) \<Longrightarrow> emits s s' cmds"
proof (induction steps arbitrary: s s' cmds resolved)
  case (Cons step steps)
  obtain n cfg where step: "step = (n, cfg)" by fastforce
  with Cons.prems obtain ws where ws: "dget (workers s) n = Some ws" by (auto split: option.splits)
  let ?out = "resolve_step_waiters (ae_event tick) (isc_accept_event_subclasses cfg) (StepId_root n) ws now"
  let ?s1 = "s\<lparr>workers := dset n (fst ?out) (workers s)\<rparr>"
  have k: "emits s ?s1 (fst (snd ?out))"
    using ws resolve_waiters_at_emits [of "StepId_root n"] by (intro emits_dset) (auto simp: resolve_step_waiters_def)
  from Cons.prems ws step obtain c2 r2 where r: "resolve_waiters steps tick ?s1 now = Inr (s', c2, r2)"
    and "cmds = fst (snd ?out) @ c2" by (auto simp: Let_def split: sum.splits)
  with emits_trans [OF k Cons.IH [OF r]] show ?case by simp
qed simp

lemma buffer_member_emits:
  assumes "dget (workers s) n = Some ws" and "cb_target_step b = n"
  shows "emits s (fst (buffer_member ev i stack b n s ws now)) (snd (buffer_member ev i stack b n s ws now))"
proof -
  define t where "t x = (fst (release_state_for s i b))\<lparr>collection_release_states := x\<rparr>" for x
  have t: "emits s (t x) []" for x by (rule emits_same [OF slots_cong]) (simp add: t_def)
  have "emits (t x) (t x\<lparr>workers := dset n (fst (fire_collection_release b i ws rel stack now)) (workers (t x))\<rparr>)
      (snd (fire_collection_release b i ws rel stack now))" for x rel
    using dispatch_into_emits [of "t x" "StepId_root n" ws ws] assms by (simp add: t_def fire_collection_release_def)
  from emits_trans [OF t this] t show ?thesis
    by (simp add: buffer_member_def Let_def t_def split: option.splits)
qed

lemma binding_for_target_target: "binding_for_target c i n sts = Some b \<Longrightarrow> cb_target_step b = n"
proof -
  have "first_binding_to bs n is = Some b \<Longrightarrow> cb_target_step b = n" for bs "is"
    by (induction "is") (auto split: option.splits if_splits)
  then show "binding_for_target c i n sts = Some b \<Longrightarrow> cb_target_step b = n"
    by (auto simp: binding_for_target_def split: option.splits)
qed

lemma route_member_emits:
  assumes "dget (workers s) n = Some ws"
  shows "emits s (fst (route_member_to_collect_step tick s n ws now))
    (fst (snd (route_member_to_collect_step tick s n ws now)))"
proof -
  have "emits s (s\<lparr>is_running := False\<rparr>) []" by (rule emits_same [OF slots_cong]) simp
  then have "emits s (s\<lparr>is_running := False\<rparr>) [CommandPublishEvent x, CommandFailWorkflow y z]" for x y z
    by (simp add: emits_def)
  moreover note emits_trans [OF buffer_member_emits [OF assms binding_for_target_target] adjust_emits]
  ultimately show ?thesis using adjust_emits
    by (auto simp: route_member_to_collect_step_def Let_def split: option.splits)
qed

lemma route_to_step_emits:
  assumes "dget (workers s) n = Some ws"
  shows "emits s (fst (route_to_step tick s n ws now)) (snd (route_to_step tick s n ws now))"
proof -
  let ?w = "fst (bound_events_for tick (consume_superseded_delayed_attempt tick ws))"
  have "emits s (s\<lparr>workers := dset n ?w (workers s)\<rparr>) []"
    using assms by (rule emits_dset) (simp add: pool_emits_def pool_ids_def)
  from emits_trans [OF this adjust_emits]
  have a: "emits s (fst (adjust_open_work_items (s\<lparr>workers := dset n ?w (workers s)\<rparr>) x d now))
      (snd (adjust_open_work_items (s\<lparr>workers := dset n ?w (workers s)\<rparr>) x d now))" for x d by simp
  have "emits s (s\<lparr>workers := dset n (fst (add_or_enqueue_event a (StepId_root n) ?w now)) (workers s)\<rparr>)
      (snd (add_or_enqueue_event a (StepId_root n) ?w now))" for a
    using dispatch_into_emits [of s "StepId_root n" ws ?w a now] assms by simp
  with a show ?thesis by (simp add: route_to_step_def Let_def)
qed

lemma route_emits:
  "route_to_accepting_steps steps tick resolved now (s, r) = Inr (s', r') \<Longrightarrow>
   \<exists>c. rr_commands r' = rr_commands r @ c \<and> emits s s' c"
proof (induction steps arbitrary: s r)
  case (Cons step steps)
  obtain n cfg where step: "step = (n, cfg)" by fastforce
  have onwards: "\<exists>c. rr_commands r' = rr_commands r @ c \<and> emits s s' c"
    if "route_to_accepting_steps steps tick resolved now (t, q) = Inr (s', r')"
      "rr_commands q = rr_commands r @ d" "emits s t d" for t q d
    using Cons.IH [OF that(1)] that(2) emits_trans [OF that(3)] by auto
  show ?case
  proof (cases "n \<in> set resolved \<or> \<not> step_receives tick n cfg")
    case True
    show ?thesis
    proof (cases "step_receives tick n cfg \<and> ae_scope_path tick \<noteq> []")
      case swallowed: True
      with True Cons.prems show ?thesis
        using onwards [OF _ _ adjust_emits [of s "innermost_stream tick" "- 1" now]] by (simp add: step Let_def)
    next
      case False
      with True Cons.prems have "route_to_accepting_steps steps tick resolved now (s, r) = Inr (s', r')"
        by (auto simp: step split: if_splits)
      then show ?thesis by (rule Cons.IH)
    qed
  next
    case False
    with Cons.prems obtain ws where ws: "dget (workers s) n = Some ws" by (auto simp: step split: option.splits)
    note member = route_member_emits [OF ws, of tick now] and direct = route_to_step_emits [OF ws, of tick now]
    show ?thesis
    proof (cases "collection_param (ws_config ws)")
      case None
      with Cons.prems False ws show ?thesis using onwards [OF _ _ direct] by (simp add: step Let_def)
    next
      case (Some cp)
      show ?thesis
      proof (cases "snd (snd (route_member_to_collect_step tick s n ws now))")
        case True
        with Cons.prems False ws Some member show ?thesis by (auto simp: step Let_def)
      next
        case ok: False
        with Cons.prems False ws Some show ?thesis using onwards [OF _ _ member] by (simp add: step Let_def)
      qed
    qed
  qed
qed simp

lemma emits_deepcopy: "emits (deepcopy s) s' c \<Longrightarrow> emits s s' c"
  by (simp add: emits_def)

lemma unhandled_no_runs [simp]:
  "run_slots (unhandled_event_commands tick s) = []" "\<not> list_ex queues_event (unhandled_event_commands tick s)"
  by (simp_all add: unhandled_event_commands_def Let_def)

lemma process_add_event_emits:
  assumes "process_add_event_tick tick s now = Inr (s', cmds)"
  shows "emits s s' cmds"
proof -
  let ?a = "assign_work_item_id tick (deepcopy s)"
  let ?s1 = "if isinstance (ae_event (snd ?a)) StartEventT then (fst ?a)\<lparr>is_running := True\<rparr> else fst ?a"
  have "slots ?s1 = slots (deepcopy s)"
    by (rule slots_cong) (auto simp: assign_work_item_id_def next_work_item_id_def Let_def split: option.splits)
  then have sl: "slots ?s1 = slots s" by simp
  have "emits ?s1 s' cmds"
  proof (cases "redeliver_collection_payload (snd ?a) ?s1 now")
    case (Inl err)
    with assms show ?thesis by (simp add: process_add_event_tick_def Let_def)
  next
    case (Inr out)
    show ?thesis
    proof (cases out)
      case (Some x)
      with Inr assms have "x = (s', cmds)" by (simp add: process_add_event_tick_def Let_def)
      with Inr Some redeliver_emits show ?thesis by simp
    next
      case None
      with Inr assms have "route_added_event (snd ?a) ?s1 now = Inr (s', cmds)"
        by (simp add: process_add_event_tick_def Let_def)
      then obtain s2 c1 resolved r where w: "resolve_waiters (bc_steps (config ?s1)) (snd ?a) ?s1 now = Inr (s2, c1, resolved)"
        and r: "route_to_accepting_steps (bc_steps (config s2)) (snd ?a) resolved now
          (s2, \<lparr>rr_commands = [], rr_handled = False, rr_failed = False\<rparr>) = Inr (s', r)"
        and cmds: "cmds = c1 @ rr_commands r \<or> cmds = c1 @ rr_commands r @ unhandled_event_commands (snd ?a) s'"
        by (auto simp: route_added_event_def split: sum.splits if_splits)
      from route_emits [OF r] have "emits s2 s' (rr_commands r)" by auto
      from emits_trans [OF resolve_waiters_emits [OF w] this] have "emits ?s1 s' (c1 @ rr_commands r)" .
      with cmds show ?thesis by (auto simp: emits_def)
    qed
  qed
  with sl show ?thesis by (simp add: emits_def)
qed

lemma update_workers_emits:
  assumes "distinct (dkeys items)" and "\<And>n w. (n, w) \<in> set items \<Longrightarrow> dget (workers s) n = Some w"
    and "\<And>n w. pool_emits n w (fst (f n w)) (snd (f n w))"
  shows "emits s (s\<lparr>workers := fst (update_workers f items (workers s))\<rparr>) (snd (update_workers f items (workers s)))"
  using assms(1,2)
proof (induction items arbitrary: s)
  case (Cons item items)
  obtain n w where item: "item = (n, w)" by fastforce
  let ?s1 = "s\<lparr>workers := dset n (fst (f n w)) (workers s)\<rparr>"
  have "emits s ?s1 (snd (f n w))" using Cons.prems(2) item assms(3) by (intro emits_dset) auto
  moreover have "emits ?s1 (?s1\<lparr>workers := fst (update_workers f items (workers ?s1))\<rparr>) (snd (update_workers f items (workers ?s1)))"
    using Cons.prems item by (intro Cons.IH) force+
  ultimately show ?case using emits_trans by (fastforce simp: item Let_def)
qed (simp add: emits_def slots_def)

lemma wakeup_emits:
  assumes "distinct (dkeys (workers s))"
  shows "emits s (fst (process_wakeup_tick due s now)) (snd (process_wakeup_tick due s now))"
proof -
  let ?d = "workers (deepcopy s)"
  have "pool_emits n w (fst (wakeup_worker due now n w)) (snd (wakeup_worker due now n w))" for n w
    using drain_emits [of "StepId_root n" "w\<lparr>ws_queue := map (flip_due due) (ws_queue w)\<rparr>" now]
    by (simp add: wakeup_worker_def pool_emits_def)
  moreover have d: "distinct (dkeys ?d)" using assms by simp
  moreover have "distinct (dkeys (sort_key fst ?d))" using d by (rule distinct_sort_keys)
  ultimately have "emits (deepcopy s) ((deepcopy s)\<lparr>workers := fst (update_workers (wakeup_worker due now) (sort_key fst ?d) ?d)\<rparr>)
      (snd (update_workers (wakeup_worker due now) (sort_key fst ?d) ?d))"
    by (intro update_workers_emits) (simp_all del: dget_deepcopy)
  then show ?thesis by (simp add: process_wakeup_tick_def Let_def emits_def)
qed

lemma waiter_timeout_emits:
  "emits s (fst (process_waiter_timeout_tick sid wid s now)) (snd (process_waiter_timeout_tick sid wid s now))"
proof (rule emits_deepcopy)
  have e: "emits (deepcopy s) (deepcopy s) []" by simp
  have "emits (deepcopy s) ((deepcopy s)\<lparr>workers := dset (root_step_key sid) (fst (add_or_enqueue_event a sid (ws\<lparr>ws_collected_waiters := x\<rparr>) now)) (workers (deepcopy s))\<rparr>)
      (snd (add_or_enqueue_event a sid (ws\<lparr>ws_collected_waiters := x\<rparr>) now))"
    if "dget (workers (deepcopy s)) (root_step_key sid) = Some ws" for a x ws
    using that by (rule dispatch_into_emits) simp
  with e show "emits (deepcopy s) (fst (process_waiter_timeout_tick sid wid s now)) (snd (process_waiter_timeout_tick sid wid s now))"
    by (auto simp: process_waiter_timeout_tick_def Let_def simp del: find_index_None dget_deepcopy split: option.splits)
qed

lemma with_idle_check_runs [simp]:
  "run_slots (snd (with_idle_check out)) = run_slots (snd out)"
  "list_ex queues_event (snd (with_idle_check out)) = list_ex queues_event (snd out)"
  by (simp_all add: with_idle_check_def)

lemma reduce_tick_emits:
  assumes "reduce_tick t s now run_id = Inr (s', cmds)" and "distinct (dkeys (workers s))"
    and "\<And>r. t \<noteq> TickStepResult r"
  shows "emits s s' cmds"
proof -
  have chk: "emits s s' cmds" if "with_idle_check out = (s', cmds)" "emits s (fst out) (snd out)" for out
    using that with_idle_check_runs [of out] with_idle_check_fst [of out] by (simp add: emits_def)
  have cong: "emits s s1 []" if "workers s1 = workers (deepcopy s)" for s1
    using emits_same [OF slots_cong [OF that]] deepcopy_slots [of s] by (simp add: emits_def)
  show ?thesis
  proof (cases t)
    case (TickStepResult r)
    with assms(3) show ?thesis by blast
  next
    case (TickAddEvent r)
    with assms(1) obtain out where "process_add_event_tick r s now = Inr out" and "with_idle_check out = (s', cmds)"
      by (cases "process_add_event_tick r s now") auto
    then show ?thesis using process_add_event_emits [of r s now] by (cases out) (auto intro: chk)
  next
    case (TickWakeup due)
    with assms(1) wakeup_emits [OF assms(2)] show ?thesis by (auto intro: chk)
  next
    case (TickWaiterTimeout sid wid)
    with assms(1) waiter_timeout_emits show ?thesis by (auto intro: chk)
  qed (use assms(1) cong in \<open>auto simp: process_cancel_run_tick_def process_publish_event_tick_def
      process_timeout_tick_def process_idle_check_tick_def clear_collection_state_def with_idle_check_def emits_def slots_def
      split: if_splits option.splits\<close>)
qed

section \<open>Rewinding restarts exactly what runs\<close>

lemma schedule_wakeups_no_runs [simp]: "run_slots (schedule_wakeups q) = []" "\<not> list_ex queues_event (schedule_wakeups q)"
  by (induction q) (simp_all add: schedule_wakeups_def)

lemma rewind_worker_slots:
  "pool_emits n (requeue_in_progress w) (fst (rewind_worker now n w)) (snd (rewind_worker now n w))"
  "set (run_slots (snd (rewind_worker now n w))) = {n} \<times> pool_ids (fst (rewind_worker now n w))"
proof -
  show p: "pool_emits n (requeue_in_progress w) (fst (rewind_worker now n w)) (snd (rewind_worker now n w))"
    using drain_emits [of "StepId_root n" "requeue_in_progress w" now]
    by (simp add: rewind_worker_def Let_def pool_emits_def)
  moreover have "pool_ids (requeue_in_progress w) = {}" by (simp add: requeue_in_progress_def pool_ids_def)
  ultimately show "set (run_slots (snd (rewind_worker now n w))) = {n} \<times> pool_ids (fst (rewind_worker now n w))"
    by (simp add: pool_emits_def)
qed

lemma update_workers_runs:
  "set (run_slots (snd (update_workers f items d))) = (\<Union>(n, w) \<in> set items. set (run_slots (snd (f n w))))"
  by (induction f items d rule: update_workers.induct) (auto simp: Let_def)

lemma update_workers_runs_distinct:
  assumes "distinct (dkeys items)" and "\<And>n w. distinct (run_slots (snd (f n w)))"
    and "\<And>n w. set (run_slots (snd (f n w))) \<subseteq> {n} \<times> UNIV"
  shows "distinct (run_slots (snd (update_workers f items d)))"
  using assms(1)
proof (induction items arbitrary: d)
  case (Cons item items)
  obtain n w where item: "item = (n, w)" by fastforce
  have "set (run_slots (snd (f n w))) \<inter> set (run_slots (snd (update_workers f items d'))) = {}" for d'
  proof -
    have "set (run_slots (snd (update_workers f items d'))) \<subseteq> set (dkeys items) \<times> UNIV"
      using assms(3) by (force simp: update_workers_runs)
    moreover have "n \<notin> set (dkeys items)" using Cons.prems by (simp add: item)
    ultimately show ?thesis using assms(3) [of n w] by blast
  qed
  with Cons assms(2) show ?case by (simp add: item Let_def)
qed simp

lemma rewind_restarts:
  assumes "distinct (dkeys (workers s))"
  shows "set (run_slots (snd (rewind_in_progress s now))) = slots (fst (rewind_in_progress s now)) \<and>
    distinct (run_slots (snd (rewind_in_progress s now)))"
proof -
  let ?d = "workers (deepcopy s)"
  have d: "distinct (dkeys (sort_key fst ?d))" using assms by (intro distinct_sort_keys) simp
  have runs: "set (run_slots (snd (rewind_in_progress s now))) =
      (\<Union>(n, w) \<in> set ?d. {n} \<times> pool_ids (fst (rewind_worker now n w)))"
    by (simp add: rewind_in_progress_def Let_def update_workers_runs rewind_worker_slots)
  have "distinct (run_slots (snd (rewind_in_progress s now)))"
    unfolding rewind_in_progress_def Let_def snd_conv
    using d rewind_worker_slots by (intro update_workers_runs_distinct) (auto simp: pool_emits_def)
  moreover have "slots (fst (rewind_in_progress s now)) =
      (\<Union>(n, w) \<in> set ?d. {n} \<times> pool_ids (fst (rewind_worker now n w)))"
  proof -
    have "dget (workers (fst (rewind_in_progress s now))) n = map_option (\<lambda>w. fst (rewind_worker now n w)) (dget ?d n)" for n
      using assms by (simp add: dget_rewind_in_progress option.map_comp comp_def)
    moreover have "distinct (dkeys ?d)" using assms by simp
    ultimately show ?thesis by (force simp: slots_def simp del: dget_deepcopy)
  qed
  ultimately show ?thesis using runs by simp
qed

section \<open>Step results\<close>

lemma schedule_retry_runs:
  "run_slots (acc_commands (snd (schedule_retry_or_route_failure exc f d fa tick s ws e acc run_id))) =
     run_slots (acc_commands acc)"
  "acc_step_no_longer_in_progress (snd (schedule_retry_or_route_failure exc f d fa tick s ws e acc run_id)) =
     acc_step_no_longer_in_progress acc"
  by (simp_all add: schedule_retry_or_route_failure_def Let_def acc_emit_def queue_catch_error_event_def
      split: option.splits prod.splits)

lemma slots_modify:
  "(\<And>w. pool_ids (f w) = pool_ids w) \<Longrightarrow> slots (modify_worker n f s) = slots s"
  by (auto simp: slots_def modify_worker_def split: option.splits if_splits)

lemma schedule_retry_slots:
  "slots (fst (schedule_retry_or_route_failure exc f d fa tick s ws e acc run_id)) = slots s"
proof -
  have "slots (modify_worker n (\<lambda>w. w\<lparr>ws_queue := a # ws_queue w\<rparr>) s) = slots s" for n a
    by (rule slots_modify) simp
  moreover have "slots (s\<lparr>is_running := False\<rparr>) = slots s" by (rule slots_cong) simp
  ultimately show ?thesis by (simp add: schedule_retry_or_route_failure_def Let_def split: option.splits prod.splits)
qed

lemma slots_dset_same:
  "dget (workers s) n = Some w \<Longrightarrow> pool_ids w' = pool_ids w \<Longrightarrow> slots (s\<lparr>workers := dset n w' (workers s)\<rparr>) = slots s"
  by (auto simp: slots_def split: if_splits)

lemma pool_ids_write [simp]: "pool_ids (write_execution e w) = pool_ids w"
  unfolding pool_ids_def by simp

text \<open>What applying one result can start: only the same slot again, and then the slot is kept.\<close>

text \<open>
  While the results of an execution are applied, its own slot is started again exactly when the
  execution stays in progress.
\<close>

definition reruns_own_slot :: "step_result_tick \<Rightarrow> in_progress \<Rightarrow> step_result_acc \<Rightarrow> bool" where
  "reruns_own_slot tick e acc \<longleftrightarrow> set (run_slots (acc_commands acc)) =
     (if acc_step_no_longer_in_progress acc then {} else {(root_step_key (sr_step_id tick), ip_worker_id e)})"

lemma apply_step_result_slots:
  assumes "apply_step_result r tick scope did run_id (s, e, acc) = Inr (s', e', acc')"
    and "\<not> list_ex indicates_exit (acc_commands acc')"
  shows "slots s' = slots s \<and> ip_worker_id e' = ip_worker_id e \<and>
    (acc_step_no_longer_in_progress acc' = acc_step_no_longer_in_progress acc \<and>
       run_slots (acc_commands acc') = run_slots (acc_commands acc) \<or>
     \<not> acc_step_no_longer_in_progress acc' \<and> run_slots (acc_commands acc') =
       run_slots (acc_commands acc) @ [(root_step_key (sr_step_id tick), ip_worker_id e)])"
proof (cases r)
  case (StepWorkerFailed exc f d fa)
  with assms(1) show ?thesis
    by (auto simp: Let_def schedule_retry_runs schedule_retry_slots split: option.splits)
qed (use assms in \<open>auto simp: Let_def acc_emit_def slots_dset_same simp del: find_index_None
      split: option.splits if_splits\<close>)

lemma apply_step_result_runs:
  assumes "apply_step_result r tick scope did run_id (s, e, acc) = Inr (s', e', acc')"
    and "\<not> list_ex indicates_exit (acc_commands acc')" and "reruns_own_slot tick e acc"
  shows "slots s' = slots s \<and> ip_worker_id e' = ip_worker_id e \<and> reruns_own_slot tick e' acc'"
  using apply_step_result_slots [OF assms(1,2)] assms(3)
  by (cases "acc_step_no_longer_in_progress acc") (auto simp: reruns_own_slot_def)

lemma apply_step_results_runs:
  assumes "apply_step_results rs tick scope did run_id (s, e, acc) = Inr (s', e', acc')"
    and "\<not> list_ex indicates_exit (acc_commands acc')" and "reruns_own_slot tick e acc"
  shows "slots s' = slots s \<and> ip_worker_id e' = ip_worker_id e \<and> reruns_own_slot tick e' acc'"
  using assms
proof (induction rs arbitrary: s e acc)
  case (Cons r rs)
  then obtain t e1 acc1 where t: "apply_step_result r tick scope did run_id (s, e, acc) = Inr (t, e1, acc1)"
    and u: "apply_step_results rs tick scope did run_id (t, e1, acc1) = Inr (s', e', acc')"
    by (auto split: sum.splits)
  from apply_step_results_mono [OF u] Cons.prems(2) have "\<not> list_ex indicates_exit (acc_commands acc1)" by auto
  from apply_step_result_runs [OF t this Cons.prems(3)] Cons.IH [OF u Cons.prems(2)] show ?case by auto
qed auto

text \<open>
  How often an execution is run again. Running it again refreshes its snapshot of the collect buffers,
  so the next event it adds is not stale: of \<open>k\<close> events added by one report, at most every second
  one starts the execution again.
\<close>

definition fresh_snapshot :: "string \<Rightarrow> broker_state \<Rightarrow> in_progress \<Rightarrow> bool" where
  "fresh_snapshot n s e \<longleftrightarrow> (\<forall>w b. dget (workers s) n = Some w \<longrightarrow>
     length (dget_or (ws_collected_events w) b []) \<le> length (dget_or (ss_collected_events (ip_shared_state e)) b []))"

definition adds :: "step_result list \<Rightarrow> nat" where
  "adds rs = length (filter is_add_collected rs)"

lemma fresh_snapshot_dset:
  assumes "fresh_snapshot n s e" and "dget (workers s) n = Some w"
    and "\<And>b. length (dget_or (ws_collected_events w') b []) \<le> length (dget_or (ws_collected_events w) b [])"
  shows "fresh_snapshot n (s\<lparr>workers := dset n w' (workers s)\<rparr>) e"
  using assms by (auto simp: fresh_snapshot_def intro: order_trans)

lemma fresh_snapshot_modify:
  assumes "fresh_snapshot n s e" and "\<And>w. ws_collected_events (f w) = ws_collected_events w"
  shows "fresh_snapshot n (modify_worker m f s) e"
  using assms by (auto simp: fresh_snapshot_def modify_worker_dget split: if_splits)

lemma schedule_retry_fresh:
  "fresh_snapshot n s e \<Longrightarrow> fresh_snapshot n (fst (schedule_retry_or_route_failure exc f d fa tick s ws e acc run_id)) e"
proof -
  assume a: "fresh_snapshot n s e"
  moreover from a have "fresh_snapshot n (s\<lparr>is_running := x\<rparr>) e" for x by (simp add: fresh_snapshot_def)
  ultimately show ?thesis
    by (auto simp: schedule_retry_or_route_failure_def Let_def split: option.splits prod.splits intro: fresh_snapshot_modify)
qed

lemma dpop_shorter: "length (dget_or (dpop k d) b []) \<le> length (dget_or d b [])"
  by (simp add: dget_or_def)

lemma apply_other_fresh:
  assumes "apply_step_result r tick scope did run_id (s, e, acc) = Inr (s', e', acc')" and "\<not> is_add_collected r"
    and "fresh_snapshot (root_step_key (sr_step_id tick)) s e"
  shows "fresh_snapshot (root_step_key (sr_step_id tick)) s' e'"
proof (cases r)
  case (StepWorkerFailed exc f d fa)
  with assms show ?thesis using schedule_retry_fresh by (auto simp: Let_def split: option.splits)
next
  case (StepWorkerResult res fanned)
  have "fresh_snapshot n (clear_collection_state (clear_workers x)) e" for n x
    by (auto simp: fresh_snapshot_def clear_collection_state_def clear_workers_def clear_worker_def map_of_map dget_or_def)
  with assms StepWorkerResult show ?thesis by (auto simp: Let_def split: option.splits if_splits)
next
  case (DeleteCollectedEvent i)
  with assms show ?thesis
    by (auto simp: Let_def dpop_shorter split: option.splits if_splits intro!: fresh_snapshot_dset)
qed (use assms in \<open>auto simp: Let_def simp del: find_index_None split: option.splits if_splits intro!: fresh_snapshot_dset\<close>)

lemma apply_other_runs:
  assumes "apply_step_result r tick scope did run_id (s, e, acc) = Inr (s', e', acc')" and "\<not> is_add_collected r"
  shows "run_slots (acc_commands acc') = run_slots (acc_commands acc)"
proof (cases r)
  case (StepWorkerFailed exc f d fa)
  with assms show ?thesis by (auto simp: Let_def schedule_retry_runs split: option.splits)
qed (use assms in \<open>auto simp: Let_def acc_emit_def simp del: find_index_None split: option.splits if_splits\<close>)

lemma apply_add_runs:
  assumes "apply_step_result r tick scope did run_id (s, e, acc) = Inr (s', e', acc')" and "is_add_collected r"
  shows "run_slots (acc_commands acc') = run_slots (acc_commands acc) \<or>
    \<not> fresh_snapshot (root_step_key (sr_step_id tick)) s e \<and> fresh_snapshot (root_step_key (sr_step_id tick)) s' e' \<and>
    length (run_slots (acc_commands acc')) = Suc (length (run_slots (acc_commands acc)))"
proof -
  let ?n = "root_step_key (sr_step_id tick)"
  from assms(2) obtain b ev where r: "r = AddCollectedEvent b ev" by (cases r) auto
  with assms(1) obtain ws where ws: "dget (workers s) ?n = Some ws" by (auto simp: Let_def split: option.splits)
  let ?stale = "length (dget_or (ss_collected_events (ip_shared_state e)) b []) < length (dget_or (ws_collected_events ws) b [])"
  let ?ws1 = "ws\<lparr>ws_collected_events := (case dget (ws_collected_events ws) b of
       None \<Rightarrow> ws_collected_events ws @ [(b, [])] | Some _ \<Rightarrow> ws_collected_events ws)\<rparr>"
  show ?thesis
  proof (cases ?stale)
    case True
    have nf: "\<not> fresh_snapshot ?n s e" using True ws by (auto simp: fresh_snapshot_def not_le)
    have e': "s' = s\<lparr>workers := dset ?n (write_execution (refresh_snapshot ?ws1 e) ?ws1) (workers s)\<rparr>"
      "e' = refresh_snapshot ?ws1 e"
      "acc_commands acc' = acc_commands acc @ [CommandRunWorker (sr_step_id tick) ev (ip_worker_id e) (ip_bound_events e)]"
      using assms(1) True by (auto simp: r ws Let_def acc_emit_def)
    have "fresh_snapshot ?n s' e'"
      unfolding e' fresh_snapshot_def refresh_snapshot_def by (simp add: write_execution_def)
    with nf e'(3) show ?thesis by simp
  next
    case False
    then have "acc' = acc" using assms(1) by (simp add: r ws Let_def)
    then show ?thesis by simp
  qed
qed

lemma apply_step_results_reruns:
  assumes "apply_step_results rs tick scope did run_id (s, e, acc) = Inr (s', e', acc')"
  shows "length (run_slots (acc_commands acc')) \<le> length (run_slots (acc_commands acc)) +
     (if fresh_snapshot (root_step_key (sr_step_id tick)) s e then adds rs div 2 else Suc (adds rs) div 2)"
  using assms
proof (induction rs arbitrary: s e acc)
  case (Cons r rs)
  let ?n = "root_step_key (sr_step_id tick)"
  from Cons.prems obtain t e1 acc1 where t: "apply_step_result r tick scope did run_id (s, e, acc) = Inr (t, e1, acc1)"
    and u: "apply_step_results rs tick scope did run_id (t, e1, acc1) = Inr (s', e', acc')"
    by (auto split: sum.splits)
  note IH = Cons.IH [OF u]
  show ?case
  proof (cases "is_add_collected r")
    case False
    then have "fresh_snapshot ?n s e \<Longrightarrow> fresh_snapshot ?n t e1" using apply_other_fresh [OF t] by blast
    with IH apply_other_runs [OF t False] False show ?thesis
      by (cases "fresh_snapshot ?n s e"; cases "fresh_snapshot ?n t e1") (auto simp: adds_def)
  next
    case True
    from apply_add_runs [OF t True] IH show ?thesis
      by (cases "fresh_snapshot ?n s e"; cases "fresh_snapshot ?n t e1") (auto simp: adds_def True)
  qed
qed (simp add: adds_def)

lemma open_child_stream_emits:
  "emits s (fst (open_child_stream s n i scope seed now)) (snd (open_child_stream s n i scope seed now))"
proof -
  have adj: "emits s (fst (adjust_open_work_items (s\<lparr>streams := x\<rparr>) j d now)) (snd (adjust_open_work_items (s\<lparr>streams := x\<rparr>) j d now))" for x j d
    using emits_trans [OF emits_same [OF slots_cong] adjust_emits, of "s\<lparr>streams := x\<rparr>" s] by simp
  from adj emits_trans [OF adj close_emits] show ?thesis by (simp add: open_child_stream_def Let_def)
qed

lemma resolve_work_item_emits:
  assumes "resolve_work_item_in_stream tick s scope acc now = Inr (s', cmds)"
  shows "emits s s' cmds"
proof -
  have "emits s s' cmds" if "open_child_stream s n i scope seed now = (s', cmds)" for n i seed
    using open_child_stream_emits [of s n i scope seed now] that by simp
  moreover have "emits s s' cmds" if "adjust_open_work_items s i d now = (s', cmds)" for i d
    using adjust_emits [of s i d now] that by simp
  ultimately show ?thesis using assms
    by (auto simp: resolve_work_item_in_stream_def Let_def split: sum.splits work_disposition.splits option.splits)
qed

lemma drain_worker_emits: "emits s (fst (drain_worker sid s now)) (snd (drain_worker sid s now))"
  using emits_dset drain_emits by (auto simp: drain_worker_def Let_def split: option.splits)

lemma finish_pool_ids: "worker_ok w \<Longrightarrow> pool_ids (finish_execution i w) = pool_ids w - {i}"
proof -
  have "distinct (map f xs) \<Longrightarrow> f ` set (remove_first (\<lambda>y. f y = i) xs) = f ` set xs - {i}" for f :: "in_progress \<Rightarrow> nat" and xs
  proof (induction xs)
    case (Cons x xs)
    then show ?case by (cases "f x = i") auto
  qed simp
  then show "worker_ok w \<Longrightarrow> ?thesis" by (simp add: worker_ok_def pool_ids_def finish_execution_def)
qed

lemma finish_slots:
  assumes "\<And>w. dget (workers s) n = Some w \<Longrightarrow> worker_ok w"
  shows "slots (modify_worker n (finish_execution i) s) = slots s - {(n, i)}"
  using assms by (auto simp: slots_def modify_worker_dget finish_pool_ids split: if_splits)

lemma find_in_progress_slot:
  assumes "dget (workers s) n = Some w" and "find_in_progress w i = Inr e"
  shows "(n, i) \<in> slots s" and "ip_worker_id e = i"
proof -
  from assms(2) have "find (\<lambda>x. ip_worker_id x = i) (ws_in_progress w) = Some e"
    by (auto simp: find_in_progress_def split: option.splits)
  then have "e \<in> set (ws_in_progress w) \<and> ip_worker_id e = i" by (auto simp: find_Some_iff)
  with assms(1) show "(n, i) \<in> slots s" and "ip_worker_id e = i" by (auto simp: slots_def pool_ids_def)
qed

lemma finalize_going_on:
  assumes "finalize_step_result tick s acc cmds now = (s', cmds')" and "\<not> list_ex indicates_exit cmds"
  defines "t \<equiv> if acc_step_no_longer_in_progress acc
    then modify_worker (root_step_key (sr_step_id tick)) (finish_execution (sr_worker_id tick)) s else s"
  shows "s' = fst (drain_worker (sr_step_id tick) t now) \<and>
    run_slots cmds' = run_slots cmds @ run_slots (snd (drain_worker (sr_step_id tick) t now))"
proof -
  have "s' = fst (drain_worker (sr_step_id tick) t now)"
    and "cmds' = (if acc_step_no_longer_in_progress acc then not_running_event tick acc # cmds else cmds) @
      snd (drain_worker (sr_step_id tick) t now)"
    using assms(1,2) by (simp_all add: finalize_step_result_def Let_def t_def)
  then show ?thesis by (simp add: not_running_event_def)
qed

lemma applied_worker_ok:
  assumes "dget (workers (deepcopy s)) (root_step_key (sr_step_id tick)) = Some ws"
    and "scoped = mk_fan_out_scope (deepcopy s) n e f"
    and "apply_step_results rs tick (snd scoped) did run_id (fst scoped, e, new_acc) = Inr (s2, e2, acc)"
    and "resolve_work_item_in_stream tick s2 (snd scoped) acc now = Inr (s3, cs)"
    and ok: "\<And>w. dget (workers s) (root_step_key (sr_step_id tick)) = Some w \<Longrightarrow> worker_ok w"
    and "dget (workers s3) (root_step_key (sr_step_id tick)) = Some w"
  shows "worker_ok w"
proof -
  have "keeps worker_ok {} (fst scoped) s2"
    using assms(3) by (rule apply_step_results_keeps) (auto intro: worker_ok_cong simp: worker_ok_def [of "clear_worker _"])
  moreover have "keeps worker_ok {} s2 s3"
    by (rule ok.evolve_keeps [OF resolve_work_item_evolve [OF assms(4)]])
  ultimately have k: "keeps worker_ok {} (fst scoped) s3" by (rule keeps_trans)
  from assms(1,2) have w0: "dget (workers (fst scoped)) (root_step_key (sr_step_id tick)) = Some ws" by simp
  from assms(1) obtain w1 where "dget (workers s) (root_step_key (sr_step_id tick)) = Some w1" "ws = worker_deepcopy w1"
    by auto
  with ok have "worker_ok ws" using worker_ok_cong [of w1 "worker_deepcopy w1"] by (simp add: comp_def)
  with keeps_dget [OF k w0] assms(6) show ?thesis by auto
qed

text \<open>
  A step result frees its own slot, unless the execution runs again, and leaves the other slots
  alone; every slot taken after it is started by a command, and only those.
\<close>

definition frees_slot :: "broker_state \<Rightarrow> broker_state \<Rightarrow> (string \<times> nat) \<Rightarrow> command list \<Rightarrow> bool" where
  "frees_slot s s' slot cmds \<longleftrightarrow> slots s' = (slots s - {slot}) \<union> set (run_slots cmds) \<and>
     set (run_slots cmds) \<inter> (slots s - {slot}) = {}"

lemma slot_sets:
  "T \<subseteq> S \<Longrightarrow> D = S - T \<Longrightarrow> T = A \<union> R \<Longrightarrow> R \<inter> A = {} \<Longrightarrow> S = A \<union> (R \<union> D) \<and> (R \<union> D) \<inter> A = {}"
  by blast

text \<open>Up to the point where the handler drains the queue of the step.\<close>

lemma applied_slots:
  assumes find: "dget (workers (deepcopy s)) (root_step_key (sr_step_id tick)) = Some ws"
      "find_in_progress ws (sr_worker_id tick) = Inr e"
    and scoped: "scoped = mk_fan_out_scope (deepcopy s) (root_step_key (sr_step_id tick)) e fanned"
    and app: "apply_step_results (sr_result tick) tick (snd scoped) did run_id (fst scoped, e, new_acc) = Inr (s2, e2, acc)"
    and res: "resolve_work_item_in_stream tick s2 (snd scoped) acc now = Inr (s3, stream_cmds)"
    and going: "\<not> list_ex indicates_exit (acc_commands acc)"
    and ok: "\<And>w. dget (workers s) (root_step_key (sr_step_id tick)) = Some w \<Longrightarrow> worker_ok w"
  defines "slot \<equiv> (root_step_key (sr_step_id tick), sr_worker_id tick)"
    and "t \<equiv> (if acc_step_no_longer_in_progress acc
      then modify_worker (root_step_key (sr_step_id tick)) (finish_execution (sr_worker_id tick)) s3 else s3)"
  shows "frees_slot s t slot (acc_commands acc @ stream_cmds) \<and>
    (adds (sr_result tick) \<le> 2 \<longrightarrow> distinct (run_slots (acc_commands acc @ stream_cmds)))"
proof -
  from find_in_progress_slot [OF find] have slot: "slot \<in> slots s" and e: "ip_worker_id e = sr_worker_id tick"
    by (simp_all add: slot_def)
  have "reruns_own_slot tick e new_acc" by (simp add: reruns_own_slot_def new_acc_def)
  note a = apply_step_results_runs [OF app going this]
  have "slots (fst scoped) = slots (deepcopy s)" unfolding scoped by (rule slots_cong) simp
  with a e have own: "slots s2 = slots s" "reruns_own_slot tick e2 acc" "ip_worker_id e2 = sr_worker_id tick" by auto
  then have acc: "set (run_slots (acc_commands acc)) = (if acc_step_no_longer_in_progress acc then {} else {slot})"
    by (simp add: reruns_own_slot_def slot_def)
  from resolve_work_item_emits [OF res] have r: "slots s \<subseteq> slots s3" "set (run_slots stream_cmds) = slots s3 - slots s"
    and rd: "distinct (run_slots stream_cmds)" by (auto simp: emits_def own)
  have "worker_ok w" if "dget (workers s3) (root_step_key (sr_step_id tick)) = Some w" for w
    using applied_worker_ok [OF find(1) scoped app res ok that] .
  note fin = finish_slots [of s3 "root_step_key (sr_step_id tick)" "sr_worker_id tick", OF this, folded slot_def]
  have "frees_slot s t slot (acc_commands acc @ stream_cmds)"
    using r slot by (cases "acc_step_no_longer_in_progress acc") (auto simp: frees_slot_def t_def fin acc)
  moreover have "distinct (run_slots (acc_commands acc @ stream_cmds))" if "adds (sr_result tick) \<le> 2"
  proof -
    have "Suc (adds (sr_result tick)) div 2 \<le> 1" "adds (sr_result tick) div 2 \<le> 1" using that by simp_all
    then have "length (run_slots (acc_commands acc)) \<le> 1"
      using apply_step_results_reruns [OF app] by (simp add: new_acc_def split: if_splits)
    then have "distinct (run_slots (acc_commands acc))" by (cases "run_slots (acc_commands acc)") auto
    then show ?thesis using rd r slot by (auto simp: acc split: if_splits)
  qed
  ultimately show ?thesis by blast
qed

lemma process_step_result_runs:
  assumes "process_step_result_tick tick s now run_id = Inr (s', cmds)"
    and "\<not> list_ex indicates_exit cmds"
    and ok: "\<And>w. dget (workers s) (root_step_key (sr_step_id tick)) = Some w \<Longrightarrow> worker_ok w"
  shows "frees_slot s s' (root_step_key (sr_step_id tick), sr_worker_id tick) cmds \<and>
    (adds (sr_result tick) \<le> 2 \<longrightarrow> distinct (run_slots cmds))"
  using assms(1)
proof (cases rule: process_step_result_cases)
  case (rerun ws e)
  from find_in_progress_slot [OF rerun(1,2)]
  have "(root_step_key (sr_step_id tick), sr_worker_id tick) \<in> slots s" "ip_worker_id e = sr_worker_id tick" by simp_all
  moreover have "slots s' = slots (deepcopy s)" unfolding rerun(4) by (rule slots_modify) (rule pool_ids_write)
  moreover have "cmds = [CommandRunWorker (sr_step_id tick) (ip_event e) (ip_worker_id e) (ip_bound_events e)]"
    using rerun(3) by (simp add: rerun_for_stale_collect_buffer_def split: if_splits)
  ultimately show ?thesis by (auto simp: frees_slot_def)
next
  case (applied ws e scoped s2 e2 acc s3 stream_cmds)
  let ?n = "root_step_key (sr_step_id tick)" and ?i = "sr_worker_id tick"
  have nx: "\<not> list_ex indicates_exit (acc_commands acc @ stream_cmds)"
    using finalize_exit [of tick s3 acc "acc_commands acc @ stream_cmds" now] applied(7) assms(2) by simp
  then have "\<not> list_ex indicates_exit (acc_commands acc)" by simp
  note t = applied_slots [OF applied(1,2,4-6) this ok]
  define u where "u = (if acc_step_no_longer_in_progress acc then modify_worker ?n (finish_execution ?i) s3 else s3)"
  define d where "d = drain_worker (sr_step_id tick) u now"
  from finalize_going_on [OF applied(7) nx] have s': "s' = fst d"
    and final: "run_slots cmds = run_slots (acc_commands acc @ stream_cmds) @ run_slots (snd d)"
    unfolding d_def u_def by blast+
  from drain_worker_emits [of u "sr_step_id tick" now, folded d_def]
  have e: "slots u \<subseteq> slots (fst d)" "set (run_slots (snd d)) = slots (fst d) - slots u" "distinct (run_slots (snd d))"
    unfolding emits_def by blast+
  from t [folded u_def] have f: "slots u = (slots s - {(?n, ?i)}) \<union> set (run_slots (acc_commands acc @ stream_cmds))"
    "set (run_slots (acc_commands acc @ stream_cmds)) \<inter> (slots s - {(?n, ?i)}) = {}"
    unfolding frees_slot_def by blast+
  have "frees_slot s s' (?n, ?i) cmds"
    unfolding frees_slot_def s' final set_append by (rule slot_sets [OF e(1,2) f])
  moreover have "distinct (run_slots cmds)" if "adds (sr_result tick) \<le> 2"
    unfolding final distinct_append using t that e(2,3) f(1) by blast
  ultimately show ?thesis by blast
qed

lemma reduce_step_result_runs:
  assumes "reduce_tick (TickStepResult r) s now run_id = Inr (s', cmds)" and "\<not> list_ex indicates_exit cmds"
    and "list_all (\<lambda>(n, w). worker_ok w) (workers s)"
  shows "frees_slot s s' (root_step_key (sr_step_id r), sr_worker_id r) cmds \<and>
    (adds (sr_result r) \<le> 2 \<longrightarrow> distinct (run_slots cmds))"
proof -
  from assms(1) obtain out where p: "process_step_result_tick r s now run_id = Inr out"
    and out: "with_idle_check out = (s', cmds)"
    by (cases "process_step_result_tick r s now run_id") auto
  obtain cs where cs: "out = (s', cs)" "run_slots cmds = run_slots cs" "\<not> list_ex indicates_exit cs"
    using out assms(2) by (cases out) (auto simp: with_idle_check_def split: if_splits)
  have "worker_ok w" if "dget (workers s) (root_step_key (sr_step_id r)) = Some w" for w
    using assms(3) that by (auto simp: list_all_iff dest!: map_of_SomeD)
  note process_step_result_runs [OF p [unfolded cs(1)] cs(3) this]
  then show ?thesis unfolding frees_slot_def cs(2) .
qed

end
