(* ===== verification/Step_Function.thy ===== *)
theory Step_Function
  imports Retry_Policy "HOL-Library.Multiset"
begin

text \<open>
  Running a step (\<open>runtime/types/step_function.py\<close>, \<open>context/internal_context.py\<close>): the wrapper that
  turns what a step function does into the results of a tick.

  A step function is user code. It is a tree of the context operations it performs, each with a
  continuation for the answer, ending in a returned value or an exception. The exception that
  suspends a step in \<open>wait_for_event\<close> is not offered to the continuation: a step that catches it
  is outside the model. How a waiter's requirements print is a parameter, since they hold arbitrary
  user values.
\<close>

section \<open>Step functions\<close>

datatype pyitem = ItemEvent event | ItemOther string

datatype pyresult = ResultNone | ResultEvent event | ResultList "pyitem list" | ResultOther string

datatype step_prog =
    Finish pyresult
  | Fail exn
  | CollectEvents event "pytype list" "string option" "event list option \<Rightarrow> step_prog"
  | WaitForEvent pytype "event option" "string option" "(string, pyval) dict" "real option"
      "exn + event \<Rightarrow> step_prog"
  | SendEvent event "string option" "exn option \<Rightarrow> step_prog"
  | WriteEvent "event option" step_prog

text \<open>How the arguments of the step function are bound (\<open>partial\<close>).\<close>

datatype step_args =
    BatchArg string "event list"
  | SlotArgs "(string, event) dict"
  | EventArg string event

definition bind_args ::
  "step_config \<Rightarrow> event \<Rightarrow> (string, event) dict option \<Rightarrow> (string \<times> event list) option \<Rightarrow> step_args"
where
  "bind_args cfg ev collected collection =
    (case collection of
       Some (param, batch) \<Rightarrow> BatchArg param batch
     | None \<Rightarrow> (case collected of Some bound \<Rightarrow> SlotArgs bound | None \<Rightarrow> EventArg (event_name cfg) ev))"

section \<open>Context operations\<close>

text \<open>What an invocation leaves behind: its results, the events it sent and those it published.\<close>

record ctx_out =
  co_returns :: "step_result list"
  co_sent :: "add_event_tick list"
  co_written :: "event list"

definition append_return :: "step_result \<Rightarrow> ctx_out \<Rightarrow> ctx_out" where
  "append_return r out = out\<lparr>co_returns := co_returns out @ [r]\<rparr>"

definition buffer_name :: "string option \<Rightarrow> string" where
  "buffer_name buffer_id = (case buffer_id of None \<Rightarrow> ''default'' | Some b \<Rightarrow> if b = [] then ''default'' else b)"

definition remaining_event_types :: "pytype list \<Rightarrow> event list \<Rightarrow> pytype multiset" where
  "remaining_event_types expected collected = mset expected - mset (map type_of collected)"

text \<open>\<open>by_type[e_type].pop(0)\<close> for each expected type in turn; \<open>None\<close> is the \<open>IndexError\<close>.\<close>

fun take_by_type :: "pytype list \<Rightarrow> event list \<Rightarrow> event list option" where
  "take_by_type [] evs = Some []"
| "take_by_type (t # ts) evs =
    (case find (\<lambda>e. type_of e = t) evs of
       None \<Rightarrow> None
     | Some e \<Rightarrow> map_option (Cons e) (take_by_type ts (remove_first (\<lambda>e. type_of e = t) evs)))"

definition ctx_collect_events ::
  "shared_state \<Rightarrow> event \<Rightarrow> pytype list \<Rightarrow> string option \<Rightarrow> ctx_out \<Rightarrow> event list option \<times> ctx_out"
where
  "ctx_collect_events st ev expected buffer_id out =
    (if expected = [] then (Some [], out)
     else
       (let buffer = buffer_name buffer_id;
            collected = dget_or (ss_collected_events st) buffer [];
            remaining = remaining_event_types expected collected
        in if remaining \<noteq> {#type_of ev#} then
             (None, if type_of ev \<in># remaining then append_return (AddCollectedEvent buffer ev) out else out)
           else (take_by_type expected (collected @ [ev]), append_return (DeleteCollectedEvent buffer) out)))"

text \<open>The printed forms of a waiter's requirements: stable JSON, and \<open>str\<close> for ids of older runs.\<close>

record waiter_names =
  wn_stable :: "(string, pyval) dict \<Rightarrow> string"
  wn_legacy :: "(string, pyval) dict \<Rightarrow> string"

definition implicit_waiter_id ::
  "waiter_names \<Rightarrow> shared_state \<Rightarrow> pytype \<Rightarrow> (string, pyval) dict \<Rightarrow> string"
where
  "implicit_waiter_id wn st event_type requirements =
    (let event_str = type_module event_type @ ''.'' @ type_name event_type;
         legacy = ''waiter_'' @ event_str @ ''_'' @ wn_legacy wn requirements;
         base = ''waiter_'' @ event_str @ ''_'' @ wn_stable wn requirements;
         work_item = (case ss_work_item_id st of Some i \<Rightarrow> base @ ''_'' @ i | None \<Rightarrow> base);
         existing = map w_waiter_id (ss_collected_waiters st)
     in if legacy \<in> set existing then legacy else if base \<in> set existing then base else work_item)"

datatype wait_answer = Suspended step_result | TimedOut string | Resolved string event

definition TimeoutError :: "string \<Rightarrow> exn" where
  "TimeoutError msg = Exn (Cls ''builtins'' ''TimeoutError'' ''TimeoutError'' (''builtins.OSError'' # exception_mro)) msg None"

definition ctx_wait_for_event ::
  "waiter_names \<Rightarrow> shared_state \<Rightarrow> pytype \<Rightarrow> event option \<Rightarrow> string option \<Rightarrow> (string, pyval) dict \<Rightarrow>
   real option \<Rightarrow> wait_answer"
where
  "ctx_wait_for_event wn st event_type waiter_event explicit_id requirements timeout =
    (let wid = (case explicit_id of Some i \<Rightarrow> i | None \<Rightarrow> implicit_waiter_id wn st event_type requirements);
         add = AddWaiter wid waiter_event requirements timeout event_type
     in case find (\<lambda>w. w_waiter_id w = wid) (ss_collected_waiters st) of
          None \<Rightarrow> Suspended add
        | Some w \<Rightarrow>
            if w_timed_out w then TimedOut wid
            else (case w_resolved_event w of None \<Rightarrow> Suspended add | Some ev \<Rightarrow> Resolved wid ev))"

text \<open>\<open>Workflow._validate_valid_step_message\<close> and \<open>send_event\<close>.\<close>

definition validate_valid_step_message :: "(string, step_config) dict \<Rightarrow> string \<Rightarrow> event \<Rightarrow> unit res" where
  "validate_valid_step_message steps step message =
    (case dget steps step of
       None \<Rightarrow> Inl (WorkflowRuntimeError (''Step '' @ step @ '' does not exist''))
     | Some cfg \<Rightarrow>
         if step_accepts_event (accept_event_subclasses cfg) message (accepted_events cfg) then Inr ()
         else Inl (WorkflowRuntimeError (''Step '' @ step @ '' does not accept event of type '' @ str_type (type_of message))))"

definition ctx_send_event ::
  "(string, step_config) dict \<Rightarrow> (string, nat) dict \<Rightarrow> event \<Rightarrow> string option \<Rightarrow> ctx_out \<Rightarrow> exn option \<times> ctx_out"
where
  "ctx_send_event steps recovery_counts message step out =
    (let sent = (add_event_of message)\<lparr>ae_step_id := map_option StepId_root step, ae_recovery_counts := recovery_counts\<rparr>;
         ok = (None, out\<lparr>co_sent := co_sent out @ [sent]\<rparr>)
     in case step of
          None \<Rightarrow> ok
        | Some n \<Rightarrow> (case validate_valid_step_message steps n message of Inl e \<Rightarrow> (Some e, out) | Inr _ \<Rightarrow> ok))"

definition ctx_write_event :: "event option \<Rightarrow> ctx_out \<Rightarrow> ctx_out" where
  "ctx_write_event ev out = (case ev of None \<Rightarrow> out | Some e \<Rightarrow> out\<lparr>co_written := co_written out @ [e]\<rparr>)"

section \<open>The wrapper\<close>

text \<open>How the body ends, and what it left behind.\<close>

datatype prog_end = Returned pyresult | Raised exn | WaitingForEvent step_result

primrec run_prog ::
  "(string, step_config) dict \<Rightarrow> waiter_names \<Rightarrow> shared_state \<Rightarrow> (string, nat) dict \<Rightarrow> step_prog \<Rightarrow> ctx_out \<Rightarrow>
   prog_end \<times> ctx_out"
where
  "run_prog steps wn st rc (Finish r) out = (Returned r, out)"
| "run_prog steps wn st rc (Fail e) out = (Raised e, out)"
| "run_prog steps wn st rc (CollectEvents ev expected buffer k) out =
    (let a = ctx_collect_events st ev expected buffer out in run_prog steps wn st rc (k (fst a)) (snd a))"
| "run_prog steps wn st rc (WaitForEvent t waiter_event wid reqs timeout k) out =
    (case ctx_wait_for_event wn st t waiter_event wid reqs timeout of
       Suspended add \<Rightarrow> (WaitingForEvent add, out)
     | TimedOut i \<Rightarrow> run_prog steps wn st rc (k (Inl (TimeoutError (''Timed out waiting for '' @ type_name t))))
                       (append_return (DeleteWaiter i) out)
     | Resolved i ev \<Rightarrow> run_prog steps wn st rc (k (Inr ev)) (append_return (DeleteWaiter i) out))"
| "run_prog steps wn st rc (SendEvent ev step k) out =
    (let a = ctx_send_event steps rc ev step out in run_prog steps wn st rc (k (fst a)) (snd a))"
| "run_prog steps wn st rc (WriteEvent ev p) out = run_prog steps wn st rc p (ctx_write_event ev out)"

fun item_event :: "pyitem \<Rightarrow> event option" where
  "item_event (ItemEvent ev) = Some ev"
| "item_event (ItemOther _) = None"

text \<open>The results a returned value stands for, or the error the wrapper raises about it.\<close>

fun interpret_result :: "string \<Rightarrow> step_config \<Rightarrow> pyresult \<Rightarrow> step_result list res" where
  "interpret_result step_name cfg (ResultList items) =
    (if \<not> is_fan_out cfg then
       Inl (WorkflowRuntimeError (''Step function '' @ step_name @ '' returned list instead of an Event instance.''))
     else if list_ex (\<lambda>i. item_event i = None) items then
       Inl (WorkflowRuntimeError (''Step function '' @ step_name @ '' returned a list containing a non-Event instance''))
     else if items = [] then Inr [StepWorkerResult None True]
     else Inr (map (\<lambda>i. StepWorkerResult (item_event i) True) items))"
| "interpret_result step_name cfg (ResultOther t) =
     Inl (WorkflowRuntimeError (''Step function '' @ step_name @ '' returned '' @ t @ '' instead of an Event instance.''))"
| "interpret_result step_name cfg (ResultEvent ev) =
    (if is_fan_out cfg \<and> \<not> list_ex (\<lambda>t. is_subclass (type_of ev) t) (bare_return_types cfg) then
       Inl (WorkflowRuntimeError (''Step function '' @ step_name @ '' returned a bare '' @ type_name (type_of ev)))
     else Inr [StepWorkerResult (Some ev) False])"
| "interpret_result step_name cfg ResultNone = Inr [StepWorkerResult None False]"

definition finish_prog :: "string \<Rightarrow> step_config \<Rightarrow> real \<Rightarrow> prog_end \<times> ctx_out \<Rightarrow> ctx_out" where
  "finish_prog step_name cfg now ended =
    (let out = snd ended; failed = (\<lambda>e. append_return (StepWorkerFailed e now None None) out) in
     case fst ended of
       WaitingForEvent add \<Rightarrow> append_return add out
     | Raised e \<Rightarrow> failed e
     | Returned r \<Rightarrow> (case interpret_result step_name cfg r of
           Inl e \<Rightarrow> failed e
         | Inr rs \<Rightarrow> out\<lparr>co_returns := co_returns out @ rs\<rparr>))"

definition step_worker_function ::
  "(string, step_config) dict \<Rightarrow> waiter_names \<Rightarrow> (step_args \<Rightarrow> step_prog) \<Rightarrow> string \<Rightarrow> shared_state \<Rightarrow> event \<Rightarrow>
   (string, event) dict option \<Rightarrow> (string, nat) dict \<Rightarrow> real \<Rightarrow> ctx_out res"
where
  "step_worker_function steps wn body step_name st ev bound rc now =
    (case dget steps step_name of
       None \<Rightarrow> Inl (KeyError step_name)
     | Some cfg \<Rightarrow>
         (let run = (\<lambda>args. finish_prog step_name cfg now
                       (run_prog steps wn st rc (body args) \<lparr>co_returns = [], co_sent = [], co_written = []\<rparr>))
          in case collection_param cfg of
               Some (param, types) \<Rightarrow>
                 (case ss_payload st of
                    None \<Rightarrow> Inl (WorkflowRuntimeError (''Collect step '' @ step_name @ '' was invoked without a collection release payload.''))
                  | Some payload \<Rightarrow> Inr (run (bind_args cfg ev None (Some (param, rp_events payload)))))
             | None \<Rightarrow> Inr (run (bind_args cfg ev bound None))))"

section \<open>What an invocation reports\<close>

fun is_bookkeeping :: "step_result \<Rightarrow> bool" where
  "is_bookkeeping (DeleteWaiter _) = True"
| "is_bookkeeping (DeleteCollectedEvent _) = True"
| "is_bookkeeping (AddCollectedEvent _ _) = True"
| "is_bookkeeping _ = False"

lemma append_return_simps [simp]:
  "co_returns (append_return r out) = co_returns out @ [r]"
  "co_sent (append_return r out) = co_sent out" "co_written (append_return r out) = co_written out"
  by (simp_all add: append_return_def)

lemma ctx_collect_events_returns:
  "\<exists>new. co_returns (snd (ctx_collect_events st ev expected b out)) = co_returns out @ new \<and> list_all is_bookkeeping new"
  by (auto simp: ctx_collect_events_def Let_def)

lemma ctx_send_event_returns [simp]: "co_returns (snd (ctx_send_event steps rc ev step out)) = co_returns out"
  by (auto simp: ctx_send_event_def Let_def split: option.splits sum.splits)

lemma ctx_write_event_returns [simp]: "co_returns (ctx_write_event ev out) = co_returns out"
  by (simp add: ctx_write_event_def split: option.splits)

text \<open>While it runs, a step function only reports bookkeeping; suspending reports a waiter.\<close>

lemma run_prog_returns:
  "\<exists>new. co_returns (snd (run_prog steps wn st rc p out)) = co_returns out @ new \<and> list_all is_bookkeeping new"
  "fst (run_prog steps wn st rc p out) = WaitingForEvent add \<Longrightarrow> is_add_waiter add"
proof (induction p arbitrary: out)
  case (CollectEvents ev expected b k)
  {
    case (1 out)
    let ?a = "ctx_collect_events st ev expected b out"
    obtain new where "co_returns (snd ?a) = co_returns out @ new" "list_all is_bookkeeping new"
      using ctx_collect_events_returns [of st ev expected b out] by auto
    moreover obtain more where "co_returns (snd (run_prog steps wn st rc (k (fst ?a)) (snd ?a))) = co_returns (snd ?a) @ more"
      "list_all is_bookkeeping more" using CollectEvents(1) [OF rangeI] by blast
    ultimately show ?case by (auto simp: Let_def)
  next
    case 2
    then show ?case using CollectEvents(2) [OF rangeI] by (simp add: Let_def)
  }
next
  case (WaitForEvent t we wid reqs timeout k)
  have k: "\<exists>new. co_returns (snd (run_prog steps wn st rc (k r) (append_return (DeleteWaiter i) out))) = co_returns out @ new \<and>
      list_all is_bookkeeping new" for r i out
  proof -
    obtain new where "co_returns (snd (run_prog steps wn st rc (k r) (append_return (DeleteWaiter i) out))) =
        co_returns (append_return (DeleteWaiter i) out) @ new" "list_all is_bookkeeping new"
      using WaitForEvent(1) [OF rangeI] by blast
    then show ?thesis by simp
  qed
  {
    case 1
    show ?case using k by (auto split: wait_answer.splits)
  next
    case 2
    show ?case
    proof (cases "ctx_wait_for_event wn st t we wid reqs timeout")
      case (Suspended x)
      then have "is_add_waiter x"
        by (auto simp: ctx_wait_for_event_def Let_def split: option.splits if_splits)
      with 2 Suspended show ?thesis by simp
    qed (use 2 WaitForEvent(2) [OF rangeI] in auto)
  }
next
  case (SendEvent ev step k)
  {
    case (1 out)
    let ?a = "ctx_send_event steps rc ev step out"
    show ?case using SendEvent(1) [OF rangeI, of "fst ?a" "snd ?a"] by (simp add: Let_def)
  next
    case 2
    then show ?case using SendEvent(2) [OF rangeI] by (simp add: Let_def)
  }
next
  case (WriteEvent ev p)
  {
    case (1 out)
    show ?case using WriteEvent(1) [of "ctx_write_event ev out"] by simp
  next
    case 2
    then show ?case using WriteEvent(2) by simp
  }
qed auto

text \<open>
  The results of an invocation end in its outcome: a failure, a waiter, one plain result, or the
  members of one fan-out.
\<close>

definition is_outcome :: "step_result list \<Rightarrow> bool" where
  "is_outcome rs \<longleftrightarrow> rs \<noteq> [] \<and>
     (list_all is_result rs \<and> (length rs = 1 \<or> list_all (\<lambda>r. \<exists>ev. r = StepWorkerResult (Some ev) True) rs) \<or>
      (\<exists>r. rs = [r] \<and> (is_failed r \<or> is_add_waiter r)))"

lemma interpret_result_outcome: "interpret_result n cfg r = Inr rs \<Longrightarrow> is_outcome rs"
proof (cases r)
  case (ResultList items)
  assume "interpret_result n cfg r = Inr rs"
  moreover have "\<exists>ev. item_event i = Some ev" if "\<not> list_ex (\<lambda>i. item_event i = None) items" "i \<in> set items" for i
    using that by (cases "item_event i") (auto simp: list_ex_iff)
  ultimately show ?thesis by (auto simp: ResultList is_outcome_def list_all_iff split: if_splits)
qed (auto simp: is_outcome_def split: if_splits)

lemma step_worker_function_outcome:
  assumes "step_worker_function steps wn body n st ev bound rc now = Inr out"
  shows "\<exists>new rs. co_returns out = new @ rs \<and> list_all is_bookkeeping new \<and> is_outcome rs"
proof -
  from assms obtain cfg args where out: "out = finish_prog n cfg now
      (run_prog steps wn st rc (body args) \<lparr>co_returns = [], co_sent = [], co_written = []\<rparr>)"
    by (auto simp: step_worker_function_def Let_def split: option.splits)
  let ?e = "run_prog steps wn st rc (body args) \<lparr>co_returns = [], co_sent = [], co_written = []\<rparr>"
  from run_prog_returns(1) [of steps wn st rc "body args" "\<lparr>co_returns = [], co_sent = [], co_written = []\<rparr>"]
  have new: "list_all is_bookkeeping (co_returns (snd ?e))" by auto
  have "\<exists>rs. co_returns out = co_returns (snd ?e) @ rs \<and> is_outcome rs"
  proof (cases "fst ?e")
    case (Returned r)
    then show ?thesis
      by (cases "interpret_result n cfg r") (auto simp: out finish_prog_def Let_def is_outcome_def [of "[_]"] dest: interpret_result_outcome)
  next
    case (Raised e)
    then show ?thesis by (auto simp: out finish_prog_def is_outcome_def)
  next
    case (WaitingForEvent add)
    then show ?thesis using run_prog_returns(2) [OF WaitingForEvent] by (auto simp: out finish_prog_def is_outcome_def)
  qed
  with new show ?thesis by blast
qed

section \<open>Collecting events\<close>

lemma take_by_type_complete:
  "mset ts \<subseteq># mset (map type_of evs) \<Longrightarrow>
   \<exists>batch. take_by_type ts evs = Some batch \<and> map type_of batch = ts \<and> mset batch \<subseteq># mset evs"
proof (induction ts arbitrary: evs)
  case (Cons t ts)
  from Cons.prems have "t \<in># mset (map type_of evs)" by (rule mset_subset_eqD) simp
  then have "find (\<lambda>e. type_of e = t) evs \<noteq> None" by (auto simp: find_None_iff)
  then obtain e where e: "find (\<lambda>e. type_of e = t) evs = Some e" by blast
  let ?rest = "remove_first (\<lambda>e. type_of e = t) evs"
  have m: "mset evs = add_mset e (mset ?rest)" using e by (induction evs) (auto split: if_splits)
  have t: "type_of e = t" using e by (auto simp: find_Some_iff)
  have "mset (map type_of evs) = add_mset t (mset (map type_of ?rest))" using m t by simp
  with Cons.prems have "mset ts \<subseteq># mset (map type_of ?rest)" by simp
  from Cons.IH [OF this] e m t show ?case by auto
qed simp

text \<open>
  \<open>collect_events\<close> answers exactly when the event completes the buffer, with one event per expected
  type, in the expected order, the new event among them.
\<close>

lemma ctx_collect_events_spec:
  assumes "expected \<noteq> []" and collected: "collected = dget_or (ss_collected_events st) (buffer_name b) []"
  shows "case ctx_collect_events st ev expected b out of
      (Some batch, out') \<Rightarrow> remaining_event_types expected collected = {#type_of ev#} \<and>
        map type_of batch = expected \<and> mset batch \<subseteq># mset (collected @ [ev]) \<and>
        co_returns out' = co_returns out @ [DeleteCollectedEvent (buffer_name b)]
    | (None, out') \<Rightarrow> remaining_event_types expected collected \<noteq> {#type_of ev#} \<and>
        co_returns out' = co_returns out @
          (if type_of ev \<in># remaining_event_types expected collected then [AddCollectedEvent (buffer_name b) ev] else [])"
proof (cases "remaining_event_types expected collected = {#type_of ev#}")
  case True
  then have "mset expected \<subseteq># mset (map type_of (collected @ [ev]))"
    unfolding remaining_event_types_def by (simp add: subset_eq_diff_conv flip: add_mset_add_single) (metis subset_eq_diff_conv subset_mset.order_refl union_commute add_mset_add_single)
  from take_by_type_complete [OF this] True assms(1) show ?thesis
    by (auto simp: ctx_collect_events_def Let_def collected)
next
  case False
  with assms(1) show ?thesis by (auto simp: ctx_collect_events_def Let_def collected)
qed

end
