(* ===== verification/Runner.thy ===== *)
theory Runner
  imports Retry_Timers Run_Commands Step_Function
begin

text \<open>
  The control loop itself (\<open>runtime/control_loop/runner.py\<close>). It keeps the reducer's state, a buffer
  of ticks to reduce, a heap of scheduled ticks, the worker coroutines not yet started and the worker
  tasks, and turns the reducer's commands into effects on them. The adapter's clock is an argument:
  \<open>clock n\<close> is the answer to the \<open>n\<close>-th call of \<open>get_now\<close>. What the adapter's
  \<open>wait_for_next_task\<close> returns, and what the step functions do, is an input of each turn of the loop.
\<close>

section \<open>State\<close>

text \<open>The command a worker coroutine closes over, and the worker it finds when it first runs.\<close>

record run_request =
  rq_step_id :: step_id
  rq_event :: event
  rq_id :: nat
  rq_bound_events :: "(string, event) dict option"

datatype task_progress = Created | Begun "in_progress res"

record worker_task =
  wt_request :: run_request
  wt_progress :: task_progress

record runner =
  rn_state :: broker_state
  rn_tick_buffer :: "tick list"
  rn_scheduled_wakeups :: "(real \<times> nat \<times> tick) list"
  rn_wakeup_sequence :: nat
  rn_pull_sequence :: nat
  rn_pull_task :: bool
  rn_worker_tasks :: "worker_task list"
  rn_pending_workers :: "run_request list"
  rn_idle_check_pending :: bool
  rn_reads :: nat
  rn_event_stream :: "event list"
  rn_on_tick :: "tick list"
  rn_after_tick :: "tick list"
  rn_closed :: bool

datatype outcome = Going | Finished event | Crashed exn

definition new_runner :: "broker_state \<Rightarrow> runner" where
  "new_runner init =
    \<lparr>rn_state = init, rn_tick_buffer = rehydrate_with_ticks init, rn_scheduled_wakeups = [],
     rn_wakeup_sequence = 0, rn_pull_sequence = 0, rn_pull_task = False, rn_worker_tasks = [],
     rn_pending_workers = [], rn_idle_check_pending = False, rn_reads = 0, rn_event_stream = [],
     rn_on_tick = [], rn_after_tick = [], rn_closed = False\<rparr>"

definition get_now :: "(nat \<Rightarrow> real) \<Rightarrow> runner \<Rightarrow> real \<times> runner" where
  "get_now clock r = (clock (rn_reads r), r\<lparr>rn_reads := Suc (rn_reads r)\<rparr>)"

section \<open>Scheduled ticks\<close>

text \<open>
  \<open>heapq\<close> on \<open>(time, sequence, tick)\<close>: the entries in the order in which it pops them. No two
  entries have the same sequence number, so ticks are never compared.
\<close>

fun due_before :: "real \<times> nat \<times> tick \<Rightarrow> real \<times> nat \<times> tick \<Rightarrow> bool" where
  "due_before (t, n, _) (t', n', _) \<longleftrightarrow> t < t' \<or> t = t' \<and> n < n'"

fun heappush :: "real \<times> nat \<times> tick \<Rightarrow> (real \<times> nat \<times> tick) list \<Rightarrow> (real \<times> nat \<times> tick) list" where
  "heappush x [] = [x]"
| "heappush x (y # ys) = (if due_before x y then x # y # ys else y # heappush x ys)"

definition schedule_tick :: "tick \<Rightarrow> real \<Rightarrow> runner \<Rightarrow> runner" where
  "schedule_tick t at_time r =
    r\<lparr>rn_wakeup_sequence := Suc (rn_wakeup_sequence r),
      rn_scheduled_wakeups := heappush (at_time, rn_wakeup_sequence r, t) (rn_scheduled_wakeups r)\<rparr>"

definition next_wakeup_timeout :: "real \<Rightarrow> runner \<Rightarrow> real option" where
  "next_wakeup_timeout now r =
    (case rn_scheduled_wakeups r of [] \<Rightarrow> None | (next_time, _) # _ \<Rightarrow> Some (max 0 (next_time - now)))"

fun pop_due :: "real \<Rightarrow> (real \<times> nat \<times> tick) list \<Rightarrow> tick list \<times> (real \<times> nat \<times> tick) list" where
  "pop_due now [] = ([], [])"
| "pop_due now ((t, n, k) # h) =
    (if t \<le> now then (let rest = pop_due now h in (k # fst rest, snd rest)) else ([], (t, n, k) # h))"

definition pop_due_ticks :: "real \<Rightarrow> runner \<Rightarrow> tick list \<times> runner" where
  "pop_due_ticks now r =
    (let popped = pop_due now (rn_scheduled_wakeups r)
     in (fst popped, r\<lparr>rn_scheduled_wakeups := snd popped\<rparr>))"

section \<open>Commands\<close>

definition run_worker :: "run_request \<Rightarrow> runner \<Rightarrow> runner" where
  "run_worker rq r = r\<lparr>rn_pending_workers := rn_pending_workers r @ [rq]\<rparr>"

definition cleanup_tasks :: "runner \<Rightarrow> runner" where
  "cleanup_tasks r = r\<lparr>rn_pending_workers := [], rn_closed := True, rn_worker_tasks := []\<rparr>"

definition buffer_tick :: "tick \<Rightarrow> runner \<Rightarrow> runner" where
  "buffer_tick t r = r\<lparr>rn_tick_buffer := rn_tick_buffer r @ [t]\<rparr>"

fun process_command :: "(nat \<Rightarrow> real) \<Rightarrow> command \<Rightarrow> runner \<Rightarrow> runner \<times> outcome" where
  "process_command clock (CommandQueueEvent ev step rc path) r =
    (buffer_tick (TickAddEvent ((add_event_of ev)\<lparr>ae_step_id := step, ae_recovery_counts := rc, ae_scope_path := path\<rparr>)) r,
     Going)"
| "process_command clock (CommandRunWorker sid ev i bound) r =
    (run_worker \<lparr>rq_step_id = sid, rq_event = ev, rq_id = i, rq_bound_events = bound\<rparr> r, Going)"
| "process_command clock (CommandHalt e) r = (cleanup_tasks r, Crashed e)"
| "process_command clock (CommandCompleteRun ev) r = (cleanup_tasks r, Finished ev)"
| "process_command clock (CommandPublishEvent ev) r = (r\<lparr>rn_event_stream := rn_event_stream r @ [ev]\<rparr>, Going)"
| "process_command clock (CommandFailWorkflow sid e) r = (cleanup_tasks r, Crashed e)"
| "process_command clock CommandScheduleIdleCheck r =
    (if rn_idle_check_pending r then r else (buffer_tick TickIdleCheck r)\<lparr>rn_idle_check_pending := True\<rparr>, Going)"
| "process_command clock (CommandScheduleWaiterTimeout sid wid timeout) r =
    (let (now, r1) = get_now clock r in (schedule_tick (TickWaiterTimeout sid wid) (now + timeout) r1, Going))"
| "process_command clock (CommandScheduleWakeup at_time) r =
    (schedule_tick (TickWakeup at_time) at_time r, Going)"

fun process_commands :: "(nat \<Rightarrow> real) \<Rightarrow> command list \<Rightarrow> runner \<Rightarrow> runner \<times> outcome" where
  "process_commands clock [] r = (r, Going)"
| "process_commands clock (c # cs) r =
    (case process_command clock c r of
       (r1, Going) \<Rightarrow> process_commands clock cs r1
     | (r1, Finished ev) \<Rightarrow> (r1, Finished ev)
     | (r1, Crashed e) \<Rightarrow> (cleanup_tasks r1, Crashed e))"

definition process_tick :: "(nat \<Rightarrow> real) \<Rightarrow> string option \<Rightarrow> tick \<Rightarrow> runner \<Rightarrow> runner \<times> outcome" where
  "process_tick clock run_id t r =
    (let (start, r1) = get_now clock r in
     case reduce_tick t (rn_state r1) start run_id of
       Inl e \<Rightarrow> (cleanup_tasks r1, Crashed e)
     | Inr (s', cmds) \<Rightarrow>
         (case process_commands clock cmds (r1\<lparr>rn_state := s', rn_on_tick := rn_on_tick r1 @ [t]\<rparr>) of
            (r2, Going) \<Rightarrow> (r2\<lparr>rn_after_tick := rn_after_tick r2 @ [t]\<rparr>, Going)
          | out \<Rightarrow> out))"

section \<open>Worker tasks\<close>

definition find_worker :: "broker_state \<Rightarrow> run_request \<Rightarrow> in_progress res" where
  "find_worker s rq =
    (case dget (workers s) (root_step_key (rq_step_id rq)) of
       None \<Rightarrow> Inl (KeyError (root_step_key (rq_step_id rq)))
     | Some ws \<Rightarrow> (case find (\<lambda>w. ip_worker_id w = rq_id rq) (ws_in_progress ws) of
           None \<Rightarrow> Inl (WorkflowRuntimeError (''Worker '' @ nat_to_string (rq_id rq) @ '' not found in in_progress. This should not happen.''))
         | Some w \<Rightarrow> Inr w))"

definition begin_task :: "broker_state \<Rightarrow> worker_task \<Rightarrow> worker_task" where
  "begin_task s t = (case wt_progress t of Created \<Rightarrow> t\<lparr>wt_progress := Begun (find_worker s (wt_request t))\<rparr> | Begun _ \<Rightarrow> t)"

text \<open>A failure without a verdict gets the retry policy's, and the time of the first attempt.\<close>

fun stamp_retry_decision ::
  "retry_policy option \<Rightarrow> string option \<Rightarrow> string \<Rightarrow> in_progress \<Rightarrow> step_result \<Rightarrow> step_result"
where
  "stamp_retry_decision policy run_id step_name w (StepWorkerFailed exc failed_at None first_at) =
     StepWorkerFailed exc failed_at
       (Some (decide_retry_delay policy (failed_at - ip_first_attempt_at w) (ip_attempts w + 1) exc run_id step_name))
       (Some (ip_first_attempt_at w))"
| "stamp_retry_decision policy run_id step_name w res = res"

definition stamp_retry_decisions ::
  "broker_state \<Rightarrow> string option \<Rightarrow> step_id \<Rightarrow> in_progress option \<Rightarrow> step_result list \<Rightarrow> step_result list res"
where
  "stamp_retry_decisions s run_id sid worker results =
    (case worker of
       None \<Rightarrow> Inr results
     | Some w \<Rightarrow>
         (case dget (workers s) (root_step_key sid) of
            None \<Rightarrow> Inl (KeyError (root_step_key sid))
          | Some ws \<Rightarrow> Inr (map (stamp_retry_decision (retry_policy (ws_config ws)) run_id (root_step_key sid) w) results)))"

text \<open>
  How a worker task ends: the step function ran, with this body and failing at this time if it fails;
  or it raised before or after the body (while resources are resolved, for instance); or the task was
  cancelled.
\<close>

datatype worker_end = Ended "step_args \<Rightarrow> step_prog" real | Broken exn real | Cancelled

definition step_results ::
  "(string, step_config) dict \<Rightarrow> waiter_names \<Rightarrow> (step_args \<Rightarrow> step_prog) \<Rightarrow> real \<Rightarrow> run_request \<Rightarrow> in_progress \<Rightarrow>
   step_result list res"
where
  "step_results steps wn body now rq w =
    map_sum id co_returns (step_worker_function steps wn body (root_step_key (rq_step_id rq)) (ip_shared_state w)
      (rq_event rq) (rq_bound_events rq) (ip_recovery_counts w) now)"

text \<open>
  The coroutine \<open>_run_worker\<close>. An exception outside the step function is reported as a failure of the
  step; one in reporting it makes the task itself fail.
\<close>

definition worker_report ::
  "(string, step_config) dict \<Rightarrow> waiter_names \<Rightarrow> string option \<Rightarrow> broker_state \<Rightarrow> run_request \<Rightarrow> in_progress res \<Rightarrow>
   (exn + (step_args \<Rightarrow> step_prog)) \<Rightarrow> real \<Rightarrow> step_result_tick res"
where
  "worker_report steps wn run_id s rq worker body now =
    (let stamp = stamp_retry_decisions s run_id (rq_step_id rq);
         tick = (\<lambda>rs. \<lparr>sr_step_id = rq_step_id rq, sr_worker_id = rq_id rq, sr_event = rq_event rq, sr_result = rs\<rparr>);
         ran = (case worker of
                  Inl e \<Rightarrow> Inl e
                | Inr w \<Rightarrow>
                    (case body of
                       Inl e \<Rightarrow> Inl e
                     | Inr p \<Rightarrow>
                         (case step_results steps wn p now rq w of
                            Inl e \<Rightarrow> Inl e
                          | Inr rs \<Rightarrow> stamp (Some w) rs)))
     in case ran of
          Inr rs \<Rightarrow> Inr (tick rs)
        | Inl e \<Rightarrow> map_sum id tick
            (stamp (case worker of Inl _ \<Rightarrow> None | Inr w \<Rightarrow> Some w) [StepWorkerFailed e now None None]))"

fun is_stop_result :: "step_result \<Rightarrow> bool" where
  "is_stop_result (StepWorkerResult (Some ev) _) \<longleftrightarrow> isinstance ev StopEventT"
| "is_stop_result _ \<longleftrightarrow> False"

text \<open>A worker task completed: its report is buffered; a stop event in it cancels the other workers.\<close>

definition worker_completed ::
  "(string, step_config) dict \<Rightarrow> waiter_names \<Rightarrow> string option \<Rightarrow> nat \<Rightarrow> worker_end \<Rightarrow> runner \<Rightarrow> runner"
where
  "worker_completed steps wn run_id i ended r =
    (if i < length (rn_worker_tasks r) then
       (let t = begin_task (rn_state r) (rn_worker_tasks r ! i);
            worker = (case wt_progress t of Begun w \<Rightarrow> w | Created \<Rightarrow> find_worker (rn_state r) (wt_request t));
            report = worker_report steps wn run_id (rn_state r) (wt_request t) worker;
            r1 = r\<lparr>rn_worker_tasks := take i (rn_worker_tasks r) @ drop (Suc i) (rn_worker_tasks r)\<rparr>;
            finish = (\<lambda>out. case out of
                Inl e \<Rightarrow> r1
              | Inr tick \<Rightarrow> buffer_tick (TickStepResult tick)
                  (if list_ex is_stop_result (sr_result tick) then cleanup_tasks r1 else r1))
        in case ended of
             Cancelled \<Rightarrow> r1
           | Broken e now \<Rightarrow> finish (report (Inl e) now)
           | Ended body now \<Rightarrow> finish (report (Inr body) now))
     else r)"

section \<open>The loop\<close>

fun is_idle_check :: "tick \<Rightarrow> bool" where
  "is_idle_check TickIdleCheck \<longleftrightarrow> True"
| "is_idle_check _ \<longleftrightarrow> False"

text \<open>Reducing the buffered ticks. An idle check waits until nothing else is buffered.\<close>

partial_function (option) drain_buffer ::
  "(nat \<Rightarrow> real) \<Rightarrow> string option \<Rightarrow> runner \<Rightarrow> (runner \<times> outcome) option"
where
  "drain_buffer clock run_id r =
    (case rn_tick_buffer r of
       [] \<Rightarrow> Some (r, Going)
     | t # ts \<Rightarrow>
         if is_idle_check t \<and> ts \<noteq> [] then drain_buffer clock run_id (r\<lparr>rn_tick_buffer := ts @ [t]\<rparr>)
         else (let r1 = r\<lparr>rn_tick_buffer := ts, rn_idle_check_pending := (rn_idle_check_pending r \<and> \<not> is_idle_check t)\<rparr>
               in case process_tick clock run_id t r1 of
                    (r2, Going) \<Rightarrow> drain_buffer clock run_id r2
                  | (r2, Finished ev) \<Rightarrow> Some (r2, Finished ev)
                  | (r2, Crashed e) \<Rightarrow> Some (r2, Crashed e)))"

declare drain_buffer.simps [code]

text \<open>Everything pending is started; the pull task is started again once it has completed.\<close>

definition launch :: "runner \<Rightarrow> runner" where
  "launch r = r\<lparr>rn_worker_tasks := rn_worker_tasks r @
        map (\<lambda>rq. \<lparr>wt_request = rq, wt_progress = Created\<rparr>) (rn_pending_workers r),
      rn_pending_workers := [], rn_pull_task := True,
      rn_pull_sequence := (if rn_pull_task r then rn_pull_sequence r else Suc (rn_pull_sequence r))\<rparr>"

text \<open>The \<open>finally\<close> block of \<open>run\<close>.\<close>

definition shut_down :: "runner \<Rightarrow> runner" where
  "shut_down r = cleanup_tasks (r\<lparr>rn_pull_task := False\<rparr>)"

text \<open>
  One pass of the loop up to \<open>wait_for_next_task\<close>; the last component is the timeout it waits with.
\<close>

definition loop_pass ::
  "(nat \<Rightarrow> real) \<Rightarrow> string option \<Rightarrow> runner \<Rightarrow> (runner \<times> outcome \<times> real option) option"
where
  "loop_pass clock run_id r =
    (let (now, r1) = get_now clock r in
     case drain_buffer clock run_id r1 of
       None \<Rightarrow> None
     | Some (r2, Going) \<Rightarrow>
         (let (now2, r3) = (if rn_tick_buffer r1 = [] then (now, r2) else get_now clock r2)
          in Some (launch r3, Going, next_wakeup_timeout now2 r3))
     | Some (r2, out) \<Rightarrow> Some (shut_down r2, out, None))"

text \<open>What happens while the loop waits, or ends its waiting.\<close>

datatype loop_event =
    TaskBegins nat
  | WaitTimeout
  | PullDone "tick option"
  | WorkerDone nat worker_end

definition buffer_ticks :: "tick list \<Rightarrow> runner \<Rightarrow> runner" where
  "buffer_ticks ts r = r\<lparr>rn_tick_buffer := rn_tick_buffer r @ ts\<rparr>"

fun loop_turn ::
  "(string, step_config) dict \<Rightarrow> waiter_names \<Rightarrow> (nat \<Rightarrow> real) \<Rightarrow> string option \<Rightarrow> loop_event \<Rightarrow> runner \<Rightarrow>
   (runner \<times> outcome \<times> real option) option"
where
  "loop_turn steps wn clock run_id (TaskBegins i) r =
     Some (r\<lparr>rn_worker_tasks := (if i < length (rn_worker_tasks r)
             then (rn_worker_tasks r)[i := begin_task (rn_state r) (rn_worker_tasks r ! i)] else rn_worker_tasks r)\<rparr>,
           Going, None)"
| "loop_turn steps wn clock run_id WaitTimeout r =
     (let (now, r1) = get_now clock r; (due, r2) = pop_due_ticks now r1
      in loop_pass clock run_id (buffer_ticks due r2))"
| "loop_turn steps wn clock run_id (PullDone t) r =
     loop_pass clock run_id ((case t of None \<Rightarrow> r | Some tick \<Rightarrow> buffer_tick tick r)\<lparr>rn_pull_task := False\<rparr>)"
| "loop_turn steps wn clock run_id (WorkerDone i ended) r =
     loop_pass clock run_id (worker_completed steps wn run_id i ended r)"

text \<open>
  \<open>run\<close>: queue the start event, schedule the timeout, resume the work in progress, and loop. Here
  the results of the commands are not looked at, only their exceptions.
\<close>

fun resume_commands :: "(nat \<Rightarrow> real) \<Rightarrow> command list \<Rightarrow> runner \<Rightarrow> runner \<times> outcome" where
  "resume_commands clock [] r = (r, Going)"
| "resume_commands clock (c # cs) r =
    (case process_command clock c r of
       (r1, Crashed e) \<Rightarrow> (cleanup_tasks r1, Crashed e)
     | (r1, _) \<Rightarrow> resume_commands clock cs r1)"

definition queue_start :: "event option \<Rightarrow> runner \<Rightarrow> runner" where
  "queue_start start_event r =
    (case start_event of None \<Rightarrow> r | Some ev \<Rightarrow> buffer_tick (TickAddEvent (add_event_of ev)) r)"

definition arm_timeout :: "real option \<Rightarrow> bool \<Rightarrow> real \<Rightarrow> runner \<Rightarrow> runner" where
  "arm_timeout timeout start_with_timeout start r =
    (case timeout of
       None \<Rightarrow> r
     | Some t \<Rightarrow> if start_with_timeout then schedule_tick (TickTimeout t) (start + t) r else r)"

definition start_run ::
  "(nat \<Rightarrow> real) \<Rightarrow> real option \<Rightarrow> event option \<Rightarrow> bool \<Rightarrow> broker_state \<Rightarrow> runner \<times> outcome"
where
  "start_run clock timeout start_event start_with_timeout init =
    (let (start, r1) = get_now clock (queue_start start_event (new_runner init));
         r2 = arm_timeout timeout start_with_timeout start r1;
         rewound = rewind_in_progress (rn_state r2) start
     in resume_commands clock (snd rewound) (r2\<lparr>rn_state := fst rewound\<rparr>))"

text \<open>
  The list is what happens at the successive waits; the result after all of it is the state in which
  the loop waits again, or its end.
\<close>

fun run_events ::
  "(string, step_config) dict \<Rightarrow> waiter_names \<Rightarrow> (nat \<Rightarrow> real) \<Rightarrow> string option \<Rightarrow> loop_event list \<Rightarrow>
   (runner \<times> outcome) \<Rightarrow> (runner \<times> outcome) option"
where
  "run_events steps wn clock run_id [] st = Some st"
| "run_events steps wn clock run_id (e # es) (r, Going) =
     (case loop_turn steps wn clock run_id e r of
        None \<Rightarrow> None
      | Some (r', out, timeout) \<Rightarrow> run_events steps wn clock run_id es (r', out))"
| "run_events steps wn clock run_id (e # es) st = Some st"

definition run ::
  "(string, step_config) dict \<Rightarrow> waiter_names \<Rightarrow> (nat \<Rightarrow> real) \<Rightarrow> string option \<Rightarrow> real option \<Rightarrow> event option \<Rightarrow> bool \<Rightarrow>
   broker_state \<Rightarrow> loop_event list \<Rightarrow> (runner \<times> outcome) option"
where
  "run steps wn clock run_id timeout start_event with_timeout init es =
    (case start_run clock timeout start_event with_timeout init of
       (r, Going) \<Rightarrow>
         (case loop_pass clock run_id r of
            None \<Rightarrow> None
          | Some (r', out, wait) \<Rightarrow> run_events steps wn clock run_id es (r', out))
     | st \<Rightarrow> Some st)"

end
