(* ===== verification/Runner_Facts.thy ===== *)
theory Runner_Facts
  imports Runner
begin

text \<open>
  What the loop guarantees, whatever the adapter and the step functions do: the scheduled ticks come
  out when due and in order; each turn of the loop ends; every execution in progress is in the hands
  of one worker, so that the reducer accepts every report; the journal of ticks replays to the
  loop's state; no delayed retry is without a timer.
\<close>

section \<open>Scheduled ticks\<close>

definition heap_ok :: "runner \<Rightarrow> bool" where
  "heap_ok r \<longleftrightarrow> sorted_wrt due_before (rn_scheduled_wakeups r) \<and>
     list_all (\<lambda>(t, n, k). n < rn_wakeup_sequence r) (rn_scheduled_wakeups r)"

lemma set_heappush [simp]: "set (heappush x h) = insert x (set h)"
  by (induction x h rule: heappush.induct) auto

lemma due_before_total:
  assumes "\<not> due_before (t, n, k) (t', n', k')" and "n' < n" shows "due_before (t', n', k') (t, n, k)"
  using assms by auto

lemma due_before_trans: "due_before x y \<Longrightarrow> due_before y z \<Longrightarrow> due_before x z"
  by (cases x; cases y; cases z) auto

lemma sorted_heappush:
  assumes "sorted_wrt due_before h" and "\<forall>(t', n', k') \<in> set h. n' < n"
  shows "sorted_wrt due_before (heappush (t, n, k) h)"
  using assms
proof (induction h)
  case (Cons y h)
  obtain t' n' k' where y: "y = (t', n', k')" by (cases y) auto
  show ?case
  proof (cases "due_before (t, n, k) y")
    case True
    with Cons.prems show ?thesis by (auto intro: due_before_trans simp del: due_before.simps)
  next
    case False
    moreover from Cons.prems y have "n' < n" by simp
    ultimately have "due_before y (t, n, k)" unfolding y by (rule due_before_total)
    with False Cons show ?thesis by (auto simp del: due_before.simps)
  qed
qed simp

lemma schedule_tick_heap: "heap_ok r \<Longrightarrow> heap_ok (schedule_tick t at_time r)"
  by (auto simp: heap_ok_def schedule_tick_def list_all_iff intro!: sorted_heappush)

text \<open>Popping takes the due entries, in their order, and leaves the others.\<close>

lemma pop_due_spec:
  assumes "sorted_wrt due_before h"
  shows "pop_due now h = (map (\<lambda>x. snd (snd x)) (filter (\<lambda>x. fst x \<le> now) h), filter (\<lambda>x. now < fst x) h)"
  using assms
proof (induction now h rule: pop_due.induct)
  case (2 now t n k h)
  have "now < fst x" if "x \<in> set h" "now < t" for x
    using bspec [of "set h" "due_before (t, n, k)", OF _ that(1)] 2(2) that(2) by (cases x) auto
  then have "now < t \<Longrightarrow> filter (\<lambda>x. fst x \<le> now) h = [] \<and> filter (\<lambda>x. now < fst x) h = h"
    by (force simp: filter_empty_conv filter_id_conv)
  with 2 show ?case by (auto simp: Let_def not_le)
qed simp

lemma pop_due_set: "set (snd (pop_due now h)) \<subseteq> set h" "set (fst (pop_due now h)) \<subseteq> (\<lambda>(t, n, k). k) ` set h"
  by (induction now h rule: pop_due.induct) (auto simp: Let_def)

section \<open>Commands\<close>

text \<open>The ticks a list of commands buffers, when an idle check may be pending already.\<close>

fun new_ticks :: "bool \<Rightarrow> command list \<Rightarrow> tick list" where
  "new_ticks p [] = []"
| "new_ticks p (CommandQueueEvent ev step rc path # cs) =
     TickAddEvent ((add_event_of ev)\<lparr>ae_step_id := step, ae_recovery_counts := rc, ae_scope_path := path\<rparr>) # new_ticks p cs"
| "new_ticks p (CommandScheduleIdleCheck # cs) = (if p then [] else [TickIdleCheck]) @ new_ticks True cs"
| "new_ticks p (c # cs) = new_ticks p cs"

definition request_slot :: "run_request \<Rightarrow> string \<times> nat" where
  "request_slot rq = (root_step_key (rq_step_id rq), rq_id rq)"

definition wakeups_in :: "(real \<times> nat \<times> tick) list \<Rightarrow> real set" where
  "wakeups_in h = {t. \<exists>n. (t, n, TickWakeup t) \<in> set h}"

fun is_timer :: "tick \<Rightarrow> bool" where
  "is_timer (TickWakeup _) \<longleftrightarrow> True"
| "is_timer (TickWaiterTimeout _ _) \<longleftrightarrow> True"
| "is_timer (TickTimeout _) \<longleftrightarrow> True"
| "is_timer _ \<longleftrightarrow> False"

text \<open>What the commands do to the runner when none of them ends the run.\<close>

definition commands_done :: "command list \<Rightarrow> runner \<Rightarrow> runner \<Rightarrow> bool" where
  "commands_done cs r r' \<longleftrightarrow> rn_state r' = rn_state r \<and> rn_on_tick r' = rn_on_tick r \<and>
     rn_worker_tasks r' = rn_worker_tasks r \<and> rn_closed r' = rn_closed r \<and>
     map request_slot (rn_pending_workers r') = map request_slot (rn_pending_workers r) @ run_slots cs \<and>
     rn_tick_buffer r' = rn_tick_buffer r @ new_ticks (rn_idle_check_pending r) cs \<and>
     (rn_idle_check_pending r' \<longleftrightarrow> rn_idle_check_pending r \<or> CommandScheduleIdleCheck \<in> set cs) \<and>
     wakeups_in (rn_scheduled_wakeups r) \<union> wakeup_times cs \<subseteq> wakeups_in (rn_scheduled_wakeups r') \<and>
     (\<forall>x \<in> set (rn_scheduled_wakeups r'). x \<in> set (rn_scheduled_wakeups r) \<or> is_timer (snd (snd x)))"

lemma process_command_done:
  assumes "\<not> indicates_exit c"
  shows "\<exists>r'. process_command clock c r = (r', Going) \<and> commands_done [c] r r'"
  using assms by (cases c)
    (auto simp: commands_done_def buffer_tick_def run_worker_def request_slot_def schedule_tick_def get_now_def
        wakeup_times_def wakeups_in_def)

lemma new_ticks_append: "new_ticks p (cs @ ds) = new_ticks p cs @ new_ticks (p \<or> CommandScheduleIdleCheck \<in> set cs) ds"
  by (induction p cs rule: new_ticks.induct) auto

lemma commands_done_trans:
  assumes "commands_done cs r r1" and "commands_done ds r1 r2" shows "commands_done (cs @ ds) r r2"
  using assms unfolding commands_done_def by (auto simp: new_ticks_append)

lemma process_commands_done:
  assumes "\<not> list_ex indicates_exit cs"
  shows "\<exists>r'. process_commands clock cs r = (r', Going) \<and> resume_commands clock cs r = (r', Going) \<and> commands_done cs r r'"
  using assms
proof (induction cs arbitrary: r)
  case (Cons c cs)
  then obtain r1 where c: "process_command clock c r = (r1, Going)" "commands_done [c] r r1"
    using process_command_done [of c clock r] by auto
  moreover from Cons obtain r' where "process_commands clock cs r1 = (r', Going)" "resume_commands clock cs r1 = (r', Going)"
    "commands_done cs r1 r'" by force
  ultimately show ?case using commands_done_trans [of "[c]" r r1 cs r'] by auto
qed (simp add: commands_done_def wakeup_times_def)

text \<open>Otherwise the run ends the way one of the commands says.\<close>

fun ends_run :: "command \<Rightarrow> outcome \<Rightarrow> bool" where
  "ends_run (CommandHalt e) out \<longleftrightarrow> out = Crashed e"
| "ends_run (CommandFailWorkflow sid e) out \<longleftrightarrow> out = Crashed e"
| "ends_run (CommandCompleteRun ev) out \<longleftrightarrow> out = Finished ev"
| "ends_run _ out \<longleftrightarrow> False"

lemma process_commands_exit:
  assumes "list_ex indicates_exit cs"
  shows "\<exists>c \<in> set cs. ends_run c (snd (process_commands clock cs r)) \<and> snd (process_commands clock cs r) \<noteq> Going"
  using assms
proof (induction cs arbitrary: r)
  case (Cons c cs)
  show ?case
  proof (cases "indicates_exit c")
    case True
    then show ?thesis by (cases c) auto
  next
    case False
    then obtain r1 where "process_command clock c r = (r1, Going)" using process_command_done [of c clock r] by auto
    with Cons False show ?thesis by auto
  qed
qed simp

lemma process_command_frame:
  "rn_state (fst (process_command clock c r)) = rn_state r \<and> rn_on_tick (fst (process_command clock c r)) = rn_on_tick r"
  by (cases c) (simp_all add: buffer_tick_def run_worker_def schedule_tick_def get_now_def cleanup_tasks_def)

lemma process_commands_frame:
  "rn_state (fst (process_commands clock cs r)) = rn_state r \<and> rn_on_tick (fst (process_commands clock cs r)) = rn_on_tick r"
proof (induction cs arbitrary: r)
  case (Cons c cs)
  with process_command_frame [of clock c r] show ?case by (auto simp: cleanup_tasks_def split: prod.splits outcome.splits)
qed simp

section \<open>The invariant of the loop\<close>

fun report_slot :: "tick \<Rightarrow> (string \<times> nat) option" where
  "report_slot (TickStepResult t) = Some (root_step_key (sr_step_id t), sr_worker_id t)"
| "report_slot _ = None"

definition report_slots :: "tick list \<Rightarrow> (string \<times> nat) list" where
  "report_slots ts = List.map_filter report_slot ts"

lemma report_slots_simps [simp]:
  "report_slots [] = []" "report_slots (t # ts) = (case report_slot t of None \<Rightarrow> report_slots ts | Some x \<Rightarrow> x # report_slots ts)"
  "report_slots (ts @ us) = report_slots ts @ report_slots us"
  by (simp_all add: report_slots_def List.map_filter_def split: option.splits)

text \<open>Who holds a slot: a coroutine not yet started, a worker task, or a report not yet reduced.\<close>

definition owners :: "runner \<Rightarrow> (string \<times> nat) list" where
  "owners r = map request_slot (rn_pending_workers r) @ map (\<lambda>t. request_slot (wt_request t)) (rn_worker_tasks r) @
     report_slots (rn_tick_buffer r)"

fun tick_fits :: "broker_state \<Rightarrow> tick \<Rightarrow> bool" where
  "tick_fits s (TickStepResult t) \<longleftrightarrow> results_classifiable (sr_result t) \<and> adds (sr_result t) \<le> 2"
| "tick_fits s t \<longleftrightarrow> tick_ok s t"

definition idle_checks :: "tick list \<Rightarrow> nat" where
  "idle_checks ts = length (filter is_idle_check ts)"

lemma idle_checks_simps [simp]:
  "idle_checks [] = 0" "idle_checks (t # ts) = (if is_idle_check t then Suc (idle_checks ts) else idle_checks ts)"
  "idle_checks (ts @ us) = idle_checks ts + idle_checks us"
  by (simp_all add: idle_checks_def)

text \<open>The times at which a wakeup will come, from the heap or the buffer.\<close>

definition wakeups :: "runner \<Rightarrow> real set" where
  "wakeups r = wakeups_in (rn_scheduled_wakeups r) \<union> {t. \<exists>due. TickWakeup due \<in> set (rn_tick_buffer r) \<and> t \<le> due}"

text \<open>A task that has begun has found its worker in the state.\<close>

definition found_worker :: "worker_task \<Rightarrow> bool" where
  "found_worker t \<longleftrightarrow> (\<forall>e. wt_progress t \<noteq> Begun (Inl e))"

definition runner_ok :: "runner \<Rightarrow> bool" where
  "runner_ok r \<longleftrightarrow> state_ok (rn_state r) \<and> distinct (owners r) \<and> set (owners r) \<subseteq> slots (rn_state r) \<and>
     list_all (tick_fits (rn_state r)) (rn_tick_buffer r) \<and>
     list_all (\<lambda>x. is_timer (snd (snd x))) (rn_scheduled_wakeups r) \<and>
     idle_checks (rn_tick_buffer r) = (if rn_idle_check_pending r then 1 else 0) \<and>
     delays_in (wakeups r) (rn_state r) \<and> list_all found_worker (rn_worker_tasks r)"

text \<open>Every slot in use is held by someone.\<close>

definition lossless :: "runner \<Rightarrow> bool" where
  "lossless r \<longleftrightarrow> slots (rn_state r) \<subseteq> set (owners r)"

lemma new_ticks_facts:
  "report_slots (new_ticks p cs) = []"
  "list_all (tick_fits s) (new_ticks p cs)"
  "idle_checks (new_ticks p cs) = (if \<not> p \<and> CommandScheduleIdleCheck \<in> set cs then 1 else 0)"
  "\<not> list_ex queues_event cs \<Longrightarrow> list_all is_idle_check (new_ticks p cs)"
  by (induction p cs rule: new_ticks.induct) (simp_all add: add_event_of_def)

lemma slots_running: "(n, i) \<in> slots s \<longleftrightarrow> (\<exists>w. dget (workers s) n = Some w \<and> list_ex (\<lambda>e. ip_worker_id e = i) (ws_in_progress w))"
  by (auto simp: slots_def pool_ids_def list_ex_iff)

lemma tick_fits_ok:
  assumes "tick_fits s t" and "\<And>x. report_slot t = Some x \<Longrightarrow> x \<in> slots s" shows "tick_ok s t"
  using assms by (cases t) (auto simp: slots_running)

lemma tick_fits_config: "config s' = config s \<Longrightarrow> tick_fits s' t = tick_fits s t"
  by (cases t) (simp_all split: option.splits)

lemma reduce_tick_state_ok:
  assumes "state_ok s" and "reduce_tick t s now run_id = Inr (s', cmds)"
  shows "state_ok s'" and "config s' = config s"
proof -
  note k = reduce_tick_worker_ok [OF assms(2) state_ok_pools(1) [OF assms(1)]]
  then show "config s' = config s" by (simp add: keeps_def)
  from assms show "state_ok s'" by (rule replay_ok.tick_Inv)
qed

text \<open>The slots before and after a tick, and those it starts.\<close>

lemma reduce_tick_slots:
  assumes "state_ok s" and "reduce_tick t s now run_id = Inr (s', cmds)" and "\<not> list_ex indicates_exit cmds"
    and "tick_fits s t"
  shows "slots s' = (slots s - set_option (report_slot t)) \<union> set (run_slots cmds)"
    and "set (run_slots cmds) \<inter> (slots s - set_option (report_slot t)) = {}" and "distinct (run_slots cmds)"
    and "report_slot t = None \<Longrightarrow> \<not> list_ex queues_event cmds"
proof -
  have *: "slots s' = (slots s - set_option (report_slot t)) \<union> set (run_slots cmds) \<and>
     set (run_slots cmds) \<inter> (slots s - set_option (report_slot t)) = {} \<and> distinct (run_slots cmds) \<and>
     (report_slot t = None \<longrightarrow> \<not> list_ex queues_event cmds)"
  proof (cases "\<exists>r. t = TickStepResult r")
    case True
    then obtain r where r: "t = TickStepResult r" by blast
    from reduce_step_result_runs [OF assms(2) [unfolded r] assms(3) state_ok_pools(2) [OF assms(1)]] assms(4)
    show ?thesis unfolding frees_slot_def by (simp add: r)
  next
    case False
    then have "report_slot t = None" by (cases t) auto
    moreover from False have "emits s s' cmds"
      using reduce_tick_emits [OF assms(2) state_ok_pools(1) [OF assms(1)]] by blast
    ultimately show ?thesis unfolding emits_def by auto
  qed
  then show "slots s' = (slots s - set_option (report_slot t)) \<union> set (run_slots cmds)"
    and "set (run_slots cmds) \<inter> (slots s - set_option (report_slot t)) = {}" and "distinct (run_slots cmds)"
    and "report_slot t = None \<Longrightarrow> \<not> list_ex queues_event cmds" by blast+
qed

lemma timer_fits: "is_timer t \<Longrightarrow> tick_fits s t \<and> report_slot t = None \<and> \<not> is_idle_check t"
  by (cases t) simp_all

lemma delays_in_mono: "delays_in D s \<Longrightarrow> D \<subseteq> E \<Longrightarrow> delays_in E s"
  unfolding delays_in_def by (erule list.pred_mono_strong) auto

text \<open>The delays after a tick: a wakeup accounts for those that are due, the commands for the new ones.\<close>

lemma reduce_tick_timed:
  assumes "state_ok s" and "reduce_tick t s now run_id = Inr (s', cmds)"
    and "delays_in (W \<union> {x. \<exists>due. t = TickWakeup due \<and> x \<le> due}) s" and "wakeup_times cmds \<subseteq> W"
  shows "delays_in W s'"
proof (cases "\<exists>due. t = TickWakeup due")
  case True
  then obtain due where t: "t = TickWakeup due" by blast
  with assms(2) have "s' = fst (process_wakeup_tick due s now)" by (auto dest: arg_cong [where f = fst])
  moreover from assms(3) have "delays_in (W \<union> {..due}) s" by (rule delays_in_mono) (auto simp: t)
  ultimately show ?thesis using wakeup_clears_delays [OF state_ok_pools(1) [OF assms(1)]] by simp
next
  case False
  with assms show ?thesis using reduce_tick_delays [OF assms(2) state_ok_pools(1) [OF assms(1)], of W] by simp
qed

text \<open>Why a run ended: the last tick of the journal was reduced to a command that says so.\<close>

definition ended_by_command :: "string option \<Rightarrow> runner \<Rightarrow> outcome \<Rightarrow> bool" where
  "ended_by_command run_id r out \<longleftrightarrow> rn_on_tick r \<noteq> [] \<and>
     (\<exists>s now cmds. reduce_tick (last (rn_on_tick r)) s now run_id = Inr (rn_state r, cmds) \<and> list_ex (\<lambda>c. ends_run c out) cmds)"

definition take_tick :: "tick \<Rightarrow> tick list \<Rightarrow> runner \<Rightarrow> runner" where
  "take_tick t ts r = r\<lparr>rn_tick_buffer := ts, rn_idle_check_pending := (rn_idle_check_pending r \<and> \<not> is_idle_check t)\<rparr>"

lemma process_tick_reduces:
  assumes "runner_ok r" and "rn_tick_buffer r = t # ts"
  obtains s' cmds where "reduce_tick t (rn_state r) (clock (rn_reads r)) run_id = Inr (s', cmds)"
proof -
  from assms have "tick_fits (rn_state r) t" "\<And>x. report_slot t = Some x \<Longrightarrow> x \<in> slots (rn_state r)" "state_ok (rn_state r)"
    by (auto simp: runner_ok_def owners_def)
  then have "tick_ok (rn_state r) t" by (blast intro: tick_fits_ok)
  with \<open>state_ok (rn_state r)\<close> that show thesis using reduce_tick_accepts by blast
qed

lemma process_tick_ends:
  assumes "reduce_tick t (rn_state r) (clock (rn_reads r)) run_id = Inr (s', cmds)" and "list_ex indicates_exit cmds"
  shows "\<exists>r2 out. process_tick clock run_id t (take_tick t ts r) = (r2, out) \<and> out \<noteq> Going \<and> ended_by_command run_id r2 out"
proof -
  define r1 where "r1 = (take_tick t ts r)\<lparr>rn_reads := Suc (rn_reads r), rn_state := s', rn_on_tick := rn_on_tick r @ [t]\<rparr>"
  obtain r2 out where p: "process_commands clock cmds r1 = (r2, out)" by fastforce
  with process_commands_exit [OF assms(2), of clock r1] have out: "out \<noteq> Going" "list_ex (\<lambda>c. ends_run c out) cmds"
    by (auto simp: list_ex_iff)
  moreover from process_commands_frame [of clock cmds r1] p have "rn_state r2 = s'" "rn_on_tick r2 = rn_on_tick r @ [t]"
    by (simp_all add: r1_def)
  moreover have "process_tick clock run_id t (take_tick t ts r) = (r2, out)"
    using assms(1) p out(1) by (cases out) (simp_all add: process_tick_def get_now_def take_tick_def r1_def)
  ultimately show ?thesis using assms(1) by (auto simp: ended_by_command_def)
qed

lemma owners_exchange:
  assumes "distinct (P @ T @ B')" and "set (P @ T @ B') \<subseteq> S" and "set R \<inter> (S - set_option x) = {}" and "distinct R"
    and B': "B' = (case x of None \<Rightarrow> B | Some y \<Rightarrow> y # B)"
  shows "set ((P @ R) @ T @ B) = set R \<union> (set (P @ T @ B') - set_option x)" and "distinct ((P @ R) @ T @ B)"
proof -
  from assms(1) have rest: "set (P @ T @ B') - set_option x = set P \<union> set T \<union> set B" and d: "distinct (P @ T @ B)"
    by (auto simp: B' split: option.splits)
  then show "set ((P @ R) @ T @ B) = set R \<union> (set (P @ T @ B') - set_option x)" by auto
  from rest assms(2,3) have "set R \<inter> (set P \<union> set T \<union> set B) = {}" by blast
  with d assms(4) show "distinct ((P @ R) @ T @ B)" by auto
qed

text \<open>Otherwise the tick leaves the buffer, the new state is in place, and the commands are done.\<close>

definition tick_done :: "tick \<Rightarrow> tick list \<Rightarrow> broker_state \<Rightarrow> command list \<Rightarrow> runner \<Rightarrow> runner \<Rightarrow> bool" where
  "tick_done t ts s' cmds r r' \<longleftrightarrow>
     commands_done cmds ((take_tick t ts r)\<lparr>rn_state := s', rn_on_tick := rn_on_tick r @ [t]\<rparr>) r'"

lemma process_tick_done:
  assumes "reduce_tick t (rn_state r) (clock (rn_reads r)) run_id = Inr (s', cmds)" and "\<not> list_ex indicates_exit cmds"
  shows "\<exists>r'. process_tick clock run_id t (take_tick t ts r) = (r', Going) \<and> tick_done t ts s' cmds r r'"
proof -
  let ?r1 = "(take_tick t ts r)\<lparr>rn_reads := Suc (rn_reads r), rn_state := s', rn_on_tick := rn_on_tick r @ [t]\<rparr>"
  from process_commands_done [OF assms(2), of clock ?r1] obtain r2 where p: "process_commands clock cmds ?r1 = (r2, Going)"
    and d: "commands_done cmds ?r1 r2" by blast
  let ?r3 = "r2\<lparr>rn_after_tick := rn_after_tick r2 @ [t]\<rparr>"
  have "process_tick clock run_id t (take_tick t ts r) = (?r3, Going)"
    using assms(1) p by (simp add: process_tick_def get_now_def take_tick_def)
  moreover from d have "tick_done t ts s' cmds r ?r3"
    unfolding tick_done_def commands_done_def by (simp add: take_tick_def)
  ultimately show ?thesis by blast
qed

lemma tick_done_fields:
  assumes "tick_done t ts s' cmds r r'"
  defines "p \<equiv> rn_idle_check_pending r \<and> \<not> is_idle_check t"
  shows "rn_state r' = s'" "rn_closed r' = rn_closed r" "rn_worker_tasks r' = rn_worker_tasks r"
    and "map request_slot (rn_pending_workers r') = map request_slot (rn_pending_workers r) @ run_slots cmds"
    and "rn_tick_buffer r' = ts @ new_ticks p cmds"
    and "rn_idle_check_pending r' \<longleftrightarrow> p \<or> CommandScheduleIdleCheck \<in> set cmds"
    and "wakeups_in (rn_scheduled_wakeups r) \<union> wakeup_times cmds \<subseteq> wakeups_in (rn_scheduled_wakeups r')"
    and "\<forall>x \<in> set (rn_scheduled_wakeups r'). x \<in> set (rn_scheduled_wakeups r) \<or> is_timer (snd (snd x))"
  using assms unfolding tick_done_def commands_done_def by (simp_all add: take_tick_def)

lemma tick_done_owners:
  assumes "runner_ok r" and "rn_tick_buffer r = t # ts" and "tick_done t ts s' cmds r r'"
    and "set (run_slots cmds) \<inter> (slots (rn_state r) - set_option (report_slot t)) = {}" and "distinct (run_slots cmds)"
  shows "set (owners r') = set (run_slots cmds) \<union> (set (owners r) - set_option (report_slot t))" "distinct (owners r')"
  using owners_exchange [OF _ _ assms(4,5), of "map request_slot (rn_pending_workers r)"
      "map (\<lambda>t. request_slot (wt_request t)) (rn_worker_tasks r)" "report_slots (t # ts)" "report_slots ts"] assms(1)
  unfolding runner_ok_def owners_def tick_done_fields [OF assms(3)] assms(2) by (simp_all add: new_ticks_facts(1))

lemma tick_done_buffer:
  assumes "runner_ok r" and "rn_tick_buffer r = t # ts" and "tick_done t ts s' cmds r r'" and "config s' = config (rn_state r)"
  shows "list_all (tick_fits s') (rn_tick_buffer r')"
    and "list_all (\<lambda>x. is_timer (snd (snd x))) (rn_scheduled_wakeups r')"
    and "idle_checks (rn_tick_buffer r') = (if rn_idle_check_pending r' then 1 else 0)"
proof -
  note f = tick_done_fields [OF assms(3)]
  from assms(1,2) have ok: "list_all (tick_fits (rn_state r)) ts" "list_all (\<lambda>x. is_timer (snd (snd x))) (rn_scheduled_wakeups r)"
    "idle_checks (t # ts) = (if rn_idle_check_pending r then 1 else 0)" by (simp_all add: runner_ok_def)
  have "tick_fits s' = tick_fits (rn_state r)" by (rule ext) (rule tick_fits_config [OF assms(4)])
  with ok(1) show "list_all (tick_fits s') (rn_tick_buffer r')" by (simp add: f(5) new_ticks_facts(2))
  from ok(2) f(8) show "list_all (\<lambda>x. is_timer (snd (snd x))) (rn_scheduled_wakeups r')" unfolding list_all_iff by blast
  from ok(3) show "idle_checks (rn_tick_buffer r') = (if rn_idle_check_pending r' then 1 else 0)"
    unfolding f(5,6) by (simp add: new_ticks_facts(3) split: if_splits)
qed

lemma tick_done_timed:
  assumes "runner_ok r" and b: "rn_tick_buffer r = t # ts" and d: "tick_done t ts s' cmds r r'"
    and red: "reduce_tick t (rn_state r) now run_id = Inr (s', cmds)"
  shows "delays_in (wakeups r') s'"
proof -
  note f = tick_done_fields [OF d]
  from assms(1) have s: "state_ok (rn_state r)" "delays_in (wakeups r) (rn_state r)" by (simp_all add: runner_ok_def)
  from f(7) have "wakeups r \<subseteq> wakeups r' \<union> {x. \<exists>due. t = TickWakeup due \<and> x \<le> due}"
    by (auto simp: wakeups_def b f(5))
  with s(2) have "delays_in (wakeups r' \<union> {x. \<exists>due. t = TickWakeup due \<and> x \<le> due}) (rn_state r)"
    by (rule delays_in_mono)
  moreover from f(7) have "wakeup_times cmds \<subseteq> wakeups r'" by (auto simp: wakeups_def)
  ultimately show ?thesis by (rule reduce_tick_timed [OF s(1) red])
qed

lemma process_tick_goes_on:
  assumes ok: "runner_ok r" and b: "rn_tick_buffer r = t # ts"
    and red: "reduce_tick t (rn_state r) (clock (rn_reads r)) run_id = Inr (s', cmds)" and nx: "\<not> list_ex indicates_exit cmds"
  shows "\<exists>r2 new. process_tick clock run_id t (take_tick t ts r) = (r2, Going) \<and> runner_ok r2 \<and>
    (lossless r \<longrightarrow> lossless r2) \<and> rn_closed r2 = rn_closed r \<and> rn_tick_buffer r2 = ts @ new \<and> report_slots new = [] \<and>
    (report_slot t = None \<longrightarrow> list_all is_idle_check new) \<and> (is_idle_check t \<longrightarrow> new = [])"
proof -
  from process_tick_done [where clock = clock, OF red nx, of ts] obtain r2
    where run: "process_tick clock run_id t (take_tick t ts r) = (r2, Going)" and d: "tick_done t ts s' cmds r r2" by blast
  note f = tick_done_fields [OF d]
  have s: "state_ok (rn_state r)" "tick_fits (rn_state r) t" using ok b by (simp_all add: runner_ok_def)
  note slots = reduce_tick_slots [OF s(1) red nx s(2)] and s' = reduce_tick_state_ok [OF s(1) red]
  note own = tick_done_owners [OF ok b d slots(2,3)]
  have "set (owners r2) \<subseteq> slots s'" using own(1) slots(1) ok unfolding runner_ok_def by blast
  moreover have "list_all found_worker (rn_worker_tasks r2)" using ok by (simp only: f(3) runner_ok_def)
  ultimately have "runner_ok r2"
    using s'(1) own(2) tick_done_buffer [OF ok b d s'(2)] tick_done_timed [OF ok b d red] by (simp only: runner_ok_def f(1))
  moreover have "lossless r \<longrightarrow> lossless r2" using own(1) slots(1) unfolding lossless_def f(1) by blast
  moreover define new where "new = new_ticks (rn_idle_check_pending r \<and> \<not> is_idle_check t) cmds"
  have "report_slot t = None \<longrightarrow> list_all is_idle_check new"
    unfolding new_def using slots(4) by (simp add: new_ticks_facts(4))
  moreover have "is_idle_check t \<longrightarrow> new = []"
    unfolding new_def using red by (cases t) (auto simp: process_idle_check_tick_def split: if_splits option.splits)
  moreover have "rn_tick_buffer r2 = ts @ new" "report_slots new = []"
    unfolding new_def by (simp_all add: f(5) new_ticks_facts(1))
  ultimately show ?thesis using run f(2) by (intro exI [of _ r2] exI [of _ new] conjI)
qed

section \<open>Draining the buffer ends\<close>

text \<open>
  Reducing a report may queue events, any other tick at most an idle check; a pending idle check goes
  round the buffer until it is alone. So each round decreases, in this order: the reports, the other
  ticks, and the idle checks with their distance from the end.
\<close>

definition others :: "tick list \<Rightarrow> nat" where
  "others ts = length (filter (\<lambda>t. report_slot t = None \<and> \<not> is_idle_check t) ts)"

definition rounds_left :: "runner \<Rightarrow> nat \<times> nat \<times> nat" where
  "rounds_left r = (let ts = rn_tick_buffer r in (length (report_slots ts), others ts,
     idle_checks ts + (case ts of [] \<Rightarrow> 0 | t # _ \<Rightarrow> if is_idle_check t then 1 else 0)))"

definition fewer_rounds :: "(runner \<times> runner) set" where
  "fewer_rounds = inv_image (less_than <*lex*> less_than <*lex*> less_than) rounds_left"

lemma wf_fewer_rounds: "wf fewer_rounds"
  unfolding fewer_rounds_def by (intro wf_inv_image wf_lex_prod wf_less_than)

lemma others_simps [simp]:
  "others [] = 0" "others (ts @ us) = others ts + others us"
  "others (t # ts) = (if report_slot t = None \<and> \<not> is_idle_check t then Suc (others ts) else others ts)"
  by (simp_all add: others_def)

lemma others_idle: "list_all is_idle_check ts \<Longrightarrow> others ts = 0"
  by (induction ts) simp_all

lemma rotate_fewer:
  assumes "rn_tick_buffer r = t # ts" and "is_idle_check t" and "ts \<noteq> []" and "idle_checks (rn_tick_buffer r) \<le> 1"
  shows "(r\<lparr>rn_tick_buffer := ts @ [t]\<rparr>, r) \<in> fewer_rounds"
proof -
  have "report_slot t = None" using assms(2) by (cases t) simp_all
  with assms show ?thesis
    by (cases ts) (auto simp: fewer_rounds_def rounds_left_def Let_def)
qed

lemma process_fewer:
  assumes "rn_tick_buffer r = t # ts" and "rn_tick_buffer r' = ts @ new" and "report_slots new = []"
    and "report_slot t = None \<longrightarrow> list_all is_idle_check new" and "is_idle_check t \<longrightarrow> new = [] \<and> ts = []"
  shows "(r', r) \<in> fewer_rounds"
proof (cases "report_slot t")
  case None
  with assms(4) have "others new = 0" by (simp add: others_idle)
  with None assms show ?thesis
    by (cases "is_idle_check t") (simp_all add: fewer_rounds_def rounds_left_def)
next
  case (Some x)
  with assms show ?thesis by (simp add: fewer_rounds_def rounds_left_def)
qed

definition drained_to :: "string option \<Rightarrow> runner \<Rightarrow> runner \<Rightarrow> outcome \<Rightarrow> bool" where
  "drained_to run_id r r' out \<longleftrightarrow>
    (if out = Going
     then runner_ok r' \<and> rn_tick_buffer r' = [] \<and> (lossless r \<longrightarrow> lossless r') \<and> rn_closed r' = rn_closed r
     else ended_by_command run_id r' out)"

lemma rotate_ok:
  assumes "runner_ok r" and "rn_tick_buffer r = t # ts" and "is_idle_check t"
  shows "runner_ok (r\<lparr>rn_tick_buffer := ts @ [t]\<rparr>)" and "lossless (r\<lparr>rn_tick_buffer := ts @ [t]\<rparr>) = lossless r"
proof -
  have "report_slot t = None" using assms(3) by (cases t) simp_all
  with assms(2) have "owners (r\<lparr>rn_tick_buffer := ts @ [t]\<rparr>) = owners r" by (simp add: owners_def)
  moreover from assms(2) have "wakeups (r\<lparr>rn_tick_buffer := ts @ [t]\<rparr>) = wakeups r" by (auto simp: wakeups_def)
  ultimately show "runner_ok (r\<lparr>rn_tick_buffer := ts @ [t]\<rparr>)" "lossless (r\<lparr>rn_tick_buffer := ts @ [t]\<rparr>) = lossless r"
    using assms by (simp_all add: runner_ok_def lossless_def)
qed

text \<open>One round: the run ends, or the loop goes on with a smaller runner.\<close>

definition drains_on :: "(nat \<Rightarrow> real) \<Rightarrow> string option \<Rightarrow> runner \<Rightarrow> runner \<Rightarrow> bool" where
  "drains_on clock run_id r r' \<longleftrightarrow> drain_buffer clock run_id r = drain_buffer clock run_id r' \<and> (r', r) \<in> fewer_rounds \<and>
     runner_ok r' \<and> (lossless r \<longrightarrow> lossless r') \<and> rn_closed r' = rn_closed r"

lemma drain_rotates:
  assumes "runner_ok r" and b: "rn_tick_buffer r = t # ts" and "is_idle_check t" and "ts \<noteq> []"
  shows "drains_on clock run_id r (r\<lparr>rn_tick_buffer := ts @ [t]\<rparr>)"
proof -
  have "idle_checks (rn_tick_buffer r) \<le> 1" using assms(1) by (simp add: runner_ok_def)
  from rotate_fewer [OF assms(2-4) this] rotate_ok [OF assms(1-3)] assms(3,4) b show ?thesis
    by (simp add: drains_on_def drain_buffer.simps [of clock run_id r])
qed

lemma drain_processes:
  assumes ok: "runner_ok r" and b: "rn_tick_buffer r = t # ts" and alone: "is_idle_check t \<longrightarrow> ts = []"
  shows "(\<exists>r' out. drain_buffer clock run_id r = Some (r', out) \<and> drained_to run_id r r' out) \<or>
    (\<exists>r'. drains_on clock run_id r r')"
proof -
  have step: "drain_buffer clock run_id r = (case process_tick clock run_id t (take_tick t ts r) of
      (r2, Going) \<Rightarrow> drain_buffer clock run_id r2 | (r2, Finished ev) \<Rightarrow> Some (r2, Finished ev)
    | (r2, Crashed e) \<Rightarrow> Some (r2, Crashed e))"
    using alone by (auto simp: drain_buffer.simps [of clock run_id r] b take_tick_def Let_def)
  from process_tick_reduces [OF ok b] obtain s' cmds
    where red: "reduce_tick t (rn_state r) (clock (rn_reads r)) run_id = Inr (s', cmds)" by blast
  show ?thesis
  proof (cases "list_ex indicates_exit cmds")
    case True
    from process_tick_ends [where clock = clock, OF red True, of ts] obtain r2 out
      where "process_tick clock run_id t (take_tick t ts r) = (r2, out)" "out \<noteq> Going" "ended_by_command run_id r2 out"
      by blast
    then show ?thesis by (cases out) (simp_all add: step drained_to_def)
  next
    case nx: False
    from process_tick_goes_on [where clock = clock, OF ok b red nx] obtain r2 new
      where p: "process_tick clock run_id t (take_tick t ts r) = (r2, Going)" and ok: "runner_ok r2"
        "lossless r \<longrightarrow> lossless r2" "rn_closed r2 = rn_closed r"
        and new: "rn_tick_buffer r2 = ts @ new" "report_slots new = []"
          "report_slot t = None \<longrightarrow> list_all is_idle_check new" "is_idle_check t \<longrightarrow> new = []" by (elim exE conjE)
    from alone new(4) have "is_idle_check t \<longrightarrow> new = [] \<and> ts = []" by blast
    with b new(1-3) have "(r2, r) \<in> fewer_rounds" by (rule process_fewer)
    with ok p have "drains_on clock run_id r r2" by (simp add: step drains_on_def)
    then show ?thesis by blast
  qed
qed

lemma drain_buffer_ends:
  "runner_ok r \<Longrightarrow> \<exists>r' out. drain_buffer clock run_id r = Some (r', out) \<and> drained_to run_id r r' out"
proof (induction r rule: wf_induct_rule [OF wf_fewer_rounds])
  case (1 r)
  have on: "\<exists>r' out. drain_buffer clock run_id r = Some (r', out) \<and> drained_to run_id r r' out"
    if "drains_on clock run_id r r1" for r1
  proof -
    from that 1(1) obtain r' out where "drain_buffer clock run_id r1 = Some (r', out)" "drained_to run_id r1 r' out"
      unfolding drains_on_def by blast
    with that show ?thesis by (auto simp: drains_on_def drained_to_def)
  qed
  show ?case
  proof (cases "rn_tick_buffer r")
    case Nil
    then show ?thesis using 1(2) by (simp add: drain_buffer.simps [of clock run_id r] drained_to_def)
  next
    case b: (Cons t ts)
    show ?thesis
    proof (cases "is_idle_check t \<and> ts \<noteq> []")
      case True
      with drain_rotates [OF 1(2) b] on show ?thesis by blast
    next
      case False
      with drain_processes [OF 1(2) b, of clock run_id] on show ?thesis by blast
    qed
  qed
qed

end
