(* ===== verification/Runner_Runs.thy ===== *)
theory Runner_Runs
  imports Runner_Facts
begin

text \<open>
  Whole runs of the loop: the invariant of \<open>Runner_Facts\<close> holds from the start, at every wait, for
  any sequence of timeouts, received ticks and finishing workers, and the loop ends only when the
  reducer says so.
\<close>

section \<open>Reports of workers\<close>

text \<open>A step function that calls \<open>collect_events\<close> at most so often.\<close>

primrec collects_at_most :: "step_prog \<Rightarrow> nat \<Rightarrow> bool" where
  "collects_at_most (Finish r) n \<longleftrightarrow> True"
| "collects_at_most (Fail e) n \<longleftrightarrow> True"
| "collects_at_most (CollectEvents ev expected b k) n \<longleftrightarrow> 0 < n \<and> (\<forall>a. collects_at_most (k a) (n - 1))"
| "collects_at_most (WaitForEvent t we wid reqs timeout k) n \<longleftrightarrow> (\<forall>a. collects_at_most (k a) n)"
| "collects_at_most (SendEvent ev step k) n \<longleftrightarrow> (\<forall>a. collects_at_most (k a) n)"
| "collects_at_most (WriteEvent ev p) n \<longleftrightarrow> collects_at_most p n"

lemma adds_simps [simp]:
  "adds [] = 0" "adds (r # rs) = (if is_add_collected r then Suc (adds rs) else adds rs)" "adds (rs @ qs) = adds rs + adds qs"
  by (simp_all add: adds_def)

lemma ctx_collect_adds: "adds (co_returns (snd (ctx_collect_events st ev expected b out))) \<le> Suc (adds (co_returns out))"
  by (simp add: ctx_collect_events_def Let_def)

lemma run_prog_adds:
  "collects_at_most p n \<Longrightarrow> adds (co_returns (snd (run_prog steps wn st rc p out))) \<le> adds (co_returns out) + n"
proof (induction p arbitrary: out n)
  case (CollectEvents ev expected b k)
  let ?a = "ctx_collect_events st ev expected b out"
  have "adds (co_returns (snd (run_prog steps wn st rc (k (fst ?a)) (snd ?a)))) \<le> adds (co_returns (snd ?a)) + (n - 1)"
    using CollectEvents.prems by (intro CollectEvents.IH [OF rangeI]) simp
  with ctx_collect_adds [of st ev expected b out] CollectEvents.prems show ?case by (simp add: Let_def)
next
  case (WaitForEvent t we wid reqs timeout k)
  have k: "adds (co_returns (snd (run_prog steps wn st rc (k a) (append_return (DeleteWaiter i) out)))) \<le> adds (co_returns out) + n" for a i
    using WaitForEvent.IH [OF rangeI, of a n "append_return (DeleteWaiter i) out"] WaitForEvent.prems by simp
  then show ?case by (simp split: wait_answer.splits)
next
  case (SendEvent ev step k)
  let ?a = "ctx_send_event steps rc ev step out"
  show ?case using SendEvent.IH [OF rangeI, of "fst ?a" n "snd ?a"] SendEvent.prems by (simp add: Let_def)
next
  case (WriteEvent ev p)
  then show ?case using WriteEvent.IH [of n "ctx_write_event ev out"] by simp
qed simp_all

lemma interpret_result_adds: "interpret_result n cfg r = Inr rs \<Longrightarrow> adds rs = 0"
  by (cases r) (auto simp: adds_def filter_empty_conv split: if_splits)

lemma step_results_fit:
  assumes "step_results steps wn body now rq w = Inr rs" and "\<And>args. collects_at_most (body args) n"
  shows "results_classifiable rs" and "adds rs \<le> n"
proof -
  from assms(1) obtain out where out: "step_worker_function steps wn body (root_step_key (rq_step_id rq)) (ip_shared_state w)
      (rq_event rq) (rq_bound_events rq) (ip_recovery_counts w) now = Inr out" and rs: "rs = co_returns out"
    by (cases "step_worker_function steps wn body (root_step_key (rq_step_id rq)) (ip_shared_state w)
      (rq_event rq) (rq_bound_events rq) (ip_recovery_counts w) now") (auto simp: step_results_def)
  from step_worker_function_outcome [OF out] show "results_classifiable rs"
    by (auto simp: rs results_classifiable_def is_outcome_def list_ex_iff list_all_iff neq_Nil_conv)
  from out obtain cfg args where "out = finish_prog (root_step_key (rq_step_id rq)) cfg now
      (run_prog steps wn (ip_shared_state w) (ip_recovery_counts w) (body args) \<lparr>co_returns = [], co_sent = [], co_written = []\<rparr>)"
    by (auto simp: step_worker_function_def Let_def split: option.splits)
  moreover define e where "e = run_prog steps wn (ip_shared_state w) (ip_recovery_counts w) (body args)
    \<lparr>co_returns = [], co_sent = [], co_written = []\<rparr>"
  moreover have "adds (co_returns (snd e)) \<le> n" 
    using run_prog_adds [OF assms(2), where out = "\<lparr>co_returns = [], co_sent = [], co_written = []\<rparr>"] by (simp add: e_def)
  moreover have "\<not> is_add_collected add" if "fst e = WaitingForEvent add" for add
    using run_prog_returns(2) [OF that [unfolded e_def]] by (cases add) simp_all
  ultimately show "adds rs \<le> n"
    by (auto simp: rs finish_prog_def Let_def interpret_result_adds split: prog_end.splits sum.splits)
qed

lemma stamp_fits:
  "is_result (stamp_retry_decision p run_id n w r) = is_result r" "is_failed (stamp_retry_decision p run_id n w r) = is_failed r"
  "is_add_waiter (stamp_retry_decision p run_id n w r) = is_add_waiter r"
  "is_add_collected (stamp_retry_decision p run_id n w r) = is_add_collected r"
  by (cases "(p, run_id, n, w, r)" rule: stamp_retry_decision.cases; simp)+

lemma stamps_fit:
  assumes "stamp_retry_decisions s run_id sid worker rs = Inr qs"
  shows "results_classifiable qs = results_classifiable rs" and "adds qs = adds rs"
  using assms by (auto simp: stamp_retry_decisions_def results_classifiable_def adds_def list_ex_iff list_all_iff
      filter_map comp_def stamp_fits split: option.splits)

definition body_fits :: "(exn + (step_args \<Rightarrow> step_prog)) \<Rightarrow> bool" where
  "body_fits body \<longleftrightarrow> (\<forall>p args. body = Inr p \<longrightarrow> collects_at_most (p args) 2)"

text \<open>A worker of a known step always has a report, which the reducer can classify.\<close>

lemma stamped_fits:
  assumes "dget (workers s) (root_step_key sid) \<noteq> None" and "results_classifiable rs" and "adds rs \<le> 2"
  obtains qs where "stamp_retry_decisions s run_id sid worker rs = Inr qs" and "results_classifiable qs" and "adds qs \<le> 2"
proof -
  from assms(1) obtain qs where qs: "stamp_retry_decisions s run_id sid worker rs = Inr qs"
    by (cases worker) (auto simp: stamp_retry_decisions_def)
  from stamps_fit [OF qs] assms(2,3) that [OF qs] show thesis by simp
qed

lemma worker_report_fits:
  assumes "dget (workers s) (root_step_key (rq_step_id rq)) \<noteq> None" and "body_fits body"
  shows "\<exists>tick. worker_report steps wn run_id s rq worker body now = Inr tick \<and>
    report_slot (TickStepResult tick) = Some (request_slot rq) \<and> tick_fits s (TickStepResult tick)"
proof (cases "\<exists>w p rs. worker = Inr w \<and> body = Inr p \<and> step_results steps wn p now rq w = Inr rs")
  case True
  then obtain w p rs where ran: "worker = Inr w" "body = Inr p" and rs: "step_results steps wn p now rq w = Inr rs" by blast
  have "collects_at_most (p args) 2" for args using assms(2) ran(2) by (simp add: body_fits_def)
  from stamped_fits [OF assms(1) step_results_fit [OF rs this], of run_id "Some w"] obtain qs
    where "stamp_retry_decisions s run_id (rq_step_id rq) (Some w) rs = Inr qs" "results_classifiable qs" "adds qs \<le> 2" .
  with ran rs show ?thesis by (simp add: worker_report_def request_slot_def)
next
  case False
  then obtain e v where w: "worker_report steps wn run_id s rq worker body now =
      map_sum id (\<lambda>rs. \<lparr>sr_step_id = rq_step_id rq, sr_worker_id = rq_id rq, sr_event = rq_event rq, sr_result = rs\<rparr>)
        (stamp_retry_decisions s run_id (rq_step_id rq) v [StepWorkerFailed e now None None])"
    by (cases worker; cases body; cases "step_results steps wn (projr body) now rq (projr worker)")
      (auto simp: worker_report_def)
  have "results_classifiable [StepWorkerFailed e now None None]" "adds [StepWorkerFailed e now None None] \<le> 2"
    by (simp_all add: results_classifiable_def)
  from stamped_fits [OF assms(1) this, of run_id v] obtain qs
    where "stamp_retry_decisions s run_id (rq_step_id rq) v [StepWorkerFailed e now None None] = Inr qs"
      "results_classifiable qs" "adds qs \<le> 2" .
  with w show ?thesis by (simp add: request_slot_def)
qed

section \<open>The moves of the loop\<close>

lemma owners_buffer: "set (owners (buffer_tick t r)) = set (owners r) \<union> set_option (report_slot t)"
  by (auto simp: owners_def buffer_tick_def split: option.splits)

lemma buffer_tick_ok:
  assumes "runner_ok r" and "tick_fits (rn_state r) t" and "\<not> is_idle_check t"
    and "set_option (report_slot t) \<subseteq> slots (rn_state r) - set (owners r)"
  shows "runner_ok (buffer_tick t r)"
proof -
  have "distinct (owners (buffer_tick t r))" using assms(1,4)
    by (auto simp: runner_ok_def owners_def buffer_tick_def split: option.splits)
  moreover have "set (owners (buffer_tick t r)) \<subseteq> slots (rn_state r)" using assms(1,4) unfolding owners_buffer runner_ok_def by blast
  moreover have "wakeups r \<subseteq> wakeups (buffer_tick t r)" by (auto simp: wakeups_def buffer_tick_def)
  then have "delays_in (wakeups (buffer_tick t r)) (rn_state r)" using assms(1) by (auto simp: runner_ok_def intro: delays_in_mono)
  ultimately show ?thesis using assms(1-3) by (simp add: runner_ok_def buffer_tick_def)
qed

lemma cleanup_tasks_ok: "runner_ok r \<Longrightarrow> runner_ok (cleanup_tasks r)"
  by (auto simp: runner_ok_def cleanup_tasks_def owners_def wakeups_def)

definition without_task :: "nat \<Rightarrow> runner \<Rightarrow> runner" where
  "without_task i r = r\<lparr>rn_worker_tasks := take i (rn_worker_tasks r) @ drop (Suc i) (rn_worker_tasks r)\<rparr>"

lemma without_task_ok:
  assumes "runner_ok r" and "i < length (rn_worker_tasks r)"
  defines "x \<equiv> request_slot (wt_request (rn_worker_tasks r ! i))"
  shows "runner_ok (without_task i r)" and "x \<in> slots (rn_state r)" and "set (owners (without_task i r)) = set (owners r) - {x}"
proof -
  let ?T = "rn_worker_tasks r" and ?f = "\<lambda>t. request_slot (wt_request t)"
  have T: "?T = take i ?T @ ?T ! i # drop (Suc i) ?T" using assms(2) by (rule id_take_nth_drop)
  from arg_cong [OF T, of "map ?f"] have mT: "map ?f ?T = map ?f (take i ?T) @ x # map ?f (drop (Suc i) ?T)" by (simp add: x_def)
  have d: "distinct (owners r)" "set (owners r) \<subseteq> slots (rn_state r)" using assms(1) by (simp_all add: runner_ok_def)
  then show "x \<in> slots (rn_state r)" unfolding owners_def mT by simp
  show o: "set (owners (without_task i r)) = set (owners r) - {x}"
    using d(1) unfolding owners_def mT without_task_def by auto
  have "list_all found_worker (take i ?T @ drop (Suc i) ?T)"
    using assms(1) unfolding runner_ok_def by (subst (asm) T) simp
  moreover have "distinct (owners (without_task i r))"
    using d(1) unfolding owners_def mT without_task_def by simp
  ultimately show "runner_ok (without_task i r)"
    using assms(1) o unfolding runner_ok_def without_task_def by (auto simp: wakeups_def)
qed

lemma slots_known: "(n, i) \<in> slots s \<Longrightarrow> dget (workers s) n \<noteq> None"
  by (auto simp: slots_def)

definition end_body :: "worker_end \<Rightarrow> ((exn + (step_args \<Rightarrow> step_prog)) \<times> real) option" where
  "end_body e = (case e of Cancelled \<Rightarrow> None | Broken ex now \<Rightarrow> Some (Inl ex, now) | Ended p now \<Rightarrow> Some (Inr p, now))"

lemma worker_completed_cases:
  assumes ok: "runner_ok r" and i: "i < length (rn_worker_tasks r)" and e: "end_body ended = Some (body, now)" and b: "body_fits body"
  obtains tick where "report_slot (TickStepResult tick) = Some (request_slot (wt_request (rn_worker_tasks r ! i)))"
    and "tick_fits (rn_state r) (TickStepResult tick)"
    and "worker_completed steps wn run_id i ended r = buffer_tick (TickStepResult tick)
      (if list_ex is_stop_result (sr_result tick) then cleanup_tasks (without_task i r) else without_task i r)"
proof -
  let ?rq = "wt_request (rn_worker_tasks r ! i)"
  have "dget (workers (rn_state r)) (root_step_key (rq_step_id ?rq)) \<noteq> None"
    using slots_known without_task_ok(2) [OF ok i] unfolding request_slot_def by blast
  note fits = worker_report_fits [OF this b]
  have rq: "wt_request (begin_task (rn_state r) (rn_worker_tasks r ! i)) = ?rq"
    by (simp add: begin_task_def split: task_progress.splits)
  define worker where "worker = (case wt_progress (begin_task (rn_state r) (rn_worker_tasks r ! i)) of
      Created \<Rightarrow> find_worker (rn_state r) (wt_request (begin_task (rn_state r) (rn_worker_tasks r ! i))) | Begun w \<Rightarrow> w)"
  have w: "worker_completed steps wn run_id i ended r =
      (case worker_report steps wn run_id (rn_state r) ?rq worker body now of
         Inl e \<Rightarrow> without_task i r
       | Inr tick \<Rightarrow> buffer_tick (TickStepResult tick)
           (if list_ex is_stop_result (sr_result tick) then cleanup_tasks (without_task i r) else without_task i r))"
    unfolding worker_completed_def Let_def without_task_def worker_def rq
    using i e by (cases ended) (auto simp: end_body_def)
  from fits obtain tick where "worker_report steps wn run_id (rn_state r) ?rq worker body now = Inr tick"
    "report_slot (TickStepResult tick) = Some (request_slot ?rq)" "tick_fits (rn_state r) (TickStepResult tick)" by blast
  with w that show thesis by simp
qed

lemma worker_completed_ok:
  assumes "runner_ok r" and "\<And>body now. end_body ended = Some (body, now) \<Longrightarrow> body_fits body"
  shows "runner_ok (worker_completed steps wn run_id i ended r)"
    and "end_body ended \<noteq> None \<Longrightarrow> lossless r \<Longrightarrow> \<not> rn_closed (worker_completed steps wn run_id i ended r) \<Longrightarrow>
      lossless (worker_completed steps wn run_id i ended r)"
proof -
  let ?r' = "worker_completed steps wn run_id i ended r"
  have "runner_ok ?r' \<and> (end_body ended \<noteq> None \<longrightarrow> lossless r \<longrightarrow> \<not> rn_closed ?r' \<longrightarrow> lossless ?r')"
  proof (cases "i < length (rn_worker_tasks r)")
    case False
    with assms(1) show ?thesis by (simp add: worker_completed_def)
  next
    case i: True
    let ?x = "request_slot (wt_request (rn_worker_tasks r ! i))" and ?r1 = "without_task i r"
    note w = without_task_ok [OF assms(1) i]
    have s: "rn_state ?r1 = rn_state r" "rn_state (cleanup_tasks ?r1) = rn_state r" "rn_closed (cleanup_tasks ?r1)"
      by (simp_all add: without_task_def cleanup_tasks_def)
    show ?thesis
    proof (cases "end_body ended")
      case None
      with i w(1) show ?thesis
        by (cases ended) (simp_all add: end_body_def worker_completed_def without_task_def Let_def)
    next
      case (Some bn)
      then obtain tick where t: "report_slot (TickStepResult tick) = Some ?x" "tick_fits (rn_state r) (TickStepResult tick)"
        and r': "?r' = buffer_tick (TickStepResult tick) (if list_ex is_stop_result (sr_result tick) then cleanup_tasks ?r1 else ?r1)"
        using worker_completed_cases [OF assms(1) i, of ended "fst bn" "snd bn"] assms(2) by (metis prod.collapse)
      have "set (owners (cleanup_tasks ?r1)) \<subseteq> set (owners ?r1)" by (auto simp: owners_def cleanup_tasks_def)
      then have "runner_ok ?r'" unfolding r' using t w s cleanup_tasks_ok [OF w(1)] by (auto intro!: buffer_tick_ok)
      moreover have "lossless ?r'" if "lossless r" "\<not> rn_closed ?r'"
        using that t(1) w(3) s unfolding r' lossless_def owners_buffer by (auto simp: buffer_tick_def split: if_splits)
      ultimately show ?thesis by blast
    qed
  qed
  then show "runner_ok ?r'" "end_body ended \<noteq> None \<Longrightarrow> lossless r \<Longrightarrow> \<not> rn_closed ?r' \<Longrightarrow> lossless ?r'" by blast+
qed

section \<open>Turns of the loop\<close>

text \<open>The loop waits: nothing is buffered and nothing is left to start.\<close>

definition waiting :: "runner \<Rightarrow> bool" where
  "waiting r \<longleftrightarrow> runner_ok r \<and> rn_tick_buffer r = [] \<and> rn_pending_workers r = []"

text \<open>
  What one or several turns do: the loop waits again, or the reducer ended the run. The flag says that
  no worker was cancelled on the way; then no slot has been lost while the adapter is open.
\<close>

definition turn_ok :: "string option \<Rightarrow> bool \<Rightarrow> runner \<Rightarrow> runner \<Rightarrow> outcome \<Rightarrow> bool" where
  "turn_ok run_id kept r r' out \<longleftrightarrow>
    (if out = Going
     then waiting r' \<and> (rn_closed r \<longrightarrow> rn_closed r') \<and> (kept \<and> lossless r \<and> \<not> rn_closed r' \<longrightarrow> lossless r')
     else ended_by_command run_id r' out)"

lemma turn_ok_trans: "turn_ok run_id k r r1 Going \<Longrightarrow> turn_ok run_id k' r1 r2 out \<Longrightarrow> turn_ok run_id (k \<and> k') r r2 out"
  by (auto simp: turn_ok_def split: if_splits)

lemma reads_ok [simp]: "runner_ok (r\<lparr>rn_reads := n\<rparr>) = runner_ok r" "lossless (r\<lparr>rn_reads := n\<rparr>) = lossless r"
  by (simp_all add: runner_ok_def lossless_def owners_def wakeups_def)

lemma pull_ok [simp]: "runner_ok (r\<lparr>rn_pull_task := b\<rparr>) = runner_ok r" "lossless (r\<lparr>rn_pull_task := b\<rparr>) = lossless r"
  by (simp_all add: runner_ok_def lossless_def owners_def wakeups_def)

lemma launch_ok:
  assumes "runner_ok r" and "rn_tick_buffer r = []"
  shows "waiting (launch r)" and "lossless (launch r) = lossless r"
proof -
  have "map (\<lambda>t. request_slot (wt_request t)) (map (\<lambda>rq. \<lparr>wt_request = rq, wt_progress = Created\<rparr>) rqs) = map request_slot rqs" for rqs
    by simp
  then have o: "set (owners (launch r)) = set (owners r)" "distinct (owners r) \<Longrightarrow> distinct (owners (launch r))"
    by (auto simp: owners_def launch_def comp_def)
  have "list_all found_worker (rn_worker_tasks (launch r))"
    using assms(1) by (auto simp: runner_ok_def launch_def list_all_iff found_worker_def)
  moreover have "rn_state (launch r) = rn_state r" "wakeups (launch r) = wakeups r" "rn_tick_buffer (launch r) = []"
    "rn_scheduled_wakeups (launch r) = rn_scheduled_wakeups r" "rn_idle_check_pending (launch r) = rn_idle_check_pending r"
    "rn_pending_workers (launch r) = []"
    using assms(2) by (simp_all add: launch_def wakeups_def)
  ultimately show "waiting (launch r)" "lossless (launch r) = lossless r"
    using o assms by (simp_all add: waiting_def runner_ok_def lossless_def)
qed

lemma shut_down_ended: "ended_by_command run_id (shut_down r) out = ended_by_command run_id r out"
  by (simp add: ended_by_command_def shut_down_def cleanup_tasks_def)

lemma loop_pass_ok:
  assumes "runner_ok r"
  shows "\<exists>r' out w. loop_pass clock run_id r = Some (r', out, w) \<and> turn_ok run_id k r r' out"
proof -
  let ?r1 = "r\<lparr>rn_reads := Suc (rn_reads r)\<rparr>"
  from drain_buffer_ends [of ?r1 clock run_id] assms obtain r2 out
    where d: "drain_buffer clock run_id ?r1 = Some (r2, out)" "drained_to run_id ?r1 r2 out" by auto
  show ?thesis
  proof (cases "out = Going")
    case True
    define r3 where "r3 = (if rn_tick_buffer r = [] then r2 else r2\<lparr>rn_reads := Suc (rn_reads r2)\<rparr>)"
    have r3: "runner_ok r3" "rn_tick_buffer r3 = []" "lossless r \<longrightarrow> lossless r3" "rn_closed r3 = rn_closed r"
      using d(2) True by (auto simp: drained_to_def r3_def)
    moreover have "\<exists>w. loop_pass clock run_id r = Some (launch r3, Going, w)"
      using d(1) True by (simp add: loop_pass_def get_now_def r3_def Let_def)
    moreover have "rn_closed (launch r3) = rn_closed r3" by (simp add: launch_def)
    ultimately show ?thesis using launch_ok [of r3] by (auto simp: turn_ok_def)
  next
    case False
    then show ?thesis using d by (cases out) (simp_all add: loop_pass_def get_now_def drained_to_def turn_ok_def shut_down_ended)
  qed
qed

text \<open>What the environment may do: ticks from outside carry no report, idle check or batch.\<close>

fun external_tick :: "tick \<Rightarrow> bool" where
  "external_tick (TickAddEvent t) \<longleftrightarrow> ae_payload t = None"
| "external_tick (TickStepResult t) \<longleftrightarrow> False"
| "external_tick TickIdleCheck \<longleftrightarrow> False"
| "external_tick t \<longleftrightarrow> True"

fun event_ok :: "loop_event \<Rightarrow> bool" where
  "event_ok (PullDone (Some t)) \<longleftrightarrow> external_tick t"
| "event_ok (WorkerDone i (Ended body now)) \<longleftrightarrow> (\<forall>args. collects_at_most (body args) 2)"
| "event_ok e \<longleftrightarrow> True"

fun keeps_work :: "loop_event \<Rightarrow> bool" where
  "keeps_work (WorkerDone i Cancelled) \<longleftrightarrow> False"
| "keeps_work e \<longleftrightarrow> True"

lemma buffer_timers_ok:
  assumes "runner_ok r" and "list_all is_timer ts"
  shows "runner_ok (buffer_ticks ts r)" and "lossless (buffer_ticks ts r) = lossless r"
proof -
  have t: "report_slots ts = []" "list_all (tick_fits (rn_state r)) ts" "idle_checks ts = 0"
    using assms(2) by (induction ts) (simp_all add: timer_fits)
  then have o: "owners (buffer_ticks ts r) = owners r" by (simp add: owners_def buffer_ticks_def)
  then show "lossless (buffer_ticks ts r) = lossless r" by (simp add: lossless_def buffer_ticks_def)
  have "wakeups r \<subseteq> wakeups (buffer_ticks ts r)" by (auto simp: wakeups_def buffer_ticks_def)
  then have "delays_in (wakeups (buffer_ticks ts r)) (rn_state r)" using assms(1) by (auto simp: runner_ok_def intro: delays_in_mono)
  with assms(1) o t show "runner_ok (buffer_ticks ts r)" by (simp add: runner_ok_def buffer_ticks_def)
qed

text \<open>The ticks that are due move from the heap to the buffer; no wakeup is lost on the way.\<close>

lemma pop_due_wakeups: "wakeups_in h \<subseteq> wakeups_in (snd (pop_due now h)) \<union> {t. TickWakeup t \<in> set (fst (pop_due now h))}"
  by (induction now h rule: pop_due.induct) (auto simp: wakeups_in_def Let_def)

lemma pop_due_ok:
  fixes now :: real
  assumes ok: "runner_ok r"
  defines "r' \<equiv> buffer_ticks (fst (pop_due_ticks now r)) (snd (pop_due_ticks now r))"
  shows "runner_ok r'" and "lossless r' = lossless r" and "rn_closed r' = rn_closed r"
proof -
  let ?p = "pop_due now (rn_scheduled_wakeups r)"
  have t: "list_all is_timer (fst ?p)" "list_all (\<lambda>x. is_timer (snd (snd x))) (snd ?p)"
    using pop_due_set [of now "rn_scheduled_wakeups r"] ok by (force simp: runner_ok_def list_all_iff)+
  have b: "rn_tick_buffer (buffer_ticks ts r) = rn_tick_buffer r @ ts" for ts by (simp add: buffer_ticks_def)
  have r': "r' = (buffer_ticks (fst ?p) r)\<lparr>rn_scheduled_wakeups := snd ?p\<rparr>"
    by (simp add: r'_def pop_due_ticks_def buffer_ticks_def Let_def)
  have "wakeups r \<subseteq> wakeups r'"
    using pop_due_wakeups [of "rn_scheduled_wakeups r" now] by (auto simp: r' wakeups_def buffer_ticks_def)
  then have "delays_in (wakeups r') (rn_state r)" using ok by (auto simp: runner_ok_def intro: delays_in_mono)
  with buffer_timers_ok [OF ok t(1)] t(2) show "runner_ok r'" "lossless r' = lossless r" "rn_closed r' = rn_closed r"
    by (simp_all add: r' runner_ok_def lossless_def owners_def buffer_ticks_def)
qed

lemma begin_task_ok:
  assumes "waiting r" and "i < length (rn_worker_tasks r)"
  shows "turn_ok run_id k r (r\<lparr>rn_worker_tasks := (rn_worker_tasks r)[i := begin_task (rn_state r) (rn_worker_tasks r ! i)]\<rparr>) Going"
proof -
  let ?T = "rn_worker_tasks r" and ?t = "begin_task (rn_state r) (rn_worker_tasks r ! i)"
  have ok: "runner_ok r" using assms(1) by (simp add: waiting_def)
  have rq: "wt_request ?t = wt_request (?T ! i)" by (simp add: begin_task_def split: task_progress.splits)
  then have m: "map (\<lambda>t. request_slot (wt_request t)) (?T[i := ?t]) = map (\<lambda>t. request_slot (wt_request t)) ?T"
    using assms(2) by (simp add: map_update list_update_same_conv)
  have "request_slot (wt_request (?T ! i)) \<in> slots (rn_state r)" using without_task_ok(2) [OF ok assms(2)] .
  then have "find_worker (rn_state r) (wt_request (?T ! i)) \<noteq> Inl e" for e
    by (auto simp: request_slot_def slots_def pool_ids_def find_worker_def find_None_iff split: option.splits)
  moreover have "found_worker (?T ! i)" using ok assms(2) by (simp add: runner_ok_def list_all_length)
  ultimately have "found_worker ?t" by (auto simp: found_worker_def begin_task_def split: task_progress.splits)
  then have "list_all found_worker (?T[i := ?t])"
    using ok by (auto simp: runner_ok_def list_all_iff dest: subsetD [OF set_update_subset_insert])
  moreover have "owners (r\<lparr>rn_worker_tasks := ?T[i := ?t]\<rparr>) = owners r" by (simp add: owners_def m)
  moreover have "wakeups (r\<lparr>rn_worker_tasks := T\<rparr>) = wakeups r" for T by (simp add: wakeups_def)
  ultimately show ?thesis
    using assms(1) by (auto simp: turn_ok_def waiting_def runner_ok_def lossless_def split: if_splits)
qed

lemma turn_ok_from:
  assumes "turn_ok run_id k r1 r' out" and "rn_closed r \<longrightarrow> rn_closed r1" and "k \<and> lossless r \<and> \<not> rn_closed r1 \<longrightarrow> lossless r1"
  shows "turn_ok run_id k r r' out"
  using assms by (auto simp: turn_ok_def split: if_splits)

lemma loop_turn_ok:
  assumes "waiting r" and "event_ok e"
  shows "\<exists>r' out w. loop_turn steps wn clock run_id e r = Some (r', out, w) \<and> turn_ok run_id (keeps_work e) r r' out"
proof -
  have ok: "runner_ok r" using assms(1) by (simp add: waiting_def)
  have on: "\<exists>r' out w. loop_pass clock run_id r1 = Some (r', out, w) \<and> turn_ok run_id (keeps_work e) r r' out"
    if "runner_ok r1" "rn_closed r \<longrightarrow> rn_closed r1" "keeps_work e \<and> lossless r \<and> \<not> rn_closed r1 \<longrightarrow> lossless r1" for r1
    using loop_pass_ok [OF that(1), of clock run_id "keeps_work e"] turn_ok_from that(2,3) by blast
  show ?thesis
  proof (cases e)
    case (TaskBegins i)
    show ?thesis
    proof (cases "i < length (rn_worker_tasks r)")
      case True
      with begin_task_ok [OF assms(1) True, of run_id "keeps_work e"] show ?thesis by (simp add: TaskBegins)
    next
      case False
      with assms(1) show ?thesis by (simp add: TaskBegins turn_ok_def)
    qed
  next
    case WaitTimeout
    let ?r = "r\<lparr>rn_reads := Suc (rn_reads r)\<rparr>" and ?now = "clock (rn_reads r)"
    from on [of "buffer_ticks (fst (pop_due_ticks ?now ?r)) (snd (pop_due_ticks ?now ?r))"] pop_due_ok [of ?r ?now] ok
    show ?thesis by (simp add: WaitTimeout get_now_def case_prod_beta)
  next
    case (PullDone t)
    show ?thesis
    proof (cases t)
      case None
      with on [of "r\<lparr>rn_pull_task := False\<rparr>"] ok show ?thesis by (simp add: PullDone)
    next
      case (Some tick)
      with assms(2) have x: "external_tick tick" by (simp add: PullDone)
      then have "tick_fits (rn_state r) tick" "\<not> is_idle_check tick" "report_slot tick = None" by (cases tick; simp)+
      with buffer_tick_ok [OF ok, of tick] have "runner_ok (buffer_tick tick r)" by simp
      moreover have "lossless (buffer_tick tick r) = lossless r"
        using \<open>report_slot tick = None\<close> unfolding lossless_def owners_buffer by (simp add: buffer_tick_def)
      moreover have "rn_closed (buffer_tick tick r) = rn_closed r" by (simp add: buffer_tick_def)
      ultimately show ?thesis using on [of "(buffer_tick tick r)\<lparr>rn_pull_task := False\<rparr>"] by (simp add: PullDone Some)
    qed
  next
    case (WorkerDone i ended)
    have fits: "body_fits body" if "end_body ended = Some (body, now)" for body now
      using assms(2) that by (cases ended) (auto simp: WorkerDone body_fits_def end_body_def)
    have "keeps_work e \<Longrightarrow> end_body ended \<noteq> None" by (cases ended) (simp_all add: WorkerDone end_body_def)
    moreover have "rn_closed r \<longrightarrow> rn_closed (worker_completed steps wn run_id i ended r)"
      by (auto simp: worker_completed_def Let_def buffer_tick_def cleanup_tasks_def split: worker_end.splits sum.splits)
    ultimately show ?thesis
      using worker_completed_ok [OF ok fits, where i = i and steps = steps and wn = wn and run_id = run_id] on [of "worker_completed steps wn run_id i ended r"]
      by (simp add: WorkerDone)
  qed
qed

section \<open>Whole runs\<close>

lemma run_events_ok:
  "waiting r \<Longrightarrow> list_all event_ok es \<Longrightarrow>
   \<exists>r' out. run_events steps wn clock run_id es (r, Going) = Some (r', out) \<and> turn_ok run_id (list_all keeps_work es) r r' out"
proof (induction es arbitrary: r)
  case Nil
  then show ?case by (simp add: turn_ok_def)
next
  case (Cons e es)
  from Cons.prems loop_turn_ok [of r e steps wn clock run_id] obtain r1 out w
    where t: "loop_turn steps wn clock run_id e r = Some (r1, out, w)" "turn_ok run_id (keeps_work e) r r1 out" by auto
  show ?case
  proof (cases "out = Going")
    case True
    with t(2) have "waiting r1" by (simp add: turn_ok_def)
    from Cons.IH [OF this] Cons.prems(2) obtain r' out' where "run_events steps wn clock run_id es (r1, Going) = Some (r', out')"
      "turn_ok run_id (list_all keeps_work es) r1 r' out'" by auto
    with t True turn_ok_trans show ?thesis by fastforce
  next
    case False
    then have "run_events steps wn clock run_id es (r1, out) = Some (r1, out)" by (cases es; cases out) simp_all
    with t False show ?thesis by (simp add: turn_ok_def)
  qed
qed

lemma rewind_no_exit: "\<not> list_ex indicates_exit (snd (rewind_in_progress s now))"
proof -
  have "\<not> list_ex indicates_exit (snd (rewind_worker now n w))" for n w
    using drain_no_exit by (auto simp: rewind_worker_def Let_def schedule_wakeups_def list_ex_iff)
  then have "\<not> list_ex indicates_exit (snd (update_workers (rewind_worker now) items d))" for items d
    by (induction "rewind_worker now" items d rule: update_workers.induct) (auto simp: Let_def)
  then show ?thesis by (simp add: rewind_in_progress_def Let_def)
qed

lemma rewind_delays:
  assumes "distinct (dkeys (workers s))"
  shows "delays_in (wakeup_times (snd (rewind_in_progress s now))) (fst (rewind_in_progress s now))"
proof -
  let ?s' = "fst (rewind_in_progress s now)" and ?d = "workers (deepcopy s)"
  have "delays w' \<subseteq> wakeup_times (snd (rewind_in_progress s now))" if "dget (workers ?s') n = Some w'" for n w'
  proof -
    from that assms obtain w where w: "dget ?d n = Some w" and w': "w' = fst (rewind_worker now n w)"
      by (auto simp: dget_rewind_in_progress)
    have "dget (sort_key fst ?d) n = Some w" using w assms by (simp add: map_of_sort_key)
    from cmds_update_workers [OF this, of "rewind_worker now" ?d]
    have "set (snd (rewind_worker now n w)) \<subseteq> set (snd (rewind_in_progress s now))"
      by (simp add: rewind_in_progress_def Let_def)
    then show ?thesis using rewind_worker_wakeups by (auto simp: delays_def wakeup_times_def w')
  qed
  then show ?thesis using assms by (simp add: delays_in_def list_all_dget)
qed

text \<open>The state from which a run can start: well formed, and what it re-delivers can be delivered.\<close>

definition startable :: "broker_state \<Rightarrow> bool" where
  "startable s \<longleftrightarrow> state_ok s \<and> list_all (tick_ok s) (rehydrate_with_ticks s)"

lemma rehydrate_adds: "list_all (\<lambda>t. \<exists>a. t = TickAddEvent a) (rehydrate_with_ticks s)"
  by (auto simp: rehydrate_with_ticks_def rehydrate_worker_def list_all_iff)

lemma before_rewind:
  assumes "startable init" and r_def: "r = arm_timeout timeout b (clock 0) (snd (get_now clock (queue_start ev (new_runner init))))"
  shows "rn_state r = init" "rn_pending_workers r = []" "rn_worker_tasks r = []" "\<not> rn_idle_check_pending r" "\<not> rn_closed r"
    and "list_all (\<lambda>x. is_timer (snd (snd x))) (rn_scheduled_wakeups r)"
    and "list_all (\<lambda>t. (\<exists>a. t = TickAddEvent a) \<and> tick_ok init t) (rn_tick_buffer r)"
proof -
  have r: "rn_state r = init" "rn_pending_workers r = []" "rn_worker_tasks r = []" "\<not> rn_idle_check_pending r" "\<not> rn_closed r"
    "list_all (\<lambda>x. is_timer (snd (snd x))) (rn_scheduled_wakeups r)"
    "rn_tick_buffer r = rehydrate_with_ticks init @ (case ev of None \<Rightarrow> [] | Some e \<Rightarrow> [TickAddEvent (add_event_of e)])"
    by (auto simp: r_def arm_timeout_def get_now_def queue_start_def new_runner_def buffer_tick_def schedule_tick_def split: option.splits)
  then show "rn_state r = init" "rn_pending_workers r = []" "rn_worker_tasks r = []" "\<not> rn_idle_check_pending r" "\<not> rn_closed r"
    "list_all (\<lambda>x. is_timer (snd (snd x))) (rn_scheduled_wakeups r)" by blast+
  show "list_all (\<lambda>t. (\<exists>a. t = TickAddEvent a) \<and> tick_ok init t) (rn_tick_buffer r)"
    using assms(1) rehydrate_adds [of init] unfolding r(7)
    by (auto simp: startable_def list_all_iff add_event_of_def split: option.splits)
qed

lemma added_ticks:
  assumes "list_all (\<lambda>t. (\<exists>a. t = TickAddEvent a) \<and> tick_ok init t) ts" and "config s = config init"
  shows "report_slots ts = []" and "idle_checks ts = 0" and "list_all (tick_fits s) ts"
  using assms(1) by (induction ts) (auto simp: assms(2) split: option.splits)

lemma resumed_ok:
  assumes ok: "state_ok init" and r3: "rn_state r3 = init" "rn_pending_workers r3 = []" "rn_worker_tasks r3 = []"
      "\<not> rn_idle_check_pending r3" "\<not> rn_closed r3" "list_all (\<lambda>x. is_timer (snd (snd x))) (rn_scheduled_wakeups r3)"
      "list_all (\<lambda>t. (\<exists>a. t = TickAddEvent a) \<and> tick_ok init t) (rn_tick_buffer r3)"
    and d: "commands_done (snd (rewind_in_progress init now)) (r3\<lparr>rn_state := fst (rewind_in_progress init now)\<rparr>) r"
  shows "runner_ok r \<and> lossless r"
proof -
  define rw where "rw = rewind_in_progress init now"
  note f = d [unfolded commands_done_def rw_def [symmetric], simplified, unfolded r3]
  have s: "rn_state r = fst rw" using f by simp
  have keys: "distinct (dkeys (workers init))" using ok by (rule state_ok_pools)
  have st: "state_ok (fst rw)" "config (fst rw) = config init" unfolding rw_def by (simp_all add: replay_ok.rewind_Inv ok)
  note b = added_ticks [OF r3(7) st(2)]
  have o: "owners r = run_slots (snd rw)" using f b(1) by (simp add: owners_def new_ticks_facts(1))
  with rewind_restarts [OF keys, of now] have own: "set (owners r) = slots (rn_state r)" "distinct (owners r)"
    by (simp_all add: s rw_def)
  moreover have "list_all (tick_fits (fst rw)) (rn_tick_buffer r)" using f b(3) by (simp add: new_ticks_facts(2))
  moreover have "idle_checks (rn_tick_buffer r) = (if rn_idle_check_pending r then 1 else 0)"
    using f b(2) r3(4) by (simp add: new_ticks_facts(3))
  moreover have "list_all (\<lambda>x. is_timer (snd (snd x))) (rn_scheduled_wakeups r)"
    using f r3(6) unfolding list_all_iff by blast
  moreover have "delays_in (wakeups r) (fst rw)"
  proof (rule delays_in_mono)
    show "delays_in (wakeup_times (snd rw)) (fst rw)" unfolding rw_def using keys by (rule rewind_delays)
    show "wakeup_times (snd rw) \<subseteq> wakeups r" using f by (auto simp: wakeups_def)
  qed
  ultimately show ?thesis using st(1) f by (simp add: runner_ok_def lossless_def s)
qed

lemma start_run_ok:
  assumes "startable init"
  shows "\<exists>r. start_run clock timeout ev b init = (r, Going) \<and> runner_ok r \<and> lossless r \<and> \<not> rn_closed r"
proof -
  define r3 where "r3 = arm_timeout timeout b (clock 0) (snd (get_now clock (queue_start ev (new_runner init))))"
  define rw where "rw = rewind_in_progress init (clock 0)"
  note r3 = before_rewind [OF assms r3_def]
  have ok: "state_ok init" "distinct (dkeys (workers init))" using assms by (simp_all add: startable_def state_ok_pools)
  from process_commands_done [OF rewind_no_exit, of clock init "clock 0" "r3\<lparr>rn_state := fst rw\<rparr>"] obtain r
    where run: "resume_commands clock (snd rw) (r3\<lparr>rn_state := fst rw\<rparr>) = (r, Going)"
      and d: "commands_done (snd rw) (r3\<lparr>rn_state := fst rw\<rparr>) r" by (auto simp: rw_def)
  have "rn_reads (queue_start ev (new_runner init)) = 0"
    by (simp add: queue_start_def new_runner_def buffer_tick_def split: option.splits)
  then have "start_run clock timeout ev b init = (r, Going)"
    using run r3(1) by (simp add: start_run_def get_now_def r3_def rw_def)
  moreover have "runner_ok r \<and> lossless r" by (rule resumed_ok [OF ok(1) r3 d [unfolded rw_def]])
  moreover have "\<not> rn_closed r" using d r3(5) by (simp add: commands_done_def)
  ultimately show ?thesis by blast
qed

lemma run_ok:
  assumes "startable init" and "list_all event_ok es"
  shows "\<exists>r out. run steps wn clock run_id timeout ev b init es = Some (r, out) \<and>
    (if out = Going then waiting r \<and> (list_all keeps_work es \<and> \<not> rn_closed r \<longrightarrow> lossless r)
     else ended_by_command run_id r out)"
proof -
  from start_run_ok [OF assms(1), of clock timeout ev b] obtain r0
    where s: "start_run clock timeout ev b init = (r0, Going)" and ok: "runner_ok r0" "lossless r0" "\<not> rn_closed r0" by blast
  from loop_pass_ok [OF ok(1), of clock run_id True] obtain r1 out w
    where p: "loop_pass clock run_id r0 = Some (r1, out, w)" "turn_ok run_id True r0 r1 out" by blast
  show ?thesis
  proof (cases "out = Going")
    case True
    with p(2) have w: "waiting r1" by (simp add: turn_ok_def)
    from run_events_ok [OF this assms(2), of steps wn clock run_id] obtain r out'
      where e: "run_events steps wn clock run_id es (r1, Going) = Some (r, out')"
        "turn_ok run_id (list_all keeps_work es) r1 r out'" by blast
    have "turn_ok run_id (True \<and> list_all keeps_work es) r0 r out'" using p(2) e(2) True by (intro turn_ok_trans) simp_all
    with s p e True ok show ?thesis by (auto simp: run_def turn_ok_def split: if_splits)
  next
    case False
    then have "run_events steps wn clock run_id es (r1, out) = Some (r1, out)" by (cases es; cases out) simp_all
    with s p False show ?thesis by (simp add: run_def turn_ok_def)
  qed
qed

end
