(* ===== verification/Runner_Journal.thy ===== *)
theory Runner_Journal
  imports Runner_Runs
begin

text \<open>
  What every turn of the loop keeps, whatever is buffered and however the run ends: the order of the
  scheduled ticks, and the journal. The ticks the loop hands to \<open>on_tick\<close>, reduced again from the
  initial state at the times at which they were first reduced, give the loop's state.
\<close>

section \<open>Invariants of the loop that the buffers do not matter for\<close>

lemma drain_buffer_keeps:
  assumes tick: "\<And>r t r' out. J r \<Longrightarrow> process_tick clock run_id t r = (r', out) \<Longrightarrow> J r'"
    and rotate: "\<And>r b. J r \<Longrightarrow> J (r\<lparr>rn_tick_buffer := b\<rparr>)"
    and take: "\<And>r b p. J r \<Longrightarrow> J (r\<lparr>rn_tick_buffer := b, rn_idle_check_pending := p\<rparr>)"
    and d: "drain_buffer clock run_id r = Some y" and "J r"
  shows "J (fst y)"
proof -
  have "clock = clock \<longrightarrow> run_id = run_id \<longrightarrow> J r \<longrightarrow> J (fst y)"
  proof (rule drain_buffer.raw_induct [where P = "\<lambda>c i r y. c = clock \<longrightarrow> i = run_id \<longrightarrow> J r \<longrightarrow> J (fst y)", OF _ d], intro impI)
    fix drain c i r y
    assume IH: "\<And>c i r y. drain c i r = Some y \<Longrightarrow> c = clock \<longrightarrow> i = run_id \<longrightarrow> J r \<longrightarrow> J (fst y)" and eq: "c = clock" "i = run_id"
      and J: "J r"
      and body: "(case rn_tick_buffer r of [] \<Rightarrow> Some (r, Going) | t # ts \<Rightarrow>
         if is_idle_check t \<and> ts \<noteq> [] then drain c i (r\<lparr>rn_tick_buffer := ts @ [t]\<rparr>)
         else let r1 = r\<lparr>rn_tick_buffer := ts, rn_idle_check_pending := rn_idle_check_pending r \<and> \<not> is_idle_check t\<rparr>
              in case process_tick c i t r1 of (r2, Going) \<Rightarrow> drain c i r2 | (r2, Finished ev) \<Rightarrow> Some (r2, Finished ev)
                 | (r2, Crashed e) \<Rightarrow> Some (r2, Crashed e)) = Some y"
    show "J (fst y)"
    proof (cases "rn_tick_buffer r")
      case Nil
      with body J show ?thesis by auto
    next
      case (Cons t ts)
      show ?thesis
      proof (cases "is_idle_check t \<and> ts \<noteq> []")
        case True
        with body Cons IH eq rotate [OF J] show ?thesis by auto
      next
        case False
        obtain r2 out where p: "process_tick clock run_id t
            (r\<lparr>rn_tick_buffer := ts, rn_idle_check_pending := rn_idle_check_pending r \<and> \<not> is_idle_check t\<rparr>) = (r2, out)" by fastforce
        from tick [OF take [OF J] p] body False Cons p IH eq show ?thesis by (cases out) (auto simp: Let_def)
      qed
    qed
  qed
  with \<open>J r\<close> show ?thesis by blast
qed

locale loop_invariant =
  fixes J :: "runner \<Rightarrow> bool" and clock :: "nat \<Rightarrow> real" and run_id :: "string option"
  assumes tick_keeps: "J r \<Longrightarrow> process_tick clock run_id t r = (r', out) \<Longrightarrow> J r'"
    and move_keeps: "J r \<Longrightarrow> rn_state r' = rn_state r \<Longrightarrow> rn_on_tick r' = rn_on_tick r \<Longrightarrow>
      rn_wakeup_sequence r' = rn_wakeup_sequence r \<Longrightarrow>
      rn_scheduled_wakeups r' = rn_scheduled_wakeups r \<or>
        (\<exists>now. rn_scheduled_wakeups r' = snd (pop_due now (rn_scheduled_wakeups r))) \<Longrightarrow> J r'"
begin

lemma pass_keeps:
  assumes "loop_pass clock run_id r = Some (r', out, w)" and "J r"
  shows "J r'"
proof -
  let ?r1 = "r\<lparr>rn_reads := Suc (rn_reads r)\<rparr>"
  from assms(1) obtain r2 out2 where d: "drain_buffer clock run_id ?r1 = Some (r2, out2)"
    by (auto simp: loop_pass_def get_now_def split: option.splits)
  have r1: "J ?r1" using assms(2) by (rule move_keeps) simp_all
  have "J (q\<lparr>rn_tick_buffer := b\<rparr>)" "J (q\<lparr>rn_tick_buffer := b, rn_idle_check_pending := p\<rparr>)" if "J q" for q b p
    using that by (rule move_keeps; simp)+
  note drain_buffer_keeps [OF tick_keeps this d r1]
  then have "J r2" by simp
  moreover have "rn_state r' = rn_state r2 \<and> rn_on_tick r' = rn_on_tick r2 \<and>
      rn_wakeup_sequence r' = rn_wakeup_sequence r2 \<and> rn_scheduled_wakeups r' = rn_scheduled_wakeups r2"
    using assms(1) d by (cases out2; cases "rn_tick_buffer r = []")
      (auto simp: loop_pass_def get_now_def launch_def shut_down_def cleanup_tasks_def Let_def)
  ultimately show ?thesis using move_keeps [of r2 r'] by simp
qed

lemma turn_keeps:
  assumes "loop_turn steps wn clock run_id e r = Some (r', out, w)" and "J r"
  shows "J r'"
proof -
  have on: ?thesis if "loop_pass clock run_id r1 = Some (r', out, w)" "rn_state r1 = rn_state r" "rn_on_tick r1 = rn_on_tick r"
      "rn_wakeup_sequence r1 = rn_wakeup_sequence r" "rn_scheduled_wakeups r1 = rn_scheduled_wakeups r \<or>
        (\<exists>now. rn_scheduled_wakeups r1 = snd (pop_due now (rn_scheduled_wakeups r)))" for r1
    using pass_keeps [OF that(1) move_keeps [OF assms(2) that(2-5)]] .
  show ?thesis
  proof (cases e)
    case (TaskBegins i)
    with assms(1) show ?thesis by (auto intro!: move_keeps [OF assms(2), of "r\<lparr>rn_worker_tasks := _\<rparr>"])
  next
    case WaitTimeout
    let ?r = "r\<lparr>rn_reads := Suc (rn_reads r)\<rparr>" and ?now = "clock (rn_reads r)"
    show ?thesis by (rule on [of "buffer_ticks (fst (pop_due_ticks ?now ?r)) (snd (pop_due_ticks ?now ?r))"])
      (use assms(1) WaitTimeout in \<open>auto simp: get_now_def pop_due_ticks_def Let_def buffer_ticks_def\<close>)
  next
    case (PullDone t)
    show ?thesis by (rule on [of "(case t of None \<Rightarrow> r | Some tick \<Rightarrow> buffer_tick tick r)\<lparr>rn_pull_task := False\<rparr>"])
      (use assms(1) PullDone in \<open>simp_all add: buffer_tick_def split: option.splits\<close>)
  next
    case (WorkerDone i ended)
    show ?thesis by (rule on [of "worker_completed steps wn run_id i ended r"])
      (use assms(1) WorkerDone in \<open>simp_all add: worker_completed_def Let_def buffer_tick_def cleanup_tasks_def
        split: worker_end.splits sum.splits\<close>)
  qed
qed

lemma events_keep: "run_events steps wn clock run_id es (r, out) = Some (r', out') \<Longrightarrow> J r \<Longrightarrow> J r'"
proof (induction es arbitrary: r out)
  case (Cons e es)
  show ?case
  proof (cases "out = Going")
    case True
    with Cons.prems(1) obtain r1 out1 w where t: "loop_turn steps wn clock run_id e r = Some (r1, out1, w)"
      and "run_events steps wn clock run_id es (r1, out1) = Some (r', out')" by (auto split: option.splits)
    with Cons.IH turn_keeps [OF t Cons.prems(2)] show ?thesis by blast
  next
    case False
    with Cons.prems show ?thesis by (cases out) simp_all
  qed
qed simp

lemma run_keeps:
  assumes "run steps wn clock run_id timeout ev b init es = Some (r, out)" and "J (fst (start_run clock timeout ev b init))"
  shows "J r"
proof -
  obtain r0 out0 where s: "start_run clock timeout ev b init = (r0, out0)" by fastforce
  show ?thesis
  proof (cases "out0 = Going")
    case True
    with assms(1) s obtain r1 out1 w where p: "loop_pass clock run_id r0 = Some (r1, out1, w)"
      and e: "run_events steps wn clock run_id es (r1, out1) = Some (r, out)" by (auto simp: run_def split: option.splits)
    from p have "J r1" by (rule pass_keeps) (use assms(2) s in simp)
    with e show ?thesis by (rule events_keep)
  next
    case False
    with assms s show ?thesis by (cases out0) (simp_all add: run_def)
  qed
qed

end

section \<open>The heap stays in order\<close>

lemma heap_ok_cong: "heap_ok r \<Longrightarrow> rn_wakeup_sequence r' = rn_wakeup_sequence r \<Longrightarrow>
    rn_scheduled_wakeups r' = rn_scheduled_wakeups r \<Longrightarrow> heap_ok r'"
  by (simp add: heap_ok_def)

lemma process_command_heap: "heap_ok r \<Longrightarrow> heap_ok (fst (process_command clock c r))"
proof (cases c)
  case (CommandScheduleWaiterTimeout sid wid t)
  assume "heap_ok r"
  then have "heap_ok (r\<lparr>rn_reads := Suc (rn_reads r)\<rparr>)" by (rule heap_ok_cong) simp_all
  then show ?thesis by (simp add: CommandScheduleWaiterTimeout get_now_def schedule_tick_heap)
qed (auto simp: schedule_tick_heap buffer_tick_def run_worker_def cleanup_tasks_def elim: heap_ok_cong)

lemma process_commands_heap: "heap_ok r \<Longrightarrow> heap_ok (fst (process_commands clock cs r))"
proof (induction cs arbitrary: r)
  case (Cons c cs)
  obtain r1 out where p: "process_command clock c r = (r1, out)" by fastforce
  with process_command_heap [OF Cons.prems, of clock c] have "heap_ok r1" by simp
  moreover from this have "heap_ok (cleanup_tasks r1)" by (rule heap_ok_cong) (simp_all add: cleanup_tasks_def)
  ultimately show ?case using p Cons.IH by (cases out) simp_all
qed simp

lemma resume_commands_heap: "heap_ok r \<Longrightarrow> heap_ok (fst (resume_commands clock cs r))"
proof (induction cs arbitrary: r)
  case (Cons c cs)
  obtain r1 out where p: "process_command clock c r = (r1, out)" by fastforce
  with process_command_heap [OF Cons.prems, of clock c] have "heap_ok r1" by simp
  moreover from this have "heap_ok (cleanup_tasks r1)" by (rule heap_ok_cong) (simp_all add: cleanup_tasks_def)
  ultimately show ?case using p Cons.IH by (cases out) simp_all
qed simp

lemma process_tick_heap:
  assumes "heap_ok r" and "process_tick clock run_id t r = (r', out)" shows "heap_ok r'"
proof (cases "reduce_tick t (rn_state r) (clock (rn_reads r)) run_id")
  case (Inl e)
  with assms show ?thesis by (auto simp: process_tick_def get_now_def cleanup_tasks_def elim!: heap_ok_cong)
next
  case (Inr x)
  let ?r1 = "r\<lparr>rn_reads := Suc (rn_reads r), rn_state := fst x, rn_on_tick := rn_on_tick r @ [t]\<rparr>"
  from assms(1) have "heap_ok ?r1" by (rule heap_ok_cong) simp_all
  then have "heap_ok (fst (process_commands clock (snd x) ?r1))" by (rule process_commands_heap)
  moreover have "rn_wakeup_sequence r' = rn_wakeup_sequence (fst (process_commands clock (snd x) ?r1)) \<and>
      rn_scheduled_wakeups r' = rn_scheduled_wakeups (fst (process_commands clock (snd x) ?r1))"
    using assms(2) Inr by (auto simp: process_tick_def get_now_def case_prod_beta split: outcome.splits prod.splits)
  ultimately show ?thesis using heap_ok_cong by blast
qed

lemma start_run_heap: "heap_ok (fst (start_run clock timeout ev b init))"
proof -
  have "heap_ok (queue_start ev (new_runner init))"
    by (simp add: heap_ok_def queue_start_def new_runner_def buffer_tick_def split: option.splits)
  then have "heap_ok (snd (get_now clock (queue_start ev (new_runner init))))" by (auto simp: get_now_def elim: heap_ok_cong)
  then have "heap_ok (arm_timeout timeout b start (snd (get_now clock (queue_start ev (new_runner init)))))" for start
    by (simp add: arm_timeout_def schedule_tick_heap split: option.splits)
  then have "heap_ok ((arm_timeout timeout b start (snd (get_now clock (queue_start ev (new_runner init)))))\<lparr>rn_state := s\<rparr>)" for start s
    by (rule heap_ok_cong) simp_all
  then show ?thesis by (simp add: start_run_def case_prod_beta Let_def resume_commands_heap)
qed

interpretation heap: loop_invariant heap_ok clock run_id for clock run_id
proof unfold_locales
  show "heap_ok r'" if "heap_ok r" "process_tick clock run_id t r = (r', out)" for r t r' out
    using that by (rule process_tick_heap)
  show "heap_ok r'" if "heap_ok r" "rn_wakeup_sequence r' = rn_wakeup_sequence r" "rn_scheduled_wakeups r' = rn_scheduled_wakeups r \<or>
      (\<exists>now. rn_scheduled_wakeups r' = snd (pop_due now (rn_scheduled_wakeups r)))" for r r'
    using that pop_due_spec by (auto simp: heap_ok_def sorted_wrt_filter list_all_iff)
qed

text \<open>What the heap holds a wakeup for, the loop does not sleep through.\<close>

lemma heap_wakes:
  assumes "heap_ok r" and "t \<in> wakeups_in (rn_scheduled_wakeups r)"
  shows "(\<exists>d. next_wakeup_timeout now r = Some d \<and> d \<le> max 0 (t - now)) \<and>
    (t \<le> now \<longrightarrow> TickWakeup t \<in> set (fst (pop_due_ticks now r)))"
proof -
  have s: "sorted_wrt due_before (rn_scheduled_wakeups r)" using assms(1) by (simp add: heap_ok_def)
  from assms(2) obtain n where x: "(t, n, TickWakeup t) \<in> set (rn_scheduled_wakeups r)" by (auto simp: wakeups_in_def)
  then obtain t0 n0 k0 h where h: "rn_scheduled_wakeups r = (t0, n0, k0) # h" by (cases "rn_scheduled_wakeups r") auto
  have "t0 \<le> t" using s x bspec [of "set h" "due_before (t0, n0, k0)" "(t, n, TickWakeup t)"] by (auto simp: h)
  then have "\<exists>d. next_wakeup_timeout now r = Some d \<and> d \<le> max 0 (t - now)" by (auto simp: next_wakeup_timeout_def h)
  moreover have "TickWakeup t \<in> set (fst (pop_due_ticks now r))" if "t \<le> now"
    using x that by (force simp: pop_due_ticks_def Let_def pop_due_spec [OF s])
  ultimately show ?thesis by blast
qed

section \<open>The journal replays to the state of the loop\<close>

definition journaled :: "broker_state \<Rightarrow> real \<Rightarrow> string option \<Rightarrow> runner \<Rightarrow> bool" where
  "journaled init start run_id r \<longleftrightarrow> (\<exists>nows. length nows = length (rn_on_tick r) \<and>
     rebuild_state_from_ticks init start (zip (rn_on_tick r) nows) run_id = Inr (rn_state r))"

lemma rebuild_snoc:
  "rebuild_state_from_ticks init start ts run_id = Inr s \<Longrightarrow> reduce_tick t s now run_id = Inr (s', cmds) \<Longrightarrow>
   rebuild_state_from_ticks init start (ts @ [(t, now)]) run_id = Inr s'"
  by (simp add: rebuild_state_from_ticks_def rebuild_loop_append)

lemma process_tick_journal:
  assumes "journaled init start run_id r" and "process_tick clock run_id t r = (r', out)"
  shows "journaled init start run_id r'"
proof (cases "reduce_tick t (rn_state r) (clock (rn_reads r)) run_id")
  case (Inl e)
  with assms show ?thesis by (auto simp: journaled_def process_tick_def get_now_def cleanup_tasks_def)
next
  case (Inr x)
  obtain s' cmds where x: "x = (s', cmds)" by fastforce
  let ?r1 = "r\<lparr>rn_reads := Suc (rn_reads r), rn_state := s', rn_on_tick := rn_on_tick r @ [t]\<rparr>"
  from assms(1) obtain nows where n: "length nows = length (rn_on_tick r)"
    "rebuild_state_from_ticks init start (zip (rn_on_tick r) nows) run_id = Inr (rn_state r)" unfolding journaled_def by blast
  from rebuild_snoc [OF n(2) Inr [unfolded x]] n(1)
  have "rebuild_state_from_ticks init start (zip (rn_on_tick r @ [t]) (nows @ [clock (rn_reads r)])) run_id = Inr s'" by simp
  moreover have "rn_state r' = s'" "rn_on_tick r' = rn_on_tick r @ [t]"
    using assms(2) Inr x process_commands_frame [of clock cmds ?r1]
    by (auto simp: process_tick_def get_now_def split: outcome.splits prod.splits)
  ultimately show ?thesis unfolding journaled_def using n(1) by (intro exI [of _ "nows @ [clock (rn_reads r)]"]) simp
qed

interpretation journal: loop_invariant "journaled init start run_id" clock run_id for init start clock run_id
proof unfold_locales
  show "journaled init start run_id r'" if "journaled init start run_id r" "process_tick clock run_id t r = (r', out)" for r t r' out
    using that by (rule process_tick_journal)
qed (simp add: journaled_def)

lemma resume_commands_frame:
  "rn_state (fst (resume_commands clock cs r)) = rn_state r \<and> rn_on_tick (fst (resume_commands clock cs r)) = rn_on_tick r"
proof (induction cs arbitrary: r)
  case (Cons c cs)
  with process_command_frame [of clock c r] show ?case by (auto simp: cleanup_tasks_def split: prod.splits outcome.splits)
qed simp

lemma start_run_journal: "journaled init (clock 0) run_id (fst (start_run clock timeout ev b init))"
proof -
  define r where "r = arm_timeout timeout b (clock 0) (snd (get_now clock (queue_start ev (new_runner init))))"
  have "rn_state r = init" "rn_on_tick r = []"
    by (simp_all add: r_def arm_timeout_def get_now_def queue_start_def new_runner_def buffer_tick_def schedule_tick_def split: option.splits)
  moreover have "fst (get_now clock (queue_start ev (new_runner init))) = clock 0"
    by (simp add: get_now_def queue_start_def new_runner_def buffer_tick_def split: option.splits)
  ultimately show ?thesis
    using resume_commands_frame [of clock "snd (rewind_in_progress init (clock 0))" "r\<lparr>rn_state := fst (rewind_in_progress init (clock 0))\<rparr>"]
    by (simp add: start_run_def case_prod_beta Let_def r_def [symmetric] journaled_def rebuild_state_from_ticks_def)
qed

lemma run_journaled:
  "run steps wn clock run_id timeout ev b init es = Some (r, out) \<Longrightarrow> journaled init (clock 0) run_id r"
  by (erule journal.run_keeps) (rule start_run_journal)

lemma run_heap_ok: "run steps wn clock run_id timeout ev b init es = Some (r, out) \<Longrightarrow> heap_ok r"
  by (erule heap.run_keeps) (rule start_run_heap)

end
