(* ===== verification/Example.thy ===== *)
theory Example
  imports Run_Commands
begin

text \<open>
  A small workflow on which the general theorems are instantiated: \<open>split\<close> fans a start event out
  into items, \<open>work\<close> (two workers, retried) handles an item, \<open>gather\<close> collects what \<open>work\<close> emits.
\<close>

definition app_event :: "string \<Rightarrow> pytype" where
  "app_event n = Cls ''app'' n n (''workflows.events.Event'' # event_mro)"

definition example_step :: "pytype list \<Rightarrow> nat \<Rightarrow> step_config" where
  "example_step accepted n = \<lparr>accepted_events = accepted, event_name = ''ev'', return_types = [],
     context_parameter = None, num_workers = n, retry_policy = None, skip_graph_checks = [],
     collect_params = None, is_fan_out = False, bare_return_types = [], collection_param = None,
     collection_policy = None, role = RoleStep, catch_error_for_steps = None,
     catch_error_max_recoveries = 1, accept_event_subclasses = True\<rparr>"

definition example_retry :: retry_policy where
  "example_retry = RetryPolicy False (\<lambda>elapsed failures exc seed. if failures < 3 then Some 2 else None)"

definition example_binding :: collection_binding where
  "example_binding = \<lparr>cb_id = ''b'', cb_source_step = ''split'', cb_target_step = ''gather'',
     cb_item_types = [app_event ''Done''], cb_policy = Collect All\<rparr>"

definition example_initial :: broker_state where
  "example_initial = from_workflow
     [(''split'', (example_step [StartEventT] 1)\<lparr>is_fan_out := True\<rparr>),
      (''work'', (example_step [app_event ''Item''] 2)\<lparr>retry_policy := Some example_retry\<rparr>),
      (''gather'', (example_step [app_event ''Done''] 1)
          \<lparr>collection_param := Some (''items'', [app_event ''Done'']),
           collection_policy := Some (Collect All)\<rparr>)]
     None [] [] [(''b'', example_binding)]"

definition example_item :: "nat \<Rightarrow> event" where
  "example_item i = Event i (app_event ''Item'') []"

definition example_done :: "nat \<Rightarrow> event" where
  "example_done i = Event i (app_event ''Done'') []"

definition example_start :: tick where
  "example_start = TickAddEvent (add_event_of (Event 0 StartEventT []))"

definition add_item :: "nat \<Rightarrow> tick" where
  "add_item i = TickAddEvent (add_event_of (example_item i))"

text \<open>The state after a sequence of ticks.\<close>

definition after :: "(tick \<times> real) list \<Rightarrow> broker_state" where
  "after ts = (case rebuild_loop ts example_initial (Some ''run'') of Inr s \<Rightarrow> s | Inl _ \<Rightarrow> example_initial)"

text \<open>Three items: two are running, the third waits in the queue.\<close>

definition example_busy :: broker_state where
  "example_busy = after [(add_item 1, 1), (add_item 2, 2), (add_item 3, 3)]"

lemma example_initial_ok: "state_ok example_initial"
  by code_simp

lemma example_busy_ok: "state_ok example_busy"
  by code_simp

lemma example_busy_pools:
  "map (\<lambda>(n, w). (n, length (ws_queue w), length (ws_in_progress w))) (workers example_busy) =
     [(''split'', 0, 0), (''work'', 1, 2), (''gather'', 0, 0)]"
  by code_simp

text \<open>A workflow whose \<open>work\<close> step is covered by the catch-error handler \<open>rescue\<close>, at most once.\<close>

definition example_rescue :: catch_error_handler where
  "example_rescue = \<lparr>ceh_step_name = ''rescue'', ceh_for_steps = None, ceh_max_recoveries = 1\<rparr>"

definition example_guarded :: broker_state where
  "example_guarded = (case rebuild_loop [(add_item 1, 1)] (from_workflow
     [(''work'', example_step [app_event ''Item''] 1),
      (''rescue'', (example_step [StepFailedEventT] 1)\<lparr>role := RoleCatchError\<rparr>)]
     None [(''rescue'', example_rescue)] [(''work'', ''rescue'')] []) (Some ''run'') of
       Inr s \<Rightarrow> s | Inl _ \<Rightarrow> example_initial)"

definition example_exn :: exn where
  "example_exn = ValueError ''boom''"

text \<open>Worker 0 of \<open>work\<close> reports that it produced a \<open>Done\<close> event.\<close>

definition example_report :: step_result_tick where
  "example_report = \<lparr>sr_step_id = StepId_root ''work'', sr_worker_id = 0, sr_event = example_item 1,
     sr_result = [StepWorkerResult (Some (example_done 1)) False]\<rparr>"

definition example_stop :: step_result_tick where
  "example_stop = example_report\<lparr>sr_result := [StepWorkerResult (Some (Event 9 StopEventT [])) False]\<rparr>"

lemma example_busy_running:
  "\<exists>w e. dget (workers example_busy) ''work'' = Some w \<and> find_in_progress (worker_deepcopy w) 0 = Inr e \<and>
     catch_error_route (config example_busy) ''work'' e = None"
proof -
  have "case dget (workers example_busy) ''work'' of None \<Rightarrow> False
      | Some w \<Rightarrow> (case find_in_progress (worker_deepcopy w) 0 of Inl _ \<Rightarrow> False
          | Inr e \<Rightarrow> Option.is_none (catch_error_route (config example_busy) ''work'' e))"
    by code_simp
  then show ?thesis by (auto simp: Option.is_none_def split: option.splits sum.splits)
qed

lemma example_guarded_running:
  "\<exists>w e. dget (workers example_guarded) ''work'' = Some w \<and> find_in_progress (worker_deepcopy w) 0 = Inr e \<and>
     catch_error_route (config example_guarded) ''work'' e = Some (''rescue'', 1)"
proof -
  have "case dget (workers example_guarded) ''work'' of None \<Rightarrow> False
      | Some w \<Rightarrow> (case find_in_progress (worker_deepcopy w) 0 of Inl _ \<Rightarrow> False
          | Inr e \<Rightarrow> catch_error_route (config example_guarded) ''work'' e = Some (''rescue'', 1))"
    by code_simp
  then show ?thesis by (auto split: option.splits sum.splits)
qed

text \<open>The steps of a complete workflow, as its decorators declare them.\<close>

definition example_steps :: "(string, step_config) dict" where
  "example_steps =
     [(''split'', (example_step [StartEventT] 1)\<lparr>return_types := [app_event ''Item''], is_fan_out := True\<rparr>),
      (''work'', (example_step [app_event ''Item''] 2)\<lparr>return_types := [app_event ''Done'', NoneTypeT]\<rparr>),
      (''gather'', (example_step [app_event ''Done''] 1)
          \<lparr>return_types := [StopEventT], collection_param := Some (''items'', [app_event ''Done'']),
           collection_policy := Some (Collect All)\<rparr>),
      (''rescue'', (example_step [StepFailedEventT] 1)\<lparr>return_types := [StopEventT], role := RoleCatchError\<rparr>)]"

lemma example_steps_distinct: "distinct (dkeys example_steps)"
  by code_simp

text \<open>A state with an open stream of \<open>split\<close>, and a join waiting for its second slot.\<close>

definition example_stream :: collection_stream where
  "example_stream = \<lparr>cs_stream_id = ''S'', cs_source_step = ''split'', cs_scope_path = [],
     cs_open_work_items = 1, cs_accepting_binding_ids = [''b'']\<rparr>"

definition example_streaming :: broker_state where
  "example_streaming = example_initial\<lparr>is_running := True, streams := [(''S'', example_stream)]\<rparr>"

definition example_join :: worker_state where
  "example_join = \<lparr>ws_queue = [], ws_config = (example_step [app_event ''Item'', app_event ''Done''] 1)
       \<lparr>collect_params := Some [(''a'', app_event ''Item''), (''b'', app_event ''Done'')]\<rparr>,
     ws_in_progress = [], ws_collected_events = [], ws_collected_waiters = [],
     ws_static_collect_events = [example_item 1]\<rparr>"

text \<open>Another worker extended the collect buffer after worker 0 of \<open>work\<close> took its snapshot.\<close>

definition example_stale :: broker_state where
  "example_stale = modify_worker ''work'' (\<lambda>w. w\<lparr>ws_collected_events := [(''b'', [example_done 7])]\<rparr>) example_busy"

lemma example_stale_running:
  "\<exists>w e. dget (workers example_stale) ''work'' = Some w \<and> find_in_progress (worker_deepcopy w) 0 = Inr e \<and>
     length (dget_or (ss_collected_events (ip_shared_state e)) ''b'' []) < length (dget_or (ws_collected_events w) ''b'' []) \<and>
     ip_worker_id e = 0"
proof -
  have "case dget (workers example_stale) ''work'' of None \<Rightarrow> False
      | Some w \<Rightarrow> (case find_in_progress (worker_deepcopy w) 0 of Inl _ \<Rightarrow> False
          | Inr e \<Rightarrow> length (dget_or (ss_collected_events (ip_shared_state e)) ''b'' []) <
              length (dget_or (ws_collected_events w) ''b'' []) \<and> ip_worker_id e = 0)"
    by code_simp
  then show ?thesis by (auto split: option.splits sum.splits)
qed

end
