(* ===== verification/Runner_Example.thy ===== *)
theory Runner_Example
  imports Runner_Journal Example
begin

text \<open>
  Runs of the loop on the workflow of \<open>Example\<close>: two items arrive and the worker of the first
  finishes; a run that resumes a state with a delayed retry.
\<close>

definition example_names :: waiter_names where
  "example_names = \<lparr>wn_stable = (\<lambda>_. []), wn_legacy = (\<lambda>_. [])\<rparr>"

definition example_waits :: "loop_event list" where
  "example_waits = [PullDone (Some (add_item 1)), PullDone (Some (add_item 2)), TaskBegins 0,
     WorkerDone 0 (Ended (\<lambda>args. Finish ResultNone) 9)]"

definition example_run :: "broker_state \<Rightarrow> loop_event list \<Rightarrow> (runner \<times> outcome) option" where
  "example_run init es = run example_steps example_names (\<lambda>n. 5) None None None True init es"

definition example_delayed :: broker_state where
  "example_delayed = modify_worker ''work'' (\<lambda>w. w\<lparr>ws_queue := [\<lparr>ea_event = example_item 1, ea_bound_events = None,
     ea_attempts = Some 1, ea_first_attempt_at = Some 1, ea_last_exception = Some example_exn, ea_last_failed_at = Some 5,
     ea_recovery_counts = [], ea_not_before = Some 7, ea_scope_path = [], ea_payload = None, ea_work_item_id = None\<rparr>]\<rparr>) example_initial"

lemma example_startable: "startable example_initial" "startable example_delayed"
  by code_simp+

lemma example_waits_ok: "list_all event_ok example_waits" "list_all keeps_work example_waits"
  by (simp_all add: example_waits_def add_item_def add_event_of_def)

lemma example_run_waits:
  "\<exists>r. example_run example_initial example_waits = Some (r, Going) \<and> \<not> rn_closed r \<and>
     map (\<lambda>t. request_slot (wt_request t)) (rn_worker_tasks r) = [(''work'', 1)]"
proof -
  have c: "case example_run example_initial example_waits of None \<Rightarrow> False
    | Some (r, out) \<Rightarrow> (case out of Going \<Rightarrow> \<not> rn_closed r \<and>
        map (\<lambda>t. request_slot (wt_request t)) (rn_worker_tasks r) = [(''work'', 1)] | _ \<Rightarrow> False)"
    by code_simp
  then obtain r out where "example_run example_initial example_waits = Some (r, out)" by (auto split: option.splits)
  with c show ?thesis by (cases out) auto
qed

lemma example_run_delayed:
  "\<exists>r w a. example_run example_delayed [] = Some (r, Going) \<and> dget (workers (rn_state r)) ''work'' = Some w \<and>
     a \<in> set (ws_queue w) \<and> ea_not_before a = Some 7"
proof -
  have c: "case example_run example_delayed [] of None \<Rightarrow> False
    | Some (r, out) \<Rightarrow> (case out of Going \<Rightarrow> (case dget (workers (rn_state r)) ''work'' of None \<Rightarrow> False
        | Some w \<Rightarrow> list_ex (\<lambda>a. ea_not_before a = Some 7) (ws_queue w)) | _ \<Rightarrow> False)"
    by code_simp
  then obtain r out where "example_run example_delayed [] = Some (r, out)" by (auto split: option.splits)
  with c show ?thesis by (cases out) (auto simp: list_ex_iff split: option.splits)
qed

end
