(* ===== verification/Serialization.thy ===== *)
theory Serialization
  imports Runner_Runs
begin

text \<open>
  Stored contexts: \<open>BrokerState.to_serialized\<close> and \<open>BrokerState.from_serialized\<close>
  (\<open>runtime/types/internal_state.py\<close>) over the serialized forms of
  \<open>context/context_types.py\<close>, with the migration of older formats.

  A serializer is an object with \<open>serialize\<close> and \<open>deserialize\<close>; together with the lookup of an
  attribute of an imported module it is the argument \<open>codec\<close> of the operations. The pydantic
  validators of the stored formats are arguments of \<open>from_v1\<close> and \<open>from_dict_auto\<close>. In the legacy
  format a queue is a JSON text of a list of strings; the model keeps the list.
\<close>

section \<open>Serialized forms\<close>

datatype json =
    JNull
  | JBool bool
  | JInt int
  | JFloat real
  | JStr string
  | JList "json list"
  | JObj "(string \<times> json) list"

record codec =
  serialize :: "event \<Rightarrow> string"
  deserialize :: "string \<Rightarrow> event res"
  import_attr :: "string \<Rightarrow> string \<Rightarrow> pytype res"

record ser_payload =
  sp_binding_id :: string
  sp_stream_id :: string
  sp_events :: "string list"
  sp_output_scope_path :: "string list"

record ser_attempt =
  sa_event :: string
  sa_bound_events :: "(string, string) dict option"
  sa_attempts :: nat
  sa_first_attempt_at :: "real option"
  sa_last_exception :: "exn option"
  sa_last_failed_at :: "real option"
  sa_recovery_counts :: "(string, nat) dict"
  sa_not_before :: "real option"
  sa_scope_path :: "string list"
  sa_payload :: "ser_payload option"
  sa_work_item_id :: "string option"

record ser_waiter =
  sw_waiter_id :: string
  sw_event :: string
  sw_bound_events :: "(string, string) dict option"
  sw_waiting_for_event :: string
  sw_has_requirements :: bool
  sw_resolved_event :: "string option"
  sw_scope_path :: "string list"
  sw_payload :: "ser_payload option"
  sw_work_item_id :: "string option"

record ser_worker_state =
  sws_queue :: "ser_attempt list"
  sws_in_progress :: "ser_attempt list"
  sws_collected_events :: "(string, string list) dict"
  sws_static_collect_events :: "string list"
  sws_collected_waiters :: "ser_waiter list"

record ser_stream =
  sst_stream_id :: string
  sst_source_step :: string
  sst_scope_path :: "string list"
  sst_open_work_items :: int
  sst_accepting_binding_ids :: "string list"

record ser_release_state =
  srs_binding_id :: string
  srs_stream_id :: string
  srs_buffer :: "string list"
  srs_released :: bool

record ser_context =
  sc_version :: int
  sc_state :: "(string, json) dict"
  sc_is_running :: bool
  sc_workers :: "(string, ser_worker_state) dict"
  sc_stream_seq :: nat
  sc_work_item_seq :: nat
  sc_streams :: "(string, ser_stream) dict"
  sc_collection_release_states :: "(string, ser_release_state) dict"

definition CURRENT_SERIALIZED_VERSION :: int where
  "CURRENT_SERIALIZED_VERSION = 2"

text \<open>A list comprehension whose body may raise: the first exception ends it.\<close>

fun map_res :: "('a \<Rightarrow> 'b res) \<Rightarrow> 'a list \<Rightarrow> 'b list res" where
  "map_res f [] = Inr []"
| "map_res f (x # xs) = (case f x of
      Inl e \<Rightarrow> Inl e
    | Inr y \<Rightarrow> (case map_res f xs of Inl e \<Rightarrow> Inl e | Inr ys \<Rightarrow> Inr (y # ys)))"

text \<open>\<open>None\<close> is left alone, a value is converted.\<close>

fun map_res_option :: "('a \<Rightarrow> 'b res) \<Rightarrow> 'a option \<Rightarrow> 'b option res" where
  "map_res_option f None = Inr None"
| "map_res_option f (Some x) = map_sum id Some (f x)"

text \<open>A dict comprehension that keeps the keys.\<close>

definition map_res_values :: "('a \<Rightarrow> 'b res) \<Rightarrow> ('k, 'a) dict \<Rightarrow> ('k, 'b) dict res" where
  "map_res_values f = map_res (\<lambda>(k, v). map_sum id (Pair k) (f v))"

section \<open>Writing\<close>

definition serialize_bound :: "codec \<Rightarrow> (string, event) dict option \<Rightarrow> (string, string) dict option" where
  "serialize_bound c = map_option (map (\<lambda>(n, e). (n, serialize c e)))"

definition serialize_release_payload :: "codec \<Rightarrow> release_payload option \<Rightarrow> ser_payload option" where
  "serialize_release_payload c = map_option (\<lambda>p.
     \<lparr>sp_binding_id = rp_binding_id p, sp_stream_id = rp_stream_id p,
      sp_events = map (serialize c) (rp_events p), sp_output_scope_path = rp_output_scope_path p\<rparr>)"

definition serialize_attempt :: "codec \<Rightarrow> event_attempt \<Rightarrow> ser_attempt" where
  "serialize_attempt c a =
    \<lparr>sa_event = serialize c (ea_event a), sa_bound_events = serialize_bound c (ea_bound_events a),
     sa_attempts = nat_or_zero (ea_attempts a), sa_first_attempt_at = ea_first_attempt_at a,
     sa_last_exception = ea_last_exception a, sa_last_failed_at = ea_last_failed_at a,
     sa_recovery_counts = ea_recovery_counts a, sa_not_before = ea_not_before a,
     sa_scope_path = ea_scope_path a, sa_payload = serialize_release_payload c (ea_payload a),
     sa_work_item_id = ea_work_item_id a\<rparr>"

definition serialize_in_progress :: "codec \<Rightarrow> in_progress \<Rightarrow> ser_attempt" where
  "serialize_in_progress c ip =
    \<lparr>sa_event = serialize c (ip_event ip), sa_bound_events = serialize_bound c (ip_bound_events ip),
     sa_attempts = ip_attempts ip, sa_first_attempt_at = Some (ip_first_attempt_at ip),
     sa_last_exception = ip_last_exception ip, sa_last_failed_at = ip_last_failed_at ip,
     sa_recovery_counts = ip_recovery_counts ip, sa_not_before = None,
     sa_scope_path = ip_scope_path ip,
     sa_payload = serialize_release_payload c (ss_payload (ip_shared_state ip)),
     sa_work_item_id = ip_work_item_id ip\<rparr>"

definition serialize_waiter :: "codec \<Rightarrow> waiter \<Rightarrow> ser_waiter" where
  "serialize_waiter c w =
    \<lparr>sw_waiter_id = w_waiter_id w, sw_event = serialize c (w_event w),
     sw_bound_events = serialize_bound c (w_bound_events w),
     sw_waiting_for_event =
       type_module (w_waiting_for_event w) @ ''.'' @ type_name (w_waiting_for_event w),
     sw_has_requirements = (w_requirements w \<noteq> [] \<or> w_has_requirements w),
     sw_resolved_event = map_option (serialize c) (w_resolved_event w),
     sw_scope_path = w_scope_path w, sw_payload = serialize_release_payload c (w_payload w),
     sw_work_item_id = w_work_item_id w\<rparr>"

definition serialize_worker :: "codec \<Rightarrow> worker_state \<Rightarrow> ser_worker_state" where
  "serialize_worker c w =
    \<lparr>sws_queue = map (serialize_attempt c) (ws_queue w),
     sws_in_progress = map (serialize_in_progress c) (ws_in_progress w),
     sws_collected_events = map (\<lambda>(b, es). (b, map (serialize c) es)) (ws_collected_events w),
     sws_static_collect_events = map (serialize c) (ws_static_collect_events w),
     sws_collected_waiters = map (serialize_waiter c) (ws_collected_waiters w)\<rparr>"

definition to_serialized :: "codec \<Rightarrow> broker_state \<Rightarrow> ser_context" where
  "to_serialized c s =
    \<lparr>sc_version = CURRENT_SERIALIZED_VERSION, sc_state = [], sc_is_running = is_running s,
     sc_workers = map (\<lambda>(n, w). (n, serialize_worker c w)) (workers s),
     sc_stream_seq = stream_seq s, sc_work_item_seq = work_item_seq s,
     sc_streams = map (\<lambda>(i, st). (i,
        \<lparr>sst_stream_id = cs_stream_id st, sst_source_step = cs_source_step st,
         sst_scope_path = cs_scope_path st, sst_open_work_items = cs_open_work_items st,
         sst_accepting_binding_ids = cs_accepting_binding_ids st\<rparr>)) (streams s),
     sc_collection_release_states = map (\<lambda>(k, r). (k,
        \<lparr>srs_binding_id = rs_binding_id r, srs_stream_id = rs_stream_id r,
         srs_buffer = map (serialize c) (rs_buffer r), srs_released = rs_released r\<rparr>))
       (collection_release_states s)\<rparr>"

section \<open>Reading\<close>

text \<open>\<open>qualified_name.rsplit(".", 1)\<close> when it has two parts.\<close>

definition rsplit_dot :: "string \<Rightarrow> (string \<times> string) option" where
  "rsplit_dot q = (case dropWhile (\<lambda>ch. ch \<noteq> CHR ''.'') (rev q) of
      [] \<Rightarrow> None
    | _ # m \<Rightarrow> Some (rev m, rev (takeWhile (\<lambda>ch. ch \<noteq> CHR ''.'') (rev q))))"

definition import_event_type :: "codec \<Rightarrow> string \<Rightarrow> pytype res" where
  "import_event_type c qualified_name = (case rsplit_dot qualified_name of
      None \<Rightarrow> Inl (ValueError ''Invalid qualified name'')
    | Some (module_name, class_name) \<Rightarrow> import_attr c module_name class_name)"

definition deserialize_bound ::
  "codec \<Rightarrow> (string, string) dict option \<Rightarrow> (string, event) dict option res" where
  "deserialize_bound c = map_res_option (map_res_values (deserialize c))"

definition deserialize_release_payload :: "codec \<Rightarrow> ser_payload option \<Rightarrow> release_payload option res" where
  "deserialize_release_payload c = map_res_option (\<lambda>p.
     map_sum id (\<lambda>evs. \<lparr>rp_binding_id = sp_binding_id p, rp_stream_id = sp_stream_id p,
        rp_events = evs, rp_output_scope_path = sp_output_scope_path p\<rparr>)
       (map_res (deserialize c) (sp_events p)))"

text \<open>The payload is authoritative: the event of a collect invocation is derived from it.\<close>

definition trigger_event :: "codec \<Rightarrow> release_payload option \<Rightarrow> string \<Rightarrow> event res" where
  "trigger_event c payload ev =
     (case payload of Some p \<Rightarrow> Inr (as_event p) | None \<Rightarrow> deserialize c ev)"

definition deserialize_event_attempt :: "codec \<Rightarrow> ser_attempt \<Rightarrow> event_attempt res" where
  "deserialize_event_attempt c a = (case deserialize_release_payload c (sa_payload a) of
      Inl e \<Rightarrow> Inl e
    | Inr payload \<Rightarrow> (case trigger_event c payload (sa_event a) of
        Inl e \<Rightarrow> Inl e
      | Inr ev \<Rightarrow> (case deserialize_bound c (sa_bound_events a) of
          Inl e \<Rightarrow> Inl e
        | Inr bound \<Rightarrow> Inr
           \<lparr>ea_event = ev, ea_bound_events = bound, ea_attempts = Some (sa_attempts a),
            ea_first_attempt_at = sa_first_attempt_at a, ea_last_exception = sa_last_exception a,
            ea_last_failed_at = sa_last_failed_at a, ea_recovery_counts = sa_recovery_counts a,
            ea_not_before = sa_not_before a, ea_scope_path = sa_scope_path a,
            ea_payload = payload, ea_work_item_id = sa_work_item_id a\<rparr>)))"

text \<open>\<open>if waiter_data.resolved_event\<close>: an empty text counts as no event.\<close>

fun deserialize_resolved :: "codec \<Rightarrow> string option \<Rightarrow> event option res" where
  "deserialize_resolved c None = Inr None"
| "deserialize_resolved c (Some ev) = (if ev = [] then Inr None else map_sum id Some (deserialize c ev))"

definition deserialize_waiter :: "codec \<Rightarrow> ser_waiter \<Rightarrow> waiter res" where
  "deserialize_waiter c w = (case deserialize_release_payload c (sw_payload w) of
      Inl e \<Rightarrow> Inl e
    | Inr payload \<Rightarrow> (case deserialize_bound c (sw_bound_events w) of
        Inl e \<Rightarrow> Inl e
      | Inr bound \<Rightarrow> (case trigger_event c payload (sw_event w) of
          Inl e \<Rightarrow> Inl e
        | Inr ev \<Rightarrow> (case import_event_type c (sw_waiting_for_event w) of
            Inl e \<Rightarrow> Inl e
          | Inr typ \<Rightarrow> (case deserialize_resolved c (sw_resolved_event w) of
              Inl e \<Rightarrow> Inl e
            | Inr resolved \<Rightarrow> Inr
               \<lparr>w_waiter_id = sw_waiter_id w, w_event = ev, w_waiting_for_event = typ,
                w_requirements = [], w_has_requirements = sw_has_requirements w,
                w_resolved_event = resolved, w_bound_events = bound, w_timed_out = False,
                w_scope_path = sw_scope_path w, w_payload = payload,
                w_work_item_id = sw_work_item_id w\<rparr>)))))"

definition deserialize_worker :: "codec \<Rightarrow> ser_worker_state \<Rightarrow> worker_state \<Rightarrow> worker_state res" where
  "deserialize_worker c d w =
    (case map_res (deserialize_event_attempt c) (sws_queue d @ sws_in_progress d) of
      Inl e \<Rightarrow> Inl e
    | Inr queue \<Rightarrow> (case map_res_values (map_res (deserialize c)) (sws_collected_events d) of
        Inl e \<Rightarrow> Inl e
      | Inr collected \<Rightarrow> (case map_res (deserialize c) (sws_static_collect_events d) of
          Inl e \<Rightarrow> Inl e
        | Inr static \<Rightarrow> (case map_res (deserialize_waiter c) (sws_collected_waiters d) of
            Inl e \<Rightarrow> Inl e
          | Inr waiters \<Rightarrow> Inr (w\<lparr>ws_queue := queue, ws_collected_events := collected,
              ws_static_collect_events := static, ws_collected_waiters := waiters\<rparr>)))))"

text \<open>The loop over the stored workers; one whose step the workflow no longer has is skipped.\<close>

fun restore_workers ::
  "codec \<Rightarrow> (string, ser_worker_state) dict \<Rightarrow> (string, worker_state) dict \<Rightarrow> (string, worker_state) dict res"
where
  "restore_workers c [] ws = Inr ws"
| "restore_workers c ((n, d) # ds) ws = (case dget ws n of
      None \<Rightarrow> restore_workers c ds ws
    | Some w \<Rightarrow> (case deserialize_worker c d w of
        Inl e \<Rightarrow> Inl e
      | Inr w' \<Rightarrow> restore_workers c ds (dset n w' ws)))"

definition deserialize_release_state :: "codec \<Rightarrow> ser_release_state \<Rightarrow> release_state res" where
  "deserialize_release_state c r = map_sum id
     (\<lambda>buffer. \<lparr>rs_binding_id = srs_binding_id r, rs_stream_id = srs_stream_id r,
        rs_buffer = buffer, rs_released = srs_released r\<rparr>)
     (map_res (deserialize c) (srs_buffer r))"

text \<open>\<open>base_state\<close> is \<open>from_workflow\<close> of the workflow.\<close>

definition from_serialized :: "codec \<Rightarrow> ser_context \<Rightarrow> broker_state \<Rightarrow> broker_state res" where
  "from_serialized c d base_state =
    (case map_res_values (deserialize_release_state c) (sc_collection_release_states d) of
      Inl e \<Rightarrow> Inl e
    | Inr releases \<Rightarrow> (case restore_workers c (sc_workers d) (workers base_state) of
        Inl e \<Rightarrow> Inl e
      | Inr ws \<Rightarrow> Inr (base_state
         \<lparr>is_running := sc_is_running d, stream_seq := sc_stream_seq d,
          work_item_seq := sc_work_item_seq d,
          streams := map (\<lambda>(i, st). (i,
            \<lparr>cs_stream_id = sst_stream_id st, cs_source_step = sst_source_step st,
             cs_scope_path = sst_scope_path st, cs_open_work_items = sst_open_work_items st,
             cs_accepting_binding_ids = sst_accepting_binding_ids st\<rparr>)) (sc_streams d),
          collection_release_states := releases, workers := ws\<rparr>)))"

section \<open>Older formats\<close>

record context_v0 =
  v0_state :: "(string, json) dict"
  v0_streaming_queue :: "string list"
  v0_queues :: "(string, string list) dict"
  v0_event_buffers :: "(string, (string, string list) dict) dict"
  v0_in_progress :: "(string, string list) dict"
  v0_accepted_events :: "(string \<times> string) list"
  v0_broker_log :: "string list"
  v0_is_running :: bool
  v0_waiting_ids :: "string list"

text \<open>\<open>SerializedEventAttempt(event=..., attempts=0, first_attempt_at=None)\<close>, the rest by default.\<close>

definition fresh_attempt :: "string \<Rightarrow> ser_attempt" where
  "fresh_attempt ev =
    \<lparr>sa_event = ev, sa_bound_events = None, sa_attempts = 0, sa_first_attempt_at = None,
     sa_last_exception = None, sa_last_failed_at = None, sa_recovery_counts = [],
     sa_not_before = None, sa_scope_path = [], sa_payload = None, sa_work_item_id = None\<rparr>"

text \<open>The body of the loop of \<open>from_v0\<close> for one step.\<close>

definition worker_from_v0 :: "context_v0 \<Rightarrow> string \<Rightarrow> ser_worker_state" where
  "worker_from_v0 v step_name =
    (let queue_events = map fresh_attempt
           (dget_or (v0_in_progress v) step_name [] @ dget_or (v0_queues v) step_name []);
         all_events = concat (map snd (dget_or (v0_event_buffers v) step_name []))
     in \<lparr>sws_queue = queue_events, sws_in_progress = [],
         sws_collected_events = (if all_events = [] then [] else [(''default'', all_events)]),
         sws_static_collect_events = [], sws_collected_waiters = []\<rparr>)"

definition from_v0 :: "context_v0 \<Rightarrow> ser_context" where
  "from_v0 v =
    (let all_step_names = remdups (dkeys (v0_queues v) @ dkeys (v0_in_progress v) @ dkeys (v0_event_buffers v));
         steps = filter (\<lambda>n. n \<notin> set (v0_waiting_ids v)) all_step_names
     in \<lparr>sc_version = CURRENT_SERIALIZED_VERSION, sc_state = v0_state v, sc_is_running = v0_is_running v,
         sc_workers = map (\<lambda>n. (n, worker_from_v0 v n)) steps,
         sc_stream_seq = 0, sc_work_item_seq = 0, sc_streams = [], sc_collection_release_states = []\<rparr>)"

text \<open>
  A stored payload before validation: its \<open>version\<close>, its \<open>workers\<close> when present and not empty, each
  a JSON object, and the other fields.
\<close>

record raw_context =
  raw_version :: "json option"
  raw_workers :: "(string, (string, json) dict) dict"
  raw_rest :: "(string, json) dict"

definition migrate_in_progress :: "json \<Rightarrow> json" where
  "migrate_in_progress ev = (case ev of
      JStr s \<Rightarrow> JObj [(''event'', JStr s), (''attempts'', JInt 0), (''first_attempt_at'', JNull)]
    | _ \<Rightarrow> ev)"

text \<open>Iteration over a JSON value: a list, the characters of a text, the keys of an object.\<close>

fun json_items :: "json \<Rightarrow> json list res" where
  "json_items (JList xs) = Inr xs"
| "json_items (JStr s) = Inr (map (\<lambda>ch. JStr [ch]) s)"
| "json_items (JObj d) = Inr (map (\<lambda>(k, v). JStr k) d)"
| "json_items _ = Inl (TypeError ''object is not iterable'')"

definition migrate_worker :: "(string, json) dict \<Rightarrow> (string, json) dict res" where
  "migrate_worker w = (case json_items (dget_or w ''in_progress'' (JList [])) of
      Inl e \<Rightarrow> Inl e
    | Inr evs \<Rightarrow> Inr (dset ''in_progress'' (JList (map migrate_in_progress evs)) w))"

definition from_v1 :: "(raw_context \<Rightarrow> ser_context res) \<Rightarrow> raw_context \<Rightarrow> ser_context res" where
  "from_v1 model_validate data = (case map_res_values migrate_worker (raw_workers data) of
      Inl e \<Rightarrow> Inl e
    | Inr ws \<Rightarrow> model_validate
        (data\<lparr>raw_version := Some (JInt CURRENT_SERIALIZED_VERSION), raw_workers := ws\<rparr>))"

text \<open>\<open>isinstance(version, int)\<close>: \<open>bool\<close> is a subclass of \<open>int\<close>.\<close>

fun json_int :: "json \<Rightarrow> int option" where
  "json_int (JInt i) = Some i"
| "json_int (JBool b) = Some (if b then 1 else 0)"
| "json_int _ = None"

definition from_dict_auto ::
  "(raw_context \<Rightarrow> ser_context res) \<Rightarrow> (raw_context \<Rightarrow> context_v0 res) \<Rightarrow> raw_context \<Rightarrow> ser_context res"
where
  "from_dict_auto model_validate model_validate_v0 data =
    (if raw_version data = None \<or> raw_version data = Some JNull
     then map_sum id from_v0 (model_validate_v0 data)
     else case json_int (the (raw_version data)) of
        None \<Rightarrow> Inl (ValueError ''Cannot load serialized workflow context'')
      | Some version \<Rightarrow>
          if version > CURRENT_SERIALIZED_VERSION
          then Inl (ValueError ''Cannot load serialized workflow context'')
          else if version = CURRENT_SERIALIZED_VERSION then model_validate data
          else if version = 1 then from_v1 model_validate data
          else map_sum id from_v0 (model_validate_v0 data))"

section \<open>What a stored state resumes as\<close>

lemma map_res_ok: "list_all (\<lambda>x. f x = Inr (g x)) xs \<Longrightarrow> map_res f xs = Inr (map g xs)"
  by (induction xs) simp_all

lemma map_res_map: "map_res f (map g xs) = map_res (\<lambda>x. f (g x)) xs"
  by (induction xs) (simp_all cong: sum.case_cong)

lemma map_res_error: "map_res f xs = Inl e \<Longrightarrow> \<exists>x \<in> set xs. f x = Inl e"
  by (induction xs) (auto split: sum.splits)

lemma map_res_values_back:
  "list_all (\<lambda>(k, v). f (h v) = Inr v) d \<Longrightarrow> map_res_values f (map (\<lambda>(k, v). (k, h v)) d) = Inr d"
  unfolding map_res_values_def map_res_map
  by (subst map_res_ok [where g = id]) (auto simp: list_all_iff)

lemma rsplit_dot_qualified:
  assumes "CHR ''.'' \<notin> set n"
  shows "rsplit_dot (m @ ''.'' @ n) = Some (m, n)"
proof -
  have n: "ch \<in> set (rev n) \<Longrightarrow> ch \<noteq> CHR ''.''" for ch using assms by auto
  have r: "rev (m @ ''.'' @ n) = rev n @ CHR ''.'' # rev m" by simp
  show ?thesis
    unfolding rsplit_dot_def r using n by (simp add: dropWhile_append2 takeWhile_append2 del: set_rev)
qed

text \<open>The events that writing a part of the state hands to the serializer.\<close>

definition bound_list :: "(string, event) dict option \<Rightarrow> event list" where
  "bound_list b = (case b of None \<Rightarrow> [] | Some d \<Rightarrow> map snd d)"

definition payload_list :: "release_payload option \<Rightarrow> event list" where
  "payload_list p = (case p of None \<Rightarrow> [] | Some q \<Rightarrow> rp_events q)"

definition attempt_events :: "event_attempt \<Rightarrow> event list" where
  "attempt_events a = ea_event a # bound_list (ea_bound_events a) @ payload_list (ea_payload a)"

definition waiter_events :: "waiter \<Rightarrow> event list" where
  "waiter_events w = w_event w # bound_list (w_bound_events w) @ payload_list (w_payload w) @
     (case w_resolved_event w of None \<Rightarrow> [] | Some e \<Rightarrow> [e])"

definition worker_events :: "worker_state \<Rightarrow> event list" where
  "worker_events w =
     concat (map attempt_events (ws_queue w @ map attempt_of_in_progress (ws_in_progress w))) @
     concat (map snd (ws_collected_events w)) @ ws_static_collect_events w @
     concat (map waiter_events (ws_collected_waiters w))"

definition state_events :: "broker_state \<Rightarrow> event list" where
  "state_events s = concat (map (\<lambda>(n, w). worker_events w) (workers s)) @
     concat (map (\<lambda>(k, r). rs_buffer r) (collection_release_states s))"

text \<open>
  The contract of a serializer on some events: reading gives back what was written, and no event
  is written as an empty text. The class of every waited-for event can be imported under the name
  that \<open>to_serialized\<close> writes.
\<close>

definition reads_back :: "codec \<Rightarrow> event list \<Rightarrow> bool" where
  "reads_back c es \<longleftrightarrow> list_all (\<lambda>e. deserialize c (serialize c e) = Inr e \<and> serialize c e \<noteq> []) es"

definition importable :: "codec \<Rightarrow> pytype \<Rightarrow> bool" where
  "importable c t \<longleftrightarrow> import_event_type c (type_module t @ ''.'' @ type_name t) = Inr t"

definition codec_ok :: "codec \<Rightarrow> broker_state \<Rightarrow> bool" where
  "codec_ok c s \<longleftrightarrow> reads_back c (state_events s) \<and>
     list_all (\<lambda>(n, w). list_all (\<lambda>x. importable c (w_waiting_for_event x)) (ws_collected_waiters w)) (workers s)"

definition resumed_attempt :: "event_attempt \<Rightarrow> event_attempt" where
  "resumed_attempt a = a\<lparr>ea_attempts := Some (nat_or_zero (ea_attempts a)),
     ea_event := (case ea_payload a of Some p \<Rightarrow> as_event p | None \<Rightarrow> ea_event a)\<rparr>"

definition resumed_waiter :: "waiter \<Rightarrow> waiter" where
  "resumed_waiter w = w\<lparr>w_event := (case w_payload w of Some p \<Rightarrow> as_event p | None \<Rightarrow> w_event w),
     w_has_requirements := (w_requirements w \<noteq> [] \<or> w_has_requirements w), w_requirements := [],
     w_timed_out := False\<rparr>"

definition resumed_worker :: "worker_state \<Rightarrow> worker_state" where
  "resumed_worker w = w\<lparr>
     ws_queue := map resumed_attempt (ws_queue w @ map attempt_of_in_progress (ws_in_progress w)),
     ws_in_progress := [], ws_collected_waiters := map resumed_waiter (ws_collected_waiters w)\<rparr>"

definition resumed :: "broker_state \<Rightarrow> broker_state" where
  "resumed s = s\<lparr>workers := map (\<lambda>(n, w). (n, resumed_worker w)) (workers s)\<rparr>"

lemma reads_back_append [simp]: "reads_back c (xs @ ys) \<longleftrightarrow> reads_back c xs \<and> reads_back c ys"
  by (simp add: reads_back_def)

lemma reads_back_Cons [simp]:
  "reads_back c (e # es) \<longleftrightarrow> deserialize c (serialize c e) = Inr e \<and> serialize c e \<noteq> [] \<and> reads_back c es"
  by (simp add: reads_back_def)

lemma reads_back_concat: "reads_back c (concat xss) \<longleftrightarrow> list_all (reads_back c) xss"
  by (induction xss) (simp_all add: reads_back_def)

lemma importable_name:
  "CHR ''.'' \<notin> set (type_name t) \<Longrightarrow>
   importable c t \<longleftrightarrow> import_attr c (type_module t) (type_name t) = Inr t"
  by (simp add: importable_def import_event_type_def rsplit_dot_qualified [simplified])

lemma events_read_back: "reads_back c es \<Longrightarrow> map_res (deserialize c) (map (serialize c) es) = Inr es"
  unfolding map_res_map by (subst map_res_ok [where g = id]) (auto simp: reads_back_def list_all_iff)

lemma bound_reads_back:
  assumes "reads_back c (bound_list b)"
  shows "deserialize_bound c (serialize_bound c b) = Inr b"
proof (cases b)
  case (Some d)
  then have "map_res_values (deserialize c) (map (\<lambda>(k, e). (k, serialize c e)) d) = Inr d"
    using assms by (intro map_res_values_back) (auto simp: bound_list_def reads_back_def list_all_iff)
  with Some show ?thesis by (simp add: deserialize_bound_def serialize_bound_def)
qed (simp add: deserialize_bound_def serialize_bound_def)

lemma payload_reads_back:
  "reads_back c (payload_list p) \<Longrightarrow>
   deserialize_release_payload c (serialize_release_payload c p) = Inr p"
  by (cases p)
    (auto simp: payload_list_def deserialize_release_payload_def serialize_release_payload_def events_read_back)

lemma attempt_reads_back:
  "reads_back c (attempt_events a) \<Longrightarrow>
   deserialize_event_attempt c (serialize_attempt c a) = Inr (resumed_attempt a)"
  by (auto simp: attempt_events_def deserialize_event_attempt_def serialize_attempt_def trigger_event_def
      bound_reads_back payload_reads_back resumed_attempt_def split: option.splits)

lemma serialize_in_progress_requeued:
  "serialize_in_progress c ip = serialize_attempt c (attempt_of_in_progress ip)"
  by (simp add: serialize_in_progress_def serialize_attempt_def attempt_of_in_progress_def nat_or_zero_def)

lemma waiter_reads_back:
  "reads_back c (waiter_events w) \<Longrightarrow> importable c (w_waiting_for_event w) \<Longrightarrow>
   deserialize_waiter c (serialize_waiter c w) = Inr (resumed_waiter w)"
  by (cases "w_resolved_event w")
    (auto simp: waiter_events_def deserialize_waiter_def serialize_waiter_def trigger_event_def
      bound_reads_back payload_reads_back importable_def resumed_waiter_def split: option.splits)

lemma worker_reads_back:
  assumes "reads_back c (worker_events w)"
    and "list_all (\<lambda>x. importable c (w_waiting_for_event x)) (ws_collected_waiters w)"
    and "ws_config w0 = ws_config w" and "ws_in_progress w0 = []"
  shows "deserialize_worker c (serialize_worker c w) w0 = Inr (resumed_worker w)"
proof -
  let ?q = "ws_queue w @ map attempt_of_in_progress (ws_in_progress w)"
  have ev: "list_all (reads_back c) (map attempt_events ?q)"
    "list_all (reads_back c) (map snd (ws_collected_events w))"
    "reads_back c (ws_static_collect_events w)"
    "list_all (reads_back c) (map waiter_events (ws_collected_waiters w))"
    using assms(1) unfolding worker_events_def reads_back_append reads_back_concat by simp_all
  have queue: "map_res (deserialize_event_attempt c) (map (serialize_attempt c) ?q) = Inr (map resumed_attempt ?q)"
    unfolding map_res_map using ev(1) by (intro map_res_ok) (auto simp: list_all_iff attempt_reads_back)
  have collected: "map_res_values (map_res (deserialize c))
      (map (\<lambda>(b, es). (b, map (serialize c) es)) (ws_collected_events w)) = Inr (ws_collected_events w)"
    using ev(2) by (intro map_res_values_back) (auto simp: list_all_iff events_read_back)
  have waiters: "map_res (deserialize_waiter c) (map (serialize_waiter c) (ws_collected_waiters w)) =
      Inr (map resumed_waiter (ws_collected_waiters w))"
    unfolding map_res_map using ev(4) assms(2)
    by (intro map_res_ok) (auto simp: list_all_iff waiter_reads_back)
  have in_order: "map (serialize_attempt c) (ws_queue w) @ map (serialize_in_progress c) (ws_in_progress w) =
      map (serialize_attempt c) ?q"
    by (simp add: serialize_in_progress_requeued)
  show ?thesis
    using assms(3,4) unfolding deserialize_worker_def serialize_worker_def ser_worker_state.simps in_order
    by (simp add: queue collected waiters events_read_back [OF ev(3)] resumed_worker_def del: map_append)
qed

text \<open>The pool \<open>from_workflow\<close> gives to a step.\<close>

definition blank_worker :: "step_config \<Rightarrow> worker_state" where
  "blank_worker cfg = \<lparr>ws_queue = [], ws_config = cfg, ws_in_progress = [], ws_collected_events = [],
     ws_collected_waiters = [], ws_static_collect_events = []\<rparr>"

lemma dget_append_fresh: "n \<notin> set (dkeys ws) \<Longrightarrow> dget (ws @ (n, w) # vs) n = Some w"
  by (induction ws) auto

lemma dset_append_fresh: "n \<notin> set (dkeys ws) \<Longrightarrow> dset n v (ws @ (n, w) # vs) = ws @ (n, v) # vs"
  by (induction ws) auto

lemma workers_read_back:
  assumes "list_all (\<lambda>(n, w). reads_back c (worker_events w) \<and>
      list_all (\<lambda>x. importable c (w_waiting_for_event x)) (ws_collected_waiters w)) ds"
    and "distinct (dkeys (pre @ ds))"
  shows "restore_workers c (map (\<lambda>(n, w). (n, serialize_worker c w)) ds)
      (pre @ map (\<lambda>(n, w). (n, blank_worker (ws_config w))) ds) =
    Inr (pre @ map (\<lambda>(n, w). (n, resumed_worker w)) ds)"
  using assms
proof (induction ds arbitrary: pre)
  case (Cons d ds)
  obtain n w where d: "d = (n, w)" by (cases d)
  have n: "n \<notin> set (dkeys pre)" using Cons.prems(2) by (auto simp: d)
  have w: "deserialize_worker c (serialize_worker c w) (blank_worker (ws_config w)) = Inr (resumed_worker w)"
    using Cons.prems(1) by (intro worker_reads_back) (auto simp: d blank_worker_def)
  show ?case
    using Cons.IH [of "pre @ [(n, resumed_worker w)]"] Cons.prems
    by (simp add: d w dget_append_fresh [OF n] dset_append_fresh [OF n] del: map_of_append)
qed simp

text \<open>The workflow of a stored state: the one whose steps and configuration the state was made from.\<close>

definition base_of :: "broker_state \<Rightarrow> broker_state" where
  "base_of s = \<lparr>is_running = False, config = config s,
     workers = map (\<lambda>(n, w). (n, blank_worker (ws_config w))) (workers s),
     stream_seq = 0, work_item_seq = 0, streams = [], collection_release_states = []\<rparr>"

lemma state_reads_back:
  assumes "codec_ok c s" and "distinct (dkeys (workers s))"
  shows "from_serialized c (to_serialized c s) (base_of s) = Inr (resumed s)"
proof -
  have ev: "list_all (\<lambda>(n, w). reads_back c (worker_events w)) (workers s)"
    "list_all (\<lambda>(k, r). reads_back c (rs_buffer r)) (collection_release_states s)"
    using assms(1) unfolding codec_ok_def state_events_def reads_back_append reads_back_concat
    by (auto simp: list_all_iff)
  have releases: "map_res_values (deserialize_release_state c)
      (sc_collection_release_states (to_serialized c s)) = Inr (collection_release_states s)"
    unfolding to_serialized_def ser_context.simps using ev(2)
    by (intro map_res_values_back) (auto simp: list_all_iff deserialize_release_state_def events_read_back)
  have all: "list_all (\<lambda>(n, w). reads_back c (worker_events w) \<and>
      list_all (\<lambda>x. importable c (w_waiting_for_event x)) (ws_collected_waiters w)) (workers s)"
    using ev(1) assms(1) by (fastforce simp: codec_ok_def list_all_iff)
  have ws: "restore_workers c (sc_workers (to_serialized c s)) (workers (base_of s)) = Inr (workers (resumed s))"
    using workers_read_back [OF all, of "[]"] assms(2) by (simp add: to_serialized_def base_of_def resumed_def)
  have streams: "map (\<lambda>(i, st). (i,
            \<lparr>cs_stream_id = sst_stream_id st, cs_source_step = sst_source_step st,
             cs_scope_path = sst_scope_path st, cs_open_work_items = sst_open_work_items st,
             cs_accepting_binding_ids = sst_accepting_binding_ids st\<rparr>)) (sc_streams (to_serialized c s)) = streams s"
    unfolding to_serialized_def ser_context.simps map_map by (rule map_idI) auto
  show ?thesis
    unfolding from_serialized_def releases ws streams by (simp add: to_serialized_def base_of_def resumed_def)
qed

lemma base_of_workflow:
  assumes "config s = config (from_workflow steps timeout handlers handler_for bindings)"
    and "map (\<lambda>(n, w). (n, ws_config w)) (workers s) = steps"
  shows "from_workflow steps timeout handlers handler_for bindings = base_of s"
  using assms(1) by (auto simp: base_of_def from_workflow_def blank_worker_def assms(2) [symmetric])

lemma dget_resumed: "dget (workers (resumed s)) n = map_option resumed_worker (dget (workers s) n)"
  by (simp add: resumed_def map_of_map)

lemma resumed_worker_keeps:
  "ws_in_progress (resumed_worker w) = []" "ws_collected_events (resumed_worker w) = ws_collected_events w"
  "ws_static_collect_events (resumed_worker w) = ws_static_collect_events w"
  "map w_waiter_id (ws_collected_waiters (resumed_worker w)) = map w_waiter_id (ws_collected_waiters w)"
  "map w_resolved_event (ws_collected_waiters (resumed_worker w)) = map w_resolved_event (ws_collected_waiters w)"
  by (simp_all add: resumed_worker_def resumed_waiter_def comp_def)

lemma resumed_state_ok:
  assumes "state_ok s"
  shows "state_ok (resumed s)"
proof -
  have k: "dkeys (workers (resumed s)) = dkeys (workers s)" "config (resumed s) = config s"
    by (simp_all add: resumed_def case_prod_unfold)
  have w: "worker_ok (resumed_worker w)" "ws_config (resumed_worker w) = ws_config w" for w
    by (simp_all add: worker_ok_def resumed_worker_def)
  have b: "binding_ok (resumed s) = binding_ok s"
    by (rule ext) (simp add: binding_ok_def dget_resumed)
  show ?thesis using assms unfolding state_ok_def k b
    by (fastforce simp: resumed_def list_all_iff w split: option.splits)
qed

text \<open>Work of a collect invocation is triggered by the event of its payload.\<close>

definition triggers_agree :: "worker_state \<Rightarrow> bool" where
  "triggers_agree w \<longleftrightarrow> list_all (\<lambda>a. case ea_payload a of None \<Rightarrow> True | Some p \<Rightarrow> ea_event a = as_event p)
     (ws_queue w @ map attempt_of_in_progress (ws_in_progress w))"

lemma work_of_resumed:
  "(case ea_payload a of None \<Rightarrow> True | Some p \<Rightarrow> ea_event a = as_event p) \<Longrightarrow>
   work_of_attempt (resumed_attempt a) = work_of_attempt a"
  by (cases "ea_payload a") (simp_all add: work_of_attempt_def resumed_attempt_def nat_or_zero_def)

lemma pool_work_resumed: "triggers_agree w \<Longrightarrow> pool_work (resumed_worker w) = pool_work w"
proof -
  assume ok: "triggers_agree w"
  let ?q = "ws_queue w @ map attempt_of_in_progress (ws_in_progress w)"
  have "map work_of_attempt (map resumed_attempt ?q) = map work_of_attempt ?q"
    using ok unfolding map_map triggers_agree_def list_all_iff
    by (intro map_cong refl) (simp only: comp_apply work_of_resumed)
  then have q: "map work_of_attempt (ws_queue (resumed_worker w)) = map work_of_attempt ?q"
    by (simp add: resumed_worker_def del: map_append map_map)
  have ip: "ws_in_progress (resumed_worker w) = []" by (simp add: resumed_worker_def)
  have "map work_of_attempt ?q = map work_of_attempt (ws_queue w) @ map work_of_execution (ws_in_progress w)"
    by simp
  then show ?thesis unfolding pool_work_def q ip by (simp add: comp_def del: mset_map)
qed

text \<open>Every suspended collect invocation names a binding of the workflow.\<close>

definition waiters_bound :: "broker_state \<Rightarrow> bool" where
  "waiters_bound s \<longleftrightarrow> list_all (\<lambda>(n, w). list_all (\<lambda>x. case w_payload x of None \<Rightarrow> True
     | Some p \<Rightarrow> dget (bc_collection_bindings (config s)) (rp_binding_id p) \<noteq> None)
     (ws_collected_waiters w)) (workers s)"

lemma resumed_startable:
  assumes "state_ok s" and "waiters_bound s"
  shows "startable (resumed s)"
proof -
  have "tick_ok (resumed s) t" if "t \<in> set (rehydrate_with_ticks (resumed s))" for t
  proof -
    from that obtain n v where v: "(n, v) \<in> set (workers (resumed s))" "t \<in> set (rehydrate_worker n v)"
      by (auto simp: rehydrate_with_ticks_def)
    then obtain w where w: "(n, w) \<in> set (workers s)" "v = resumed_worker w" by (auto simp: resumed_def)
    from v(2) w(2) obtain x where "x \<in> set (ws_collected_waiters w)"
      and t: "t = TickAddEvent a \<Longrightarrow> ae_payload a = w_payload x" "\<exists>a. t = TickAddEvent a" for a
      by (auto simp: rehydrate_worker_def resumed_worker_def resumed_waiter_def)
    with w(1) assms(2) show ?thesis
      by (auto simp: waiters_bound_def list_all_iff resumed_def split: option.splits)
  qed
  then show ?thesis using resumed_state_ok [OF assms(1)] by (simp add: startable_def list_all_iff)
qed

text \<open>The waiters whose requirements the stored form loses are exactly the ones re-delivered.\<close>

lemma resumed_rehydrates:
  "w_has_requirements (resumed_waiter w) \<and> w_requirements (resumed_waiter w) = [] \<longleftrightarrow>
   w_requirements w \<noteq> [] \<or> w_has_requirements w"
  by (simp add: resumed_waiter_def)

section \<open>What the older formats keep\<close>

lemma v0_worker:
  "dget (sc_workers (from_v0 v)) n =
    (if n \<in> set (dkeys (v0_queues v)) \<union> set (dkeys (v0_in_progress v)) \<union> set (dkeys (v0_event_buffers v)) \<and>
        n \<notin> set (v0_waiting_ids v)
     then Some (worker_from_v0 v n) else None)"
proof -
  have "dget (map (\<lambda>n. (n, g n)) xs) n = (if n \<in> set xs then Some (g n) else None)" for g :: "string \<Rightarrow> ser_worker_state" and xs
    by (induction xs) auto
  then show ?thesis by (auto simp: from_v0_def Let_def)
qed

lemma fresh_attempt_events [simp]: "map sa_event (map fresh_attempt es) = es"
  by (simp add: fresh_attempt_def comp_def)

lemma worker_from_v0_keeps:
  "map sa_event (sws_queue (worker_from_v0 v n)) = dget_or (v0_in_progress v) n [] @ dget_or (v0_queues v) n []"
  "list_all (\<lambda>a. sa_attempts a = 0 \<and> sa_not_before a = None) (sws_queue (worker_from_v0 v n))"
  "concat (map snd (sws_collected_events (worker_from_v0 v n))) = concat (map snd (dget_or (v0_event_buffers v) n []))"
proof -
  let ?q = "dget_or (v0_in_progress v) n [] @ dget_or (v0_queues v) n []"
  have q: "sws_queue (worker_from_v0 v n) = map fresh_attempt ?q" by (simp add: worker_from_v0_def Let_def)
  show "map sa_event (sws_queue (worker_from_v0 v n)) = ?q" unfolding q by (rule fresh_attempt_events)
  show "list_all (\<lambda>a. sa_attempts a = 0 \<and> sa_not_before a = None) (sws_queue (worker_from_v0 v n))"
    unfolding q list.pred_map by (simp add: fresh_attempt_def comp_def list_all_iff)
  show "concat (map snd (sws_collected_events (worker_from_v0 v n))) = concat (map snd (dget_or (v0_event_buffers v) n []))"
    by (simp add: worker_from_v0_def Let_def)
qed

end
