(* ===== verification/Workflow_Store.thy ===== *)
theory Workflow_Store
  imports Serialization "HOL-Library.Sublist"
begin

text \<open>
  The workflow store of the server (\<open>llama_agents/server/_store\<close>): handlers, queries and the status
  update of \<open>abstract_workflow_store.py\<close>, and the store of \<open>memory_workflow_store.py\<close> with its event
  log, tick log and eviction of completed runs.

  A handler object is shared between the store and its callers in the source; every caller that
  changes one writes it back with \<open>update\<close>, so here the changed value is written back. The time is an
  argument. The payload of a stored tick is JSON. Of the state stores only the keys of the cache are
  kept; what they hold is not modelled.
\<close>

section \<open>Handlers and queries\<close>

datatype status = Running | Completed | Failed | Cancelled

definition TERMINAL_STATUSES :: "status list" where
  "TERMINAL_STATUSES = [Completed, Failed, Cancelled]"

definition is_terminal_status :: "status \<Rightarrow> bool" where
  "is_terminal_status st = (st \<in> set TERMINAL_STATUSES)"

record handler_query =
  q_handler_id_in :: "string list option"
  q_run_id_in :: "string list option"
  q_workflow_name_in :: "string list option"
  q_status_in :: "status list option"
  q_is_idle :: "bool option"

record persistent_handler =
  ph_handler_id :: string
  ph_workflow_name :: string
  ph_status :: status
  ph_run_id :: "string option"
  ph_error :: "string option"
  ph_result :: "event option"
  ph_started_at :: "real option"
  ph_updated_at :: "real option"
  ph_completed_at :: "real option"
  ph_idle_since :: "real option"

definition matches_query :: "persistent_handler \<Rightarrow> handler_query \<Rightarrow> bool" where
  "matches_query h q =
    ((case q_handler_id_in q of None \<Rightarrow> True | Some ids \<Rightarrow> ids \<noteq> [] \<and> ph_handler_id h \<in> set ids) \<and>
     (case q_run_id_in q of None \<Rightarrow> True | Some ids \<Rightarrow> ids \<noteq> [] \<and> ph_run_id h \<in> set (map Some ids)) \<and>
     (case q_workflow_name_in q of None \<Rightarrow> True | Some ns \<Rightarrow> ns \<noteq> [] \<and> ph_workflow_name h \<in> set ns) \<and>
     (case q_status_in q of None \<Rightarrow> True | Some sts \<Rightarrow> sts \<noteq> [] \<and> ph_status h \<in> set sts) \<and>
     (case q_is_idle q of None \<Rightarrow> True | Some b \<Rightarrow> b = (ph_idle_since h \<noteq> None)))"

definition all_handlers :: handler_query where
  "all_handlers = \<lparr>q_handler_id_in = None, q_run_id_in = None, q_workflow_name_in = None,
     q_status_in = None, q_is_idle = None\<rparr>"

section \<open>Logs\<close>

record stored_tick =
  st_run_id :: string
  st_sequence :: nat
  st_timestamp :: real
  st_tick_data :: json

record event_envelope =
  ee_value :: json
  ee_qualified_name :: "string option"
  ee_type :: string
  ee_types :: "string list option"

record stored_event =
  se_run_id :: string
  se_sequence :: nat
  se_timestamp :: real
  se_event :: event_envelope

definition is_terminal_event :: "stored_event \<Rightarrow> bool" where
  "is_terminal_event e =
    (''StopEvent'' \<in> set ((case ee_types (se_event e) of None \<Rightarrow> [] | Some ts \<Rightarrow> ts) @ [ee_type (se_event e)]))"

section \<open>The store in memory\<close>

record memory_store =
  ms_handlers :: "(string, persistent_handler) dict"
  ms_events :: "(string, stored_event list) dict"
  ms_ticks :: "(string, stored_tick list) dict"
  ms_state_stores :: "(string \<times> string list) list"
  ms_max_completed :: "nat option"
  ms_terminal_queue :: "string list"

definition mk_memory_store :: "int option \<Rightarrow> memory_store res" where
  "mk_memory_store max_completed =
    (let st = \<lparr>ms_handlers = [], ms_events = [], ms_ticks = [], ms_state_stores = [],
               ms_max_completed = map_option nat max_completed, ms_terminal_queue = []\<rparr>
     in case max_completed of
          Some m \<Rightarrow> if m < 0 then Inl (ValueError ''max_completed must be >= 0 or None'') else Inr st
        | None \<Rightarrow> Inr st)"

definition store_query :: "handler_query \<Rightarrow> memory_store \<Rightarrow> persistent_handler list" where
  "store_query q st = filter (\<lambda>h. matches_query h q) (map snd (ms_handlers st))"

definition evict_run_state_stores :: "string \<Rightarrow> memory_store \<Rightarrow> memory_store" where
  "evict_run_state_stores run_id st =
     st\<lparr>ms_state_stores := filter (\<lambda>k. fst k \<noteq> run_id) (ms_state_stores st)\<rparr>"

definition evict_handler :: "string \<Rightarrow> persistent_handler \<Rightarrow> memory_store \<Rightarrow> memory_store" where
  "evict_handler handler_id h st =
    (let st1 = st\<lparr>ms_handlers := dpop handler_id (ms_handlers st)\<rparr>
     in case ph_run_id h of
          None \<Rightarrow> st1
        | Some run_id \<Rightarrow> evict_run_state_stores run_id
            (st1\<lparr>ms_events := dpop run_id (ms_events st1), ms_ticks := dpop run_id (ms_ticks st1)\<rparr>))"

text \<open>The loop of \<open>_evict_oldest_completed\<close>, on the terminal queue.\<close>

fun evict_loop :: "nat \<Rightarrow> string list \<Rightarrow> memory_store \<Rightarrow> memory_store" where
  "evict_loop m [] st = st\<lparr>ms_terminal_queue := []\<rparr>"
| "evict_loop m (handler_id # rest) st =
    (if length (handler_id # rest) > m
     then (case dget (ms_handlers st) handler_id of
         None \<Rightarrow> evict_loop m rest st
       | Some h \<Rightarrow>
           if \<not> is_terminal_status (ph_status h) then evict_loop m rest st
           else evict_loop m rest (evict_handler handler_id h st))
     else st\<lparr>ms_terminal_queue := handler_id # rest\<rparr>)"

definition evict_oldest_completed :: "memory_store \<Rightarrow> memory_store" where
  "evict_oldest_completed st = (case ms_max_completed st of
      None \<Rightarrow> st
    | Some m \<Rightarrow> evict_loop m (ms_terminal_queue st) st)"

definition store_update :: "persistent_handler \<Rightarrow> memory_store \<Rightarrow> memory_store" where
  "store_update h st =
    (let st1 = st\<lparr>ms_handlers := dset (ph_handler_id h) h (ms_handlers st)\<rparr>
     in if is_terminal_status (ph_status h)
        then evict_oldest_completed (st1\<lparr>ms_terminal_queue := ms_terminal_queue st1 @ [ph_handler_id h]\<rparr>)
        else st1)"

definition store_delete :: "handler_query \<Rightarrow> memory_store \<Rightarrow> nat \<times> memory_store" where
  "store_delete q st =
    (let to_delete = filter (\<lambda>(i, h). matches_query h q) (ms_handlers st)
     in (length to_delete,
         st\<lparr>ms_handlers := filter (\<lambda>(i, h). \<not> matches_query h q) (ms_handlers st)\<rparr>))"

definition next_seq :: "nat list \<Rightarrow> nat" where
  "next_seq seqs = (if seqs = [] then 0 else Suc (last seqs))"

definition append_event :: "string \<Rightarrow> event_envelope \<Rightarrow> real \<Rightarrow> memory_store \<Rightarrow> memory_store" where
  "append_event run_id ev now st =
    (let existing = dget_or (ms_events st) run_id [];
         stored = \<lparr>se_run_id = run_id, se_sequence = next_seq (map se_sequence existing),
                   se_timestamp = now, se_event = ev\<rparr>
     in st\<lparr>ms_events := dset run_id (existing @ [stored]) (ms_events st)\<rparr>)"

definition query_events :: "string \<Rightarrow> int option \<Rightarrow> nat option \<Rightarrow> memory_store \<Rightarrow> stored_event list" where
  "query_events run_id after_sequence limit st =
    (let events = dget_or (ms_events st) run_id [];
         events1 = (case after_sequence of None \<Rightarrow> events | Some s \<Rightarrow> filter (\<lambda>e. int (se_sequence e) > s) events)
     in case limit of None \<Rightarrow> events1 | Some n \<Rightarrow> take n events1)"

definition append_tick :: "string \<Rightarrow> json \<Rightarrow> real \<Rightarrow> memory_store \<Rightarrow> memory_store" where
  "append_tick run_id tick_data now st =
    (let existing = dget_or (ms_ticks st) run_id [];
         stored = \<lparr>st_run_id = run_id, st_sequence = next_seq (map st_sequence existing),
                   st_timestamp = now, st_tick_data = tick_data\<rparr>
     in st\<lparr>ms_ticks := dset run_id (existing @ [stored]) (ms_ticks st)\<rparr>)"

definition get_ticks :: "string \<Rightarrow> memory_store \<Rightarrow> stored_tick list" where
  "get_ticks run_id st = dget_or (ms_ticks st) run_id []"

text \<open>
  \<open>update_handler_status\<close>; \<open>idle_since\<close> is \<open>None\<close> when unset, \<open>Some None\<close> when cleared. A missing run is
  skipped.
\<close>

definition update_handler_status ::
  "string \<Rightarrow> status option \<Rightarrow> event option \<Rightarrow> string option \<Rightarrow> real option option \<Rightarrow> real \<Rightarrow>
   memory_store \<Rightarrow> memory_store"
where
  "update_handler_status run_id st res err idle_since now store =
    (case store_query (all_handlers\<lparr>q_run_id_in := Some [run_id]\<rparr>) store of
       [] \<Rightarrow> store
     | h # _ \<Rightarrow>
        let h1 = (case st of None \<Rightarrow> h | Some s \<Rightarrow> h\<lparr>ph_status := s\<rparr>);
            h2 = h1\<lparr>ph_updated_at := Some now\<rparr>;
            h3 = (if st \<in> {Some Completed, Some Failed, Some Cancelled}
                  then h2\<lparr>ph_completed_at := Some now\<rparr> else h2);
            h4 = (case res of None \<Rightarrow> h3 | Some r \<Rightarrow> h3\<lparr>ph_result := Some r\<rparr>);
            h5 = (case err of None \<Rightarrow> h4 | Some e \<Rightarrow> h4\<lparr>ph_error := Some e\<rparr>);
            h6 = (case idle_since of None \<Rightarrow> h5 | Some i \<Rightarrow> h5\<lparr>ph_idle_since := i\<rparr>)
        in store_update h6 store)"

section \<open>Subscriptions\<close>

text \<open>The index from which a subscription starts.\<close>

fun start_cursor :: "stored_event list \<Rightarrow> nat \<Rightarrow> int \<Rightarrow> nat \<Rightarrow> nat" where
  "start_cursor [] i after_sequence cursor = cursor"
| "start_cursor (e # es) i after_sequence cursor = start_cursor es (Suc i) after_sequence
     (if int (se_sequence e) \<le> after_sequence then Suc i else cursor)"

definition subscribe_start :: "string \<Rightarrow> int \<Rightarrow> memory_store \<Rightarrow> nat" where
  "subscribe_start run_id after_sequence st =
     (if after_sequence \<ge> 0 then start_cursor (dget_or (ms_events st) run_id []) 0 after_sequence 0 else 0)"

text \<open>Yielding a batch: up to and including the first terminal event.\<close>

fun yield_batch :: "stored_event list \<Rightarrow> stored_event list \<times> bool" where
  "yield_batch [] = ([], False)"
| "yield_batch (e # es) = (if is_terminal_event e then ([e], True)
     else let (ys, fin) = yield_batch es in (e # ys, fin))"

text \<open>
  One wake-up of a subscription at index \<open>cursor\<close>: the events it yields, the new index, and whether it
  has ended.
\<close>

definition subscribe_wake :: "string \<Rightarrow> nat \<Rightarrow> memory_store \<Rightarrow> stored_event list \<times> nat \<times> bool" where
  "subscribe_wake run_id cursor st =
    (let (ys, fin) = yield_batch (drop cursor (dget_or (ms_events st) run_id []))
     in (ys, cursor + length ys, fin))"

text \<open>A subscription that wakes up at the given states of the store.\<close>

fun subscribe_events :: "string \<Rightarrow> nat \<Rightarrow> memory_store list \<Rightarrow> stored_event list" where
  "subscribe_events run_id cursor [] = []"
| "subscribe_events run_id cursor (st # sts) =
    (let (ys, cursor', fin) = subscribe_wake run_id cursor st
     in if fin then ys else ys @ subscribe_events run_id cursor' sts)"

section \<open>Eviction\<close>

text \<open>
  The invariant of the store: handlers are filed under their id, and with a cap every completed
  handler is in the terminal queue, which is no longer than the cap.
\<close>

definition finished :: "memory_store \<Rightarrow> string set" where
  "finished st = {i. \<exists>h. dget (ms_handlers st) i = Some h \<and> is_terminal_status (ph_status h)}"

definition store_ok :: "memory_store \<Rightarrow> bool" where
  "store_ok st \<longleftrightarrow> distinct (dkeys (ms_handlers st)) \<and>
     (\<forall>i h. dget (ms_handlers st) i = Some h \<longrightarrow> ph_handler_id h = i) \<and>
     (\<forall>m. ms_max_completed st = Some m \<longrightarrow>
        length (ms_terminal_queue st) \<le> m \<and> finished st \<subseteq> set (ms_terminal_queue st))"

lemma evict_handler_handlers [simp]:
  "ms_handlers (evict_handler i h st) = dpop i (ms_handlers st)"
  "ms_max_completed (evict_handler i h st) = ms_max_completed st"
  by (simp_all add: evict_handler_def evict_run_state_stores_def Let_def split: option.split)

text \<open>The loop removes completed handlers only.\<close>

lemma evict_loop_handlers:
  "dget (ms_handlers (evict_loop m q st)) i = dget (ms_handlers st) i \<or>
   dget (ms_handlers (evict_loop m q st)) i = None \<and> i \<in> finished st \<and> i \<in> set q"
proof (induction m q st rule: evict_loop.induct)
  case (2 m hid rest st)
  then show ?case
    by (auto simp: finished_def split: option.splits if_splits)
qed simp

lemma evict_loop_keys: "distinct (dkeys (ms_handlers st)) \<Longrightarrow> distinct (dkeys (ms_handlers (evict_loop m q st)))"
  by (induction m q st rule: evict_loop.induct) (auto split: option.splits)

lemma evict_loop_max [simp]: "ms_max_completed (evict_loop m q st) = ms_max_completed st"
  by (induction m q st rule: evict_loop.induct) (auto split: option.splits)

lemma evict_loop_queue: "length (ms_terminal_queue (evict_loop m q st)) \<le> m"
  by (induction m q st rule: evict_loop.induct) (auto split: option.splits)

lemma evict_loop_finished:
  "finished st \<subseteq> set q \<Longrightarrow> finished (evict_loop m q st) \<subseteq> set (ms_terminal_queue (evict_loop m q st))"
proof (induction m q st rule: evict_loop.induct)
  case (1 m st)
  then show ?case by (simp add: finished_def)
next
  case (2 m hid rest st)
  show ?case
  proof (cases "length (hid # rest) > m")
    case False
    then show ?thesis using 2(4) by (auto simp: finished_def)
  next
    case True
    show ?thesis
    proof (cases "dget (ms_handlers st) hid")
      case None
      then have "finished st \<subseteq> set rest" using 2(4) by (auto simp: finished_def)
      with 2(1) [OF True None] True None show ?thesis by simp
    next
      case (Some h)
      show ?thesis
      proof (cases "is_terminal_status (ph_status h)")
        case False
        then have "finished st \<subseteq> set rest" using 2(4) Some by (auto simp: finished_def)
        with 2(2) [OF True Some False] True Some False show ?thesis by simp
      next
        case t: True
        let ?st = "evict_handler hid h st"
        have "finished ?st \<subseteq> set rest" using 2(4) by (auto simp: finished_def split: if_splits)
        with 2(3) [OF True Some] t True Some show ?thesis by simp
      qed
    qed
  qed
qed

lemma evict_ok:
  assumes "distinct (dkeys (ms_handlers st))" and "\<And>i h. dget (ms_handlers st) i = Some h \<Longrightarrow> ph_handler_id h = i"
    and "ms_max_completed st \<noteq> None \<Longrightarrow> finished st \<subseteq> set (ms_terminal_queue st)"
  shows "store_ok (evict_oldest_completed st)"
proof (cases "ms_max_completed st")
  case None
  with assms show ?thesis by (simp add: store_ok_def evict_oldest_completed_def)
next
  case (Some m)
  let ?st = "evict_loop m (ms_terminal_queue st) st"
  have "ph_handler_id h = i" if "dget (ms_handlers ?st) i = Some h" for i h
    using evict_loop_handlers [of m "ms_terminal_queue st" st i] that assms(2) by auto
  then show ?thesis
    using Some assms evict_loop_keys evict_loop_queue evict_loop_finished
    by (simp add: store_ok_def evict_oldest_completed_def)
qed

lemma dget_filter: "distinct (dkeys d) \<Longrightarrow> dget (filter (\<lambda>(k, v). P v) d) k =
   (case dget d k of None \<Rightarrow> None | Some v \<Rightarrow> if P v then Some v else None)"
proof (induction d)
  case (Cons x d)
  then have "fst x = k \<Longrightarrow> dget d k = None" by (auto simp: dget_keys)
  with Cons show ?case by (cases x) (auto split: option.splits)
qed simp

lemma distinct_dkeys_filter: "distinct (dkeys d) \<Longrightarrow> distinct (dkeys (filter P d))"
  by (simp add: distinct_map_filter)

lemma store_update_ok:
  assumes "store_ok st"
  shows "store_ok (store_update h st)"
proof (cases "is_terminal_status (ph_status h)")
  case True
  let ?st = "st\<lparr>ms_handlers := dset (ph_handler_id h) h (ms_handlers st),
    ms_terminal_queue := ms_terminal_queue st @ [ph_handler_id h]\<rparr>"
  have "finished ?st \<subseteq> insert (ph_handler_id h) (finished st)" by (auto simp: finished_def split: if_splits)
  then have q: "finished ?st \<subseteq> set (ms_terminal_queue ?st)" if "ms_max_completed ?st \<noteq> None"
    using assms that by (fastforce simp: store_ok_def)
  have "store_ok (evict_oldest_completed ?st)"
    by (rule evict_ok) (use assms q in \<open>auto simp: store_ok_def split: if_splits\<close>)
  with True show ?thesis by (simp add: store_update_def Let_def)
next
  case False
  let ?st = "st\<lparr>ms_handlers := dset (ph_handler_id h) h (ms_handlers st)\<rparr>"
  have "finished ?st \<subseteq> finished st" using False by (auto simp: finished_def split: if_splits)
  then have q: "finished ?st \<subseteq> set (ms_terminal_queue st)" if "finished st \<subseteq> set (ms_terminal_queue st)"
    using that by (rule subset_trans)
  have "store_ok ?st" using assms q by (auto simp: store_ok_def simp del: subset_iff split: if_splits)
  with False show ?thesis by (simp add: store_update_def Let_def)
qed

lemma dget_store_delete:
  assumes "store_ok st"
  shows "dget (ms_handlers (snd (store_delete q st))) i =
    (case dget (ms_handlers st) i of None \<Rightarrow> None | Some h \<Rightarrow> if matches_query h q then None else Some h)"
  using assms by (simp add: store_delete_def Let_def store_ok_def dget_filter split: option.split)

lemma store_delete_ok:
  assumes "store_ok st"
  shows "store_ok (snd (store_delete q st))"
proof -
  let ?st = "snd (store_delete q st)"
  have rest: "distinct (dkeys (ms_handlers ?st))" "ms_max_completed ?st = ms_max_completed st"
    "ms_terminal_queue ?st = ms_terminal_queue st"
    using assms by (simp_all add: store_delete_def Let_def store_ok_def distinct_dkeys_filter)
  have sub: "dget (ms_handlers ?st) i = Some h \<Longrightarrow> dget (ms_handlers st) i = Some h" for i h
    by (simp add: dget_store_delete [OF assms] split: option.splits if_splits)
  then have "finished ?st \<subseteq> finished st" by (auto simp: finished_def)
  with assms rest sub show ?thesis unfolding store_ok_def rest by blast
qed

lemma update_handler_status_ok: "store_ok st \<Longrightarrow> store_ok (update_handler_status r s res err idle now st)"
  by (simp add: update_handler_status_def Let_def store_update_ok split: list.split)

lemma append_ok [simp]:
  "store_ok (append_event r ev now st) = store_ok st" "store_ok (append_tick r d now st) = store_ok st"
  by (simp_all add: store_ok_def append_event_def append_tick_def finished_def Let_def)

text \<open>A running handler leaves the store by a deletion or an update of its own only.\<close>

lemma store_update_keeps:
  assumes "dget (ms_handlers st) i = Some h" and "\<not> is_terminal_status (ph_status h)" and "ph_handler_id h' \<noteq> i"
  shows "dget (ms_handlers (store_update h' st)) i = Some h"
proof (cases "is_terminal_status (ph_status h')")
  case True
  let ?st = "st\<lparr>ms_handlers := dset (ph_handler_id h') h' (ms_handlers st),
    ms_terminal_queue := ms_terminal_queue st @ [ph_handler_id h']\<rparr>"
  have h: "dget (ms_handlers ?st) i = Some h" using assms by simp
  with assms(2) have "i \<notin> finished ?st" by (simp add: finished_def)
  then have "dget (ms_handlers (evict_oldest_completed ?st)) i = Some h"
    using h evict_loop_handlers [of _ "ms_terminal_queue ?st" ?st i]
    by (auto simp: evict_oldest_completed_def split: option.split)
  with True show ?thesis by (simp add: store_update_def Let_def)
qed (use assms in \<open>simp add: store_update_def Let_def\<close>)

lemma finished_bounded:
  assumes "store_ok st" and "ms_max_completed st = Some m"
  shows "card (finished st) \<le> m"
proof -
  have "card (finished st) \<le> card (set (ms_terminal_queue st))"
    using assms by (intro card_mono) (auto simp: store_ok_def)
  also have "\<dots> \<le> length (ms_terminal_queue st)" by (rule card_length)
  finally show ?thesis using assms by (auto simp: store_ok_def)
qed

lemma store_update_max [simp]: "ms_max_completed (store_update h st) = ms_max_completed st"
  by (simp add: store_update_def evict_oldest_completed_def Let_def split: option.split)

section \<open>The logs\<close>

text \<open>Sequence numbers count the entries of a run.\<close>

definition numbered :: "nat list \<Rightarrow> bool" where
  "numbered seqs \<longleftrightarrow> seqs = [0..<length seqs]"

lemma numbered_snoc: "numbered seqs \<Longrightarrow> numbered (seqs @ [next_seq seqs])"
proof (cases "seqs = []")
  case False
  assume n: "numbered seqs"
  then have "last seqs = length seqs - 1" using False by (metis numbered_def last_conv_nth nth_upt diff_less length_greater_0_conv less_numeral_extra(1) add_0)
  then have "next_seq seqs = length seqs" using False by (simp add: next_seq_def)
  with n show ?thesis by (simp add: numbered_def)
qed (simp add: numbered_def next_seq_def)

definition logs_ok :: "memory_store \<Rightarrow> bool" where
  "logs_ok st \<longleftrightarrow> (\<forall>r. numbered (map se_sequence (dget_or (ms_events st) r [])) \<and>
     numbered (map st_sequence (dget_or (ms_ticks st) r [])))"

lemma logs_ok_append:
  "logs_ok st \<Longrightarrow> logs_ok (append_event r ev now st)" "logs_ok st \<Longrightarrow> logs_ok (append_tick r d now st)"
  by (auto simp: logs_ok_def append_event_def append_tick_def dget_or_def Let_def numbered_snoc
      dest: spec [of _ r] split: option.splits)

lemma get_ticks_append:
  "map st_tick_data (get_ticks r (append_tick r' d now st)) =
     map st_tick_data (get_ticks r st) @ (if r = r' then [d] else [])"
  by (simp add: get_ticks_def append_tick_def dget_or_def Let_def)

lemma start_cursor_numbered:
  "map se_sequence es = [i..<i + length es] \<Longrightarrow> 0 \<le> a \<Longrightarrow> c = (if i = 0 then 0 else min i (nat (a + 1))) \<Longrightarrow>
   start_cursor es i a c = min (i + length es) (nat (a + 1))"
proof (induction es arbitrary: i c)
  case (Cons e es)
  from Cons.prems(1) have e: "se_sequence e = i" and es: "map se_sequence es = [Suc i..<Suc i + length es]"
    by (simp_all add: upt_conv_Cons del: upt_Suc)
  have "(if int (se_sequence e) \<le> a then Suc i else c) = min (Suc i) (nat (a + 1))"
    using Cons.prems(2,3) e by (auto simp: min_def)
  with Cons.IH [OF es Cons.prems(2)] show ?case by simp
qed auto

lemma yield_batch_append:
  "yield_batch (xs @ ys) = (if snd (yield_batch xs) then yield_batch xs
     else (xs @ fst (yield_batch ys), snd (yield_batch ys)))"
  by (induction xs) (auto simp: case_prod_unfold Let_def)

lemma yield_batch_all: "\<not> snd (yield_batch xs) \<Longrightarrow> fst (yield_batch xs) = xs"
  by (induction xs) (auto simp: case_prod_unfold Let_def split: if_splits)

text \<open>The event log of a run only grows along a list of states of the store.\<close>

fun growing :: "string \<Rightarrow> memory_store list \<Rightarrow> bool" where
  "growing r (st # st' # sts) = (prefix (dget_or (ms_events st) r []) (dget_or (ms_events st') r []) \<and> growing r (st' # sts))"
| "growing r _ = True"

lemma growing_last: "growing r (st # sts) \<Longrightarrow> prefix (dget_or (ms_events st) r []) (dget_or (ms_events (last (st # sts))) r [])"
  by (induction sts arbitrary: st) (auto intro: prefix_order.trans)

lemma subscribe_events_log:
  assumes "growing r (st # sts)" and "cursor \<le> length (dget_or (ms_events st) r [])"
  shows "subscribe_events r cursor (st # sts) = fst (yield_batch (drop cursor (dget_or (ms_events (last (st # sts))) r [])))"
  using assms
proof (induction sts arbitrary: st cursor)
  case Nil
  then show ?case by (simp add: subscribe_wake_def case_prod_unfold Let_def)
next
  case (Cons st' sts)
  let ?log = "\<lambda>st. dget_or (ms_events st) r []"
  let ?ys = "drop cursor (?log st)"
  have "prefix (?log st) (?log (last (st' # sts)))"
    using growing_last [of r st' sts] Cons.prems(1) by (auto intro: prefix_order.trans)
  then obtain zs where zs: "?log (last (st' # sts)) = ?log st @ zs" by (auto simp: prefix_def)
  have len: "length (?log st) \<le> length (?log st')" using Cons.prems(1) by (auto simp: prefix_length_le)
  show ?case
  proof (cases "snd (yield_batch ?ys)")
    case True
    then show ?thesis using Cons.prems(2) zs
      by (simp add: subscribe_wake_def case_prod_unfold Let_def yield_batch_append)
  next
    case False
    then have all: "fst (yield_batch ?ys) = ?ys" by (rule yield_batch_all)
    have "cursor + length ?ys = length (?log st)" using Cons.prems(2) by simp
    then have "subscribe_events r (length (?log st)) (st' # sts) =
        fst (yield_batch (drop (length (?log st)) (?log (last (st' # sts)))))"
      using Cons.IH [of st' "length (?log st)"] Cons.prems(1) len by simp
    then show ?thesis using False all Cons.prems(2) zs
      by (simp add: subscribe_wake_def case_prod_unfold Let_def yield_batch_append del: subscribe_events.simps(2))
        (simp add: subscribe_wake_def case_prod_unfold Let_def)
  qed
qed

lemma yield_batch_spec:
  "fst (yield_batch xs) = takeWhile (\<lambda>e. \<not> is_terminal_event e) xs @ take 1 (dropWhile (\<lambda>e. \<not> is_terminal_event e) xs)"
  by (induction xs) (auto simp: case_prod_unfold Let_def)

lemma subscribe_start_numbered:
  assumes "logs_ok st" and "-1 \<le> a"
  shows "subscribe_start r a st = min (length (dget_or (ms_events st) r [])) (nat (a + 1))"
proof (cases "0 \<le> a")
  case True
  have "map se_sequence (dget_or (ms_events st) r []) = [0..<length (dget_or (ms_events st) r [])]"
    using assms(1) by (simp add: logs_ok_def numbered_def)
  with True start_cursor_numbered [of "dget_or (ms_events st) r []" 0 a 0] show ?thesis
    by (simp add: subscribe_start_def)
next
  case False
  with assms(2) have "a = -1" by simp
  then show ?thesis by (simp add: subscribe_start_def)
qed

lemma filter_after_numbered:
  "map se_sequence es = [i..<i + length es] \<Longrightarrow>
   filter (\<lambda>e. int (se_sequence e) > a) es = drop (nat (a + 1) - i) es"
proof (induction es arbitrary: i)
  case (Cons e es)
  from Cons.prems have e: "se_sequence e = i" and es: "map se_sequence es = [Suc i..<Suc i + length es]"
    by (simp_all add: upt_conv_Cons del: upt_Suc)
  show ?case
  proof (cases "int i > a")
    case True
    then have "nat (a + 1) - i = 0" "nat (a + 1) - Suc i = 0" by auto
    with Cons.IH [OF es] e True show ?thesis by simp
  next
    case False
    then have "nat (a + 1) - i = Suc (nat (a + 1) - Suc i)" by auto
    with Cons.IH [OF es] e False show ?thesis by simp
  qed
qed simp

lemma query_events_numbered:
  assumes "logs_ok st"
  shows "query_events r (Some a) None st = drop (nat (a + 1)) (dget_or (ms_events st) r [])"
proof -
  have "map se_sequence (dget_or (ms_events st) r []) = [0..<0 + length (dget_or (ms_events st) r [])]"
    using assms by (simp add: logs_ok_def numbered_def)
  from filter_after_numbered [OF this] show ?thesis by (simp add: query_events_def Let_def)
qed

text \<open>A subscription delivers what the log holds behind the given sequence number, in order.\<close>

lemma subscription_log:
  assumes "growing r (st # sts)" and "logs_ok st" and "logs_ok (last (st # sts))" and "-1 \<le> a"
    and "a < int (length (dget_or (ms_events st) r []))"
  shows "subscribe_events r (subscribe_start r a st) (st # sts) =
    fst (yield_batch (query_events r (Some a) None (last (st # sts))))"
proof -
  have "nat (a + 1) \<le> length (dget_or (ms_events st) r [])" using assms(4,5) by auto
  then have "subscribe_start r a st = nat (a + 1)" using subscribe_start_numbered [OF assms(2,4)] by simp
  with subscribe_events_log [OF assms(1), of "nat (a + 1)"] \<open>nat (a + 1) \<le> _\<close>
  show ?thesis by (simp only: query_events_numbered [OF assms(3)])
qed

section \<open>Sequences of operations\<close>

datatype store_op =
    OpUpdate persistent_handler
  | OpDelete handler_query
  | OpStatus string "status option" "event option" "string option" "real option option" real
  | OpEvent string event_envelope real
  | OpTick string json real

fun apply_op :: "store_op \<Rightarrow> memory_store \<Rightarrow> memory_store" where
  "apply_op (OpUpdate h) st = store_update h st"
| "apply_op (OpDelete q) st = snd (store_delete q st)"
| "apply_op (OpStatus r s res err idle now) st = update_handler_status r s res err idle now st"
| "apply_op (OpEvent r ev now) st = append_event r ev now st"
| "apply_op (OpTick r d now) st = append_tick r d now st"

text \<open>The operations that are about a given handler.\<close>

fun concerns :: "persistent_handler \<Rightarrow> store_op \<Rightarrow> bool" where
  "concerns h (OpUpdate h') = (ph_handler_id h' = ph_handler_id h)"
| "concerns h (OpDelete q) = matches_query h q"
| "concerns h (OpStatus r s res err idle now) = (ph_run_id h = Some r)"
| "concerns h _ = False"

lemma apply_op_ok: "store_ok st \<Longrightarrow> store_ok (apply_op op st)"
  by (cases op) (simp_all add: store_update_ok store_delete_ok update_handler_status_ok)

lemma apply_op_max [simp]: "ms_max_completed (apply_op op st) = ms_max_completed st"
  by (cases op) (simp_all add: store_delete_def update_handler_status_def append_event_def append_tick_def
      Let_def split: list.split)

lemma apply_ops_ok:
  "store_ok st \<Longrightarrow> store_ok (fold apply_op ops st) \<and> ms_max_completed (fold apply_op ops st) = ms_max_completed st"
  by (induction ops arbitrary: st) (simp_all add: apply_op_ok)

lemma new_store_ok: "mk_memory_store m = Inr st \<Longrightarrow> store_ok st \<and> ms_max_completed st = map_option nat m"
  by (auto simp: mk_memory_store_def store_ok_def finished_def Let_def split: option.splits if_splits)

lemma store_query_mem: "h \<in> set (store_query q st) \<Longrightarrow> \<exists>i. (i, h) \<in> set (ms_handlers st) \<and> matches_query h q"
  by (auto simp: store_query_def)

lemma status_update_keeps:
  assumes "store_ok st" and "dget (ms_handlers st) i = Some h" and "\<not> is_terminal_status (ph_status h)"
    and "ph_run_id h \<noteq> Some r"
  shows "dget (ms_handlers (update_handler_status r s res err idle now st)) i = Some h"
proof (cases "store_query (all_handlers\<lparr>q_run_id_in := Some [r]\<rparr>) st")
  case Nil
  with assms(2) show ?thesis by (simp add: update_handler_status_def)
next
  case (Cons g gs)
  then obtain j where j: "(j, g) \<in> set (ms_handlers st)" and run: "ph_run_id g = Some r"
    using store_query_mem [of g "all_handlers\<lparr>q_run_id_in := Some [r]\<rparr>" st] by (auto simp: matches_query_def all_handlers_def)
  then have jg: "dget (ms_handlers st) j = Some g" using assms(1) by (simp add: store_ok_def)
  then have "ph_handler_id g = j" using assms(1) by (simp add: store_ok_def)
  moreover have "j \<noteq> i" using jg run assms(2,4) by auto
  ultimately have ne: "ph_handler_id g \<noteq> i" by simp
  have ids: "ph_handler_id (case idle of None \<Rightarrow> x | Some y \<Rightarrow> x\<lparr>ph_idle_since := y\<rparr>) = ph_handler_id x"
    "ph_handler_id (case err of None \<Rightarrow> x | Some e \<Rightarrow> x\<lparr>ph_error := Some e\<rparr>) = ph_handler_id x"
    "ph_handler_id (case res of None \<Rightarrow> x | Some v \<Rightarrow> x\<lparr>ph_result := Some v\<rparr>) = ph_handler_id x"
    "ph_handler_id (case s of None \<Rightarrow> x | Some v \<Rightarrow> x\<lparr>ph_status := v\<rparr>) = ph_handler_id x" for x
    by (simp_all split: option.split)
  show ?thesis
    unfolding update_handler_status_def Cons list.case Let_def
    by (rule store_update_keeps [OF assms(2,3)]) (use ne in \<open>simp add: ids\<close>)
qed

lemma apply_op_keeps:
  assumes "store_ok st" and "dget (ms_handlers st) i = Some h" and "\<not> is_terminal_status (ph_status h)"
    and "\<not> concerns h op"
  shows "dget (ms_handlers (apply_op op st)) i = Some h"
proof -
  have "ph_handler_id h = i" using assms(1,2) by (simp add: store_ok_def)
  then show ?thesis
    using assms store_update_keeps [OF assms(2,3)] status_update_keeps [OF assms(1-3)]
    by (cases op) (auto simp: dget_store_delete append_event_def append_tick_def Let_def)
qed

lemma apply_ops_keep:
  assumes "store_ok st" and "dget (ms_handlers st) i = Some h" and "\<not> is_terminal_status (ph_status h)"
    and "list_all (\<lambda>op. \<not> concerns h op) ops"
  shows "dget (ms_handlers (fold apply_op ops st)) i = Some h"
  using assms by (induction ops arbitrary: st) (simp_all add: apply_op_ok apply_op_keeps)

text \<open>Every operation keeps the numbering of the logs; an evicted run starts again from nothing.\<close>

lemma evict_loop_logs: "logs_ok st \<Longrightarrow> logs_ok (evict_loop m q st)"
proof (induction m q st rule: evict_loop.induct)
  case (2 m hid rest st)
  have "logs_ok (evict_handler hid h st)" for h
    using 2(4) by (auto simp: logs_ok_def evict_handler_def evict_run_state_stores_def Let_def dget_or_def numbered_def
        split: option.splits)
  with 2 show ?case by (auto simp: logs_ok_def split: option.splits)
qed (simp add: logs_ok_def)

lemma store_update_logs:
  assumes "logs_ok st"
  shows "logs_ok (store_update h st)"
proof -
  have same: "logs_ok (st\<lparr>ms_handlers := d\<rparr>)" "logs_ok (st\<lparr>ms_handlers := d, ms_terminal_queue := q\<rparr>)" for d q
    using assms by (simp_all add: logs_ok_def)
  show ?thesis
    by (auto simp: store_update_def evict_oldest_completed_def Let_def same evict_loop_logs split: option.split)
qed

lemma apply_op_logs: "logs_ok st \<Longrightarrow> logs_ok (apply_op op st)"
proof (cases op)
  case (OpDelete q)
  assume "logs_ok st"
  with OpDelete show ?thesis by (simp add: logs_ok_def store_delete_def Let_def)
next
  case (OpStatus r s res err idle now)
  assume "logs_ok st"
  with OpStatus show ?thesis by (simp add: update_handler_status_def Let_def store_update_logs split: list.split)
qed (simp_all add: store_update_logs logs_ok_append)

lemma apply_ops_logs: "logs_ok st \<Longrightarrow> logs_ok (fold apply_op ops st)"
  by (induction ops arbitrary: st) (simp_all add: apply_op_logs)

lemma new_store_logs: "mk_memory_store m = Inr st \<Longrightarrow> logs_ok st"
  by (auto simp: mk_memory_store_def logs_ok_def numbered_def dget_or_def Let_def split: option.splits if_splits)

text \<open>A run that is reported complete twice counts twice against the cap.\<close>

lemma repeated_completion_evicts:
  assumes "mk_memory_store (Some 1) = Inr st" and "ph_status h = Completed"
  shows "ms_handlers (store_update h st) = [(ph_handler_id h, h)]"
    and "ms_handlers (store_update h (store_update h st)) = []"
  using assms
  by (auto simp: mk_memory_store_def store_update_def evict_oldest_completed_def is_terminal_status_def
      TERMINAL_STATUSES_def Let_def)

end
