(* ===== verification/Persistence.thy ===== *)
theory Persistence
  imports Workflow_Store
begin

text \<open>
  Persistence of runs on the server (\<open>llama_agents/server/_runtime\<close>): ticks are appended to the store
  as the loop reduces them, published events are recorded with the status they imply
  (\<open>server_runtime.py\<close>), and a restarted server rebuilds every unfinished run from its ticks
  (\<open>persistence_runtime.py\<close>).

  A tracked workflow is its name and the state \<open>BrokerState.from_workflow\<close> gives it. The conversion of
  ticks to and from JSON is pydantic's, an argument; \<open>clk\<close> gives the clock readings of a replay.
\<close>

section \<open>Recording\<close>

text \<open>\<open>_PersistenceInternalRunAdapter.on_tick\<close>, for a store whose append does not fail.\<close>

definition persist_tick :: "(tick \<Rightarrow> json) \<Rightarrow> string \<Rightarrow> real \<Rightarrow> tick \<Rightarrow> memory_store \<Rightarrow> memory_store" where
  "persist_tick dump run_id now t st = append_tick run_id (dump t) now st"

text \<open>The status update of \<open>_ServerInternalRunAdapter.write_to_event_stream\<close>.\<close>

fun event_status :: "event \<Rightarrow> (status \<times> event option \<times> string option) option" where
  "event_status (WorkflowFailedEvent s ex n el) = Some (Failed, None, Some (exn_msg ex))"
| "event_status (WorkflowTimedOutEvent t ss) = Some (Failed, None, Some ''Workflow timed out'')"
| "event_status WorkflowCancelledEvent = Some (Cancelled, None, None)"
| "event_status ev = (if isinstance ev StopEventT then Some (Completed, Some ev, None) else None)"

definition write_to_event_stream ::
  "(event \<Rightarrow> event_envelope) \<Rightarrow> string \<Rightarrow> bool \<Rightarrow> real \<Rightarrow> event \<Rightarrow> memory_store \<Rightarrow> memory_store"
where
  "write_to_event_stream envelope run_id replaying now ev st =
    (if replaying then st
     else let st1 = (case event_status ev of
                None \<Rightarrow> st
              | Some (s, res, err) \<Rightarrow> update_handler_status run_id (Some s) res err None now st)
       in append_event run_id (envelope ev) now st1)"

section \<open>Rebuilding a run\<close>

definition WorkflowCancelledByUserT :: pytype where
  "WorkflowCancelledByUserT = exn_cls WorkflowCancelledByUser"

definition handler_status_from_exit_command ::
  "command \<Rightarrow> (status \<times> event option \<times> string option) option"
where
  "handler_status_from_exit_command c = (case c of
      CommandCompleteRun result \<Rightarrow>
        if isinstance result IdleReleasedEventT then None else Some (Completed, Some result, None)
    | CommandFailWorkflow sid e \<Rightarrow> Some (Failed, None, Some (exn_msg e))
    | CommandHalt e \<Rightarrow>
        if is_subclass (exn_cls e) WorkflowCancelledByUserT then Some (Cancelled, None, None)
        else Some (Failed, None, Some (exn_msg e))
    | _ \<Rightarrow> None)"

text \<open>
  \<open>replay_ticks_stream\<close> over \<open>stream_workflow_ticks\<close>: each stored tick is validated when the replay
  reaches it, and reduced at the time of that moment.
\<close>

fun replay_stored ::
  "(json \<Rightarrow> tick res) \<Rightarrow> (nat \<Rightarrow> real) \<Rightarrow> nat \<Rightarrow> json list \<Rightarrow> broker_state \<Rightarrow> string option \<Rightarrow>
   command option \<Rightarrow> (broker_state \<times> command option) res"
where
  "replay_stored load clk i [] s run_id e = Inr (s, e)"
| "replay_stored load clk i (d # ds) s run_id e = (case load d of
      Inl err \<Rightarrow> Inl err
    | Inr t \<Rightarrow> (case reduce_tick t s (clk i) run_id of
        Inl err \<Rightarrow> Inl err
      | Inr (s', cmds) \<Rightarrow> replay_stored load clk (Suc i) ds s' run_id (last_exit e cmds)))"

text \<open>The state a legacy context gives, or the initial state of the workflow.\<close>

definition initial_context ::
  "codec \<Rightarrow> (raw_context \<Rightarrow> ser_context res) \<Rightarrow> (raw_context \<Rightarrow> context_v0 res) \<Rightarrow> raw_context option \<Rightarrow>
   broker_state \<Rightarrow> broker_state res"
where
  "initial_context c val val0 legacy base = (case legacy of
      None \<Rightarrow> Inr base
    | Some d \<Rightarrow> (case from_dict_auto val val0 d of
        Inl e \<Rightarrow> Inl e
      | Inr parsed \<Rightarrow> from_serialized c parsed base))"

record replay_env =
  re_codec :: codec
  re_validate :: "raw_context \<Rightarrow> ser_context res"
  re_validate_v0 :: "raw_context \<Rightarrow> context_v0 res"
  re_load_tick :: "json \<Rightarrow> tick res"
  re_clock :: "nat \<Rightarrow> real"

definition context_from_ticks ::
  "replay_env \<Rightarrow> raw_context option \<Rightarrow> broker_state \<Rightarrow> string \<Rightarrow> memory_store \<Rightarrow>
   (ser_context \<times> command option) option res"
where
  "context_from_ticks env legacy base run_id st =
    (let ticks = map st_tick_data (get_ticks run_id st);
         c = re_codec env
     in case ticks of
          [] \<Rightarrow> if legacy = None then Inr None
            else (case initial_context c (re_validate env) (re_validate_v0 env) legacy base of
                Inl e \<Rightarrow> Inl e
              | Inr init \<Rightarrow> Inr (Some (to_serialized c init, None)))
        | first # _ \<Rightarrow> (case re_load_tick env first of
            Inl e \<Rightarrow> Inl e
          | Inr _ \<Rightarrow> (case initial_context c (re_validate env) (re_validate_v0 env) legacy base of
              Inl e \<Rightarrow> Inl e
            | Inr init \<Rightarrow> (case replay_stored (re_load_tick env) (re_clock env) 1 ticks
                  (fst (rewind_in_progress init (re_clock env 0))) (Some run_id) None of
                Inl e \<Rightarrow> Inl e
              | Inr (s, exit_command) \<Rightarrow> Inr (Some (to_serialized c s, exit_command))))))"

section \<open>Restarting the server\<close>

text \<open>\<open>_created_within_resume_grace\<close>; clk are in one zone.\<close>

definition created_within_resume_grace :: "real option \<Rightarrow> real \<Rightarrow> real \<Rightarrow> bool" where
  "created_within_resume_grace created_at resume_started_at grace =
     (case created_at of None \<Rightarrow> False | Some t \<Rightarrow> t > resume_started_at - grace)"

record restart_env =
  rs_replay :: replay_env
  rs_grace :: "real option"
  rs_started_at :: real
  rs_workflows :: "(string, broker_state) dict"
  rs_legacy :: "string \<Rightarrow> raw_context option"
  rs_run :: "string \<Rightarrow> ser_context \<Rightarrow> exn option"
  rs_now :: real

record server =
  sv_store :: memory_store
  sv_active :: "string list"
  sv_resumed :: "(string \<times> ser_context) list"

definition mark :: "restart_env \<Rightarrow> string \<Rightarrow> status \<Rightarrow> event option \<Rightarrow> string option \<Rightarrow> server \<Rightarrow> server" where
  "mark env run_id s res err sv =
     sv\<lparr>sv_store := update_handler_status run_id (Some s) res err None (rs_now env) (sv_store sv)\<rparr>"

text \<open>
  The body of the loop of \<open>_on_server_start\<close>. \<open>rs_run\<close> is what \<open>workflow.run\<close> raises, if anything; a run
  that starts is active.
\<close>

definition resume_handler :: "restart_env \<Rightarrow> persistent_handler \<Rightarrow> server \<Rightarrow> server" where
  "resume_handler env h sv =
    (if (case rs_grace env of None \<Rightarrow> False
         | Some g \<Rightarrow> created_within_resume_grace (ph_started_at h) (rs_started_at env) g) then sv
     else case dget (rs_workflows env) (ph_workflow_name h) of
        None \<Rightarrow> sv
      | Some base \<Rightarrow> (case ph_run_id h of
          None \<Rightarrow> sv
        | Some run_id \<Rightarrow>
            if run_id \<in> set (sv_active sv) then sv
            else case context_from_ticks (rs_replay env) (rs_legacy env run_id) base run_id (sv_store sv) of
                Inl e \<Rightarrow> mark env run_id Failed None (Some (exn_msg e)) sv
              | Inr None \<Rightarrow> mark env run_id Failed None
                  (Some ''handler crashed before persisting any state; cannot resume'') sv
              | Inr (Some (ctx, exit_command)) \<Rightarrow>
                 (case Option.bind exit_command handler_status_from_exit_command of
                    Some (s, res, err) \<Rightarrow> mark env run_id s res err sv
                  | None \<Rightarrow> (case rs_run env run_id ctx of
                      Some e \<Rightarrow> mark env run_id Failed None (Some (exn_msg e)) sv
                    | None \<Rightarrow> sv\<lparr>sv_active := run_id # sv_active sv,
                                 sv_resumed := sv_resumed sv @ [(run_id, ctx)]\<rparr>))))"

definition resumable :: "restart_env \<Rightarrow> handler_query" where
  "resumable env = all_handlers\<lparr>q_status_in := Some [Running],
     q_workflow_name_in := Some (dkeys (rs_workflows env)), q_is_idle := Some False\<rparr>"

definition on_server_start :: "restart_env \<Rightarrow> server \<Rightarrow> server" where
  "on_server_start env sv = fold (resume_handler env) (store_query (resumable env) (sv_store sv)) sv"

section \<open>What a replay gives\<close>

lemma replay_stored_loaded:
  assumes "list_all2 (\<lambda>d t. load d = Inr t) ds ts"
  shows "replay_stored load clk i ds s run_id e =
    replay_loop (zip ts (map clk [i..<i + length ts])) s run_id e"
  using assms
proof (induction ds ts arbitrary: i s e rule: list_all2_induct)
  case (Cons d ds t ts)
  have "map clk [i..<i + length (t # ts)] = clk i # map clk [Suc i..<Suc i + length ts]"
    by (simp add: upt_conv_Cons del: upt_Suc)
  with Cons show ?case by (simp split: sum.split)
qed simp

text \<open>
  A context rebuilt from the ticks of a run holds the state the streaming replay computes, in its
  stored form.
\<close>

lemma context_from_ticks_replays:
  assumes "list_all2 (\<lambda>d t. re_load_tick env d = Inr t) (map st_tick_data (get_ticks run_id st)) ts" and "ts \<noteq> []"
    and "replay_ticks_stream base (re_clock env 0) (zip ts (map (re_clock env) [1..<1 + length ts])) (Some run_id) =
      Inr (s, exit_command)"
  shows "context_from_ticks env None base run_id st = Inr (Some (to_serialized (re_codec env) s, exit_command))"
proof -
  obtain d ds where ds: "map st_tick_data (get_ticks run_id st) = d # ds"
    using assms(1,2) by (cases "map st_tick_data (get_ticks run_id st)") auto
  obtain t where t: "re_load_tick env d = Inr t" using assms(1,2) ds by (cases ts) auto
  have "replay_stored (re_load_tick env) (re_clock env) 1 (d # ds)
      (fst (rewind_in_progress base (re_clock env 0))) (Some run_id) None = Inr (s, exit_command)"
    using replay_stored_loaded [OF assms(1) [unfolded ds]] assms(3) by (simp only: replay_ticks_stream_def)
  then show ?thesis
    unfolding context_from_ticks_def Let_def ds
    by (simp only: list.case t sum.case initial_context_def option.case prod.case)
qed

text \<open>A replay keeps the configuration of the workflow: the rebuilt state belongs to it.\<close>

definition belongs :: "broker_state \<Rightarrow> broker_state \<Rightarrow> bool" where
  "belongs base s \<longleftrightarrow> state_ok s \<and> keeps worker_ok {} base s"

interpretation replay_belongs: replay_invariant "belongs base" for base
proof unfold_locales
  show "belongs base (fst (rewind_in_progress s now))" if "belongs base s" for s now
    using that replay_ok.rewind_Inv [of s now] keeps_trans [OF _ rewind_keeps_worker_ok [OF state_ok_pools(1)]]
    by (simp add: belongs_def)
  show "belongs base s'" if "belongs base s" "reduce_tick t s now run_id = Inr (s', cmds)" for s t now run_id s' cmds
    using that(1) replay_ok.tick_Inv [OF _ that(2)] keeps_trans [OF _ reduce_tick_worker_ok [OF that(2)]]
    by (simp add: belongs_def state_ok_pools(1))
qed

lemma configs_by_key:
  "distinct (dkeys d) \<Longrightarrow> map (\<lambda>(n, w). (n, ws_config w)) d = map (\<lambda>n. (n, ws_config (the (dget d n)))) (dkeys d)"
  by (auto simp: map_of_eq_Some_iff intro!: map_cong)

lemma belongs_base:
  assumes "belongs base s" and "state_ok base"
    and "base = from_workflow steps timeout handlers handler_for bindings"
  shows "base_of s = base"
proof -
  note k = assms(1) [unfolded belongs_def keeps_def]
  have conf: "ws_config (the (dget (workers s) n)) = ws_config (the (dget (workers base) n))"
    if "n \<in> set (dkeys (workers base))" for n
  proof -
    from that obtain w where w: "dget (workers base) n = Some w" by (cases "dget (workers base) n") (auto simp: dget_keys)
    with k obtain w' where "dget (workers s) n = Some w'" "ws_config w' = ws_config w" by blast
    with w show ?thesis by simp
  qed
  have "map (\<lambda>(n, w). (n, ws_config w)) (workers s) = map (\<lambda>(n, w). (n, ws_config w)) (workers base)"
    using conf k state_ok_pools(1) [OF assms(2)] state_ok_pools(1) [of s]
    by (simp add: configs_by_key)
  also have "\<dots> = steps" by (simp add: assms(3) from_workflow_def comp_def case_prod_unfold)
  finally show ?thesis using base_of_workflow [of s steps timeout handlers handler_for bindings] k
    by (simp add: assms(3))
qed

text \<open>Loading the rebuilt context gives back the replayed work.\<close>

lemma rebuilt_context_loads:
  assumes "state_ok base" and base: "base = from_workflow steps timeout handlers handler_for bindings"
    and "replay_ticks_stream base t0 ticks run_id = Inr (s, exit_command)"
    and "codec_ok c s" and "waiters_bound s"
  shows "from_serialized c (to_serialized c s) base = Inr (resumed s)" and "startable (resumed s)"
proof -
  have r: "rebuild_state_from_ticks base t0 ticks run_id = Inr s"
    using replay_loop_state [of ticks "fst (rewind_in_progress base t0)" run_id None] assms(3)
    by (simp add: replay_ticks_stream_def rebuild_state_from_ticks_def)
  have "belongs base base" using assms(1) by (simp add: belongs_def)
  from replay_belongs.rebuild_Inv [OF this r] have b: "belongs base s" .
  then have ok: "state_ok s" by (simp add: belongs_def)
  show "from_serialized c (to_serialized c s) base = Inr (resumed s)"
    using state_reads_back [OF assms(4) state_ok_pools(1) [OF ok]] belongs_base [OF b assms(1) base] by simp
  show "startable (resumed s)" using resumed_startable [OF ok assms(5)] .
qed

text \<open>What the loop does with a handler whose ticks replay.\<close>

definition due_for_restart :: "restart_env \<Rightarrow> persistent_handler \<Rightarrow> bool" where
  "due_for_restart env h \<longleftrightarrow> (case rs_grace env of None \<Rightarrow> True
     | Some g \<Rightarrow> \<not> created_within_resume_grace (ph_started_at h) (rs_started_at env) g)"

lemma resume_handler_replays:
  assumes "due_for_restart env h" and "dget (rs_workflows env) (ph_workflow_name h) = Some base"
    and "ph_run_id h = Some run_id" and "run_id \<notin> set (sv_active sv)"
    and "context_from_ticks (rs_replay env) (rs_legacy env run_id) base run_id (sv_store sv) = Inr (Some (ctx, exit_command))"
  shows "resume_handler env h sv = (case Option.bind exit_command handler_status_from_exit_command of
      Some (s, res, err) \<Rightarrow> mark env run_id s res err sv
    | None \<Rightarrow> (case rs_run env run_id ctx of
        Some e \<Rightarrow> mark env run_id Failed None (Some (exn_msg e)) sv
      | None \<Rightarrow> sv\<lparr>sv_active := run_id # sv_active sv, sv_resumed := sv_resumed sv @ [(run_id, ctx)]\<rparr>))"
proof -
  have g: "\<not> (case rs_grace env of None \<Rightarrow> False
      | Some g \<Rightarrow> created_within_resume_grace (ph_started_at h) (rs_started_at env) g)"
    using assms(1) by (simp add: due_for_restart_def split: option.splits)
  show ?thesis
    unfolding resume_handler_def using g assms(4)
    by (simp only: assms(2,3,5) option.case sum.case prod.case if_False)
qed

text \<open>No run is started twice.\<close>

lemma resume_handler_once:
  "distinct (map fst (sv_resumed sv)) \<Longrightarrow> set (map fst (sv_resumed sv)) \<subseteq> set (sv_active sv) \<Longrightarrow>
   distinct (map fst (sv_resumed (resume_handler env h sv))) \<and>
   set (map fst (sv_resumed (resume_handler env h sv))) \<subseteq> set (sv_active (resume_handler env h sv))"
  by (auto simp: resume_handler_def mark_def split: option.split sum.split)

lemma on_server_start_once:
  assumes "sv_resumed sv = []"
  shows "distinct (map fst (sv_resumed (on_server_start env sv)))"
proof -
  have "distinct (map fst (sv_resumed (fold (resume_handler env) hs sv))) \<and>
      set (map fst (sv_resumed (fold (resume_handler env) hs sv))) \<subseteq> set (sv_active (fold (resume_handler env) hs sv))"
    if "distinct (map fst (sv_resumed sv))" "set (map fst (sv_resumed sv)) \<subseteq> set (sv_active sv)" for hs sv
    using that
  proof (induction hs arbitrary: sv)
    case (Cons h hs)
    from resume_handler_once [OF Cons.prems, of env h] Cons.IH [of "resume_handler env h sv"] show ?case by simp
  qed simp
  from this [of sv "store_query (resumable env) (sv_store sv)"] assms show ?thesis by (simp add: on_server_start_def)
qed

end
