(* ===== verification/Lifecycle.thy ===== *)
theory Lifecycle
  imports Prelude
begin

text \<open>
  The distributed lifecycle lock of a run (\<open>llama_agents/dbos/journal/lifecycle.py\<close>) and the executor
  leases (\<open>executor_lease.py\<close>). Each SQL statement or transaction is one atomic operation on a table;
  the two back ends of the lock run the same statements. \<open>now\<close> is the time the operation reads.
\<close>

section \<open>The lifecycle table\<close>

datatype run_lifecycle_state = Active | Releasing | Released | Resuming

record lifecycle_row =
  lr_state :: run_lifecycle_state
  lr_updated_at :: real

type_synonym lifecycle_table = "(string, lifecycle_row) dict"

record resume_claim =
  rc_version :: real
  rc_previous_state :: run_lifecycle_state

datatype resume_result = SendNormally | Claimed resume_claim | InProgress run_lifecycle_state

definition lifecycle_create :: "string \<Rightarrow> real \<Rightarrow> lifecycle_table \<Rightarrow> lifecycle_table" where
  "lifecycle_create run_id now tbl = dset run_id \<lparr>lr_state = Active, lr_updated_at = now\<rparr> tbl"

definition begin_release :: "string \<Rightarrow> real \<Rightarrow> lifecycle_table \<Rightarrow> bool \<times> lifecycle_table" where
  "begin_release run_id now tbl = (case dget tbl run_id of
      Some r \<Rightarrow> if lr_state r = Active
        then (True, dset run_id \<lparr>lr_state = Releasing, lr_updated_at = now\<rparr> tbl) else (False, tbl)
    | None \<Rightarrow> (False, tbl))"

definition complete_release :: "string \<Rightarrow> real \<Rightarrow> lifecycle_table \<Rightarrow> bool \<times> lifecycle_table" where
  "complete_release run_id now tbl = (case dget tbl run_id of
      Some r \<Rightarrow> if lr_state r = Releasing
        then (True, dset run_id \<lparr>lr_state = Released, lr_updated_at = now\<rparr> tbl) else (False, tbl)
    | None \<Rightarrow> (False, tbl))"

text \<open>
  \<open>try_begin_resume\<close> reads the time twice: \<open>checked\<close> when it compares the age of the row, \<open>now\<close> when it
  writes the claim.
\<close>

definition try_begin_resume ::
  "string \<Rightarrow> real option \<Rightarrow> real \<Rightarrow> real \<Rightarrow> lifecycle_table \<Rightarrow> resume_result \<times> lifecycle_table"
where
  "try_begin_resume run_id crash_timeout_seconds checked now tbl = (case dget tbl run_id of
      None \<Rightarrow> (SendNormally, tbl)
    | Some r \<Rightarrow>
        let state = lr_state r
        in if state = Active then (SendNormally, tbl)
           else if state = Released \<or>
               state \<in> {Releasing, Resuming} \<and>
               (case crash_timeout_seconds of None \<Rightarrow> False | Some t \<Rightarrow> checked - lr_updated_at r > t)
           then (Claimed \<lparr>rc_version = now, rc_previous_state = state\<rparr>,
                 dset run_id \<lparr>lr_state = Resuming, lr_updated_at = now\<rparr> tbl)
           else (InProgress state, tbl))"

definition refresh_resume_owner ::
  "string \<Rightarrow> real \<Rightarrow> real \<Rightarrow> lifecycle_table \<Rightarrow> resume_claim option \<times> lifecycle_table"
where
  "refresh_resume_owner run_id version now tbl = (case dget tbl run_id of
      Some r \<Rightarrow> if lr_state r = Resuming \<and> lr_updated_at r = version
        then (Some \<lparr>rc_version = now, rc_previous_state = Resuming\<rparr>,
              dset run_id (r\<lparr>lr_updated_at := now\<rparr>) tbl)
        else (None, tbl)
    | None \<Rightarrow> (None, tbl))"

definition complete_resume :: "string \<Rightarrow> real \<Rightarrow> real \<Rightarrow> lifecycle_table \<Rightarrow> bool \<times> lifecycle_table" where
  "complete_resume run_id version now tbl = (case dget tbl run_id of
      Some r \<Rightarrow> if lr_state r = Resuming \<and> lr_updated_at r = version
        then (True, dset run_id \<lparr>lr_state = Active, lr_updated_at = now\<rparr> tbl) else (False, tbl)
    | None \<Rightarrow> (False, tbl))"

section \<open>Interleavings\<close>

text \<open>The operations the replicas perform on the table, in the order the database runs them.\<close>

datatype lifecycle_op =
    LcCreate string real
  | LcBeginRelease string real
  | LcCompleteRelease string real
  | LcTryResume string "real option" real real
  | LcRefresh string real real
  | LcCompleteResume string real real

fun op_run :: "lifecycle_op \<Rightarrow> string" where
  "op_run (LcCreate r t) = r"
| "op_run (LcBeginRelease r t) = r"
| "op_run (LcCompleteRelease r t) = r"
| "op_run (LcTryResume r c u t) = r"
| "op_run (LcRefresh r v t) = r"
| "op_run (LcCompleteResume r v t) = r"

fun op_time :: "lifecycle_op \<Rightarrow> real" where
  "op_time (LcCreate r t) = t"
| "op_time (LcBeginRelease r t) = t"
| "op_time (LcCompleteRelease r t) = t"
| "op_time (LcTryResume r c u t) = t"
| "op_time (LcRefresh r v t) = t"
| "op_time (LcCompleteResume r v t) = t"

fun lifecycle_step :: "lifecycle_op \<Rightarrow> lifecycle_table \<Rightarrow> lifecycle_table" where
  "lifecycle_step (LcCreate r t) tbl = lifecycle_create r t tbl"
| "lifecycle_step (LcBeginRelease r t) tbl = snd (begin_release r t tbl)"
| "lifecycle_step (LcCompleteRelease r t) tbl = snd (complete_release r t tbl)"
| "lifecycle_step (LcTryResume r c u t) tbl = snd (try_begin_resume r c u t tbl)"
| "lifecycle_step (LcRefresh r v t) tbl = snd (refresh_resume_owner r v t tbl)"
| "lifecycle_step (LcCompleteResume r v t) tbl = snd (complete_resume r v t tbl)"

lemmas lifecycle_ops = lifecycle_create_def begin_release_def complete_release_def try_begin_resume_def
  refresh_resume_owner_def complete_resume_def

text \<open>An operation writes its own row only, and stamps it with its time.\<close>

lemma step_other: "op_run op \<noteq> r \<Longrightarrow> dget (lifecycle_step op tbl) r = dget tbl r"
  by (cases op) (auto simp: lifecycle_ops Let_def split: option.split)

lemma step_stamps:
  "lifecycle_step op tbl = tbl \<or>
   (\<exists>row. lifecycle_step op tbl = dset (op_run op) row tbl \<and> lr_updated_at row = op_time op)"
  by (cases op) (auto simp: lifecycle_ops Let_def split: option.split)

text \<open>Once a row has been overwritten, later operations never bring an older stamp back.\<close>

lemma steps_newer:
  assumes "list_all (\<lambda>op. v < op_time op) ops" and "dget tbl r = Some row" and "v < lr_updated_at row"
  shows "\<exists>row'. dget (fold lifecycle_step ops tbl) r = Some row' \<and> v < lr_updated_at row'"
  using assms
proof (induction ops arbitrary: tbl row)
  case (Cons op ops)
  have "\<exists>row'. dget (lifecycle_step op tbl) r = Some row' \<and> v < lr_updated_at row'"
    using step_stamps [of op tbl] Cons.prems by auto
  then show ?case using Cons.IH Cons.prems(1) by auto
qed simp

text \<open>
  Ownership: a row stamped with the version of a claim still has it after other operations only if
  none of them changed the row.
\<close>

lemma owner_undisturbed:
  assumes "list_all (\<lambda>op. v < op_time op) ops" and "dget tbl r = Some row" and "lr_updated_at row = v"
    and "dget (fold lifecycle_step ops tbl) r = Some row'" and "lr_updated_at row' = v"
  shows "i \<le> length ops \<Longrightarrow> dget (fold lifecycle_step (take i ops) tbl) r = Some row"
  using assms
proof (induction ops arbitrary: tbl i)
  case (Cons op ops)
  have keep: "dget (lifecycle_step op tbl) r = Some row"
  proof (rule ccontr)
    assume n: "dget (lifecycle_step op tbl) r \<noteq> Some row"
    then have "op_run op = r" using step_other [of op r tbl] Cons.prems(3) by auto
    then obtain row1 where "dget (lifecycle_step op tbl) r = Some row1" "v < lr_updated_at row1"
      using step_stamps [of op tbl] n Cons.prems(2,3) by auto
    with steps_newer [of v ops "lifecycle_step op tbl" r row1] Cons.prems(2,5,6) show False by auto
  qed
  show ?case
  proof (cases i)
    case 0
    with Cons.prems show ?thesis by simp
  next
    case (Suc j)
    with Cons.IH [where tbl = "lifecycle_step op tbl" and i = j] keep Cons.prems show ?thesis by simp
  qed
qed simp

section \<open>Allowed transitions\<close>

text \<open>The state machine of the lock; \<open>create\<close> resets a run from any state.\<close>

fun may_follow :: "run_lifecycle_state \<Rightarrow> run_lifecycle_state \<Rightarrow> bool" where
  "may_follow Active Releasing = True"
| "may_follow Releasing Released = True"
| "may_follow Released Resuming = True"
| "may_follow Releasing Resuming = True"
| "may_follow Resuming Resuming = True"
| "may_follow Resuming Active = True"
| "may_follow _ _ = False"

lemma step_transition:
  assumes "dget tbl r = Some row" and "dget (lifecycle_step op tbl) r = Some row'"
    and "\<nexists>t. op = LcCreate r t"
  shows "row' = row \<or> may_follow (lr_state row) (lr_state row')"
proof (cases "op_run op = r")
  case True
  with assms show ?thesis
    by (cases op; cases "lr_state row") (auto simp: lifecycle_ops Let_def split: if_splits option.splits)
next
  case False
  with assms step_other [of op r tbl] show ?thesis by simp
qed

text \<open>
  The idle event of a run that is being resumed resets the row: the resume no longer completes, and
  the next sender finds the run active.
\<close>

lemma create_steals_resume:
  assumes "v < t"
  shows "fst (complete_resume r v t' (lifecycle_create r t tbl)) = False"
    and "fst (try_begin_resume r c u t' (lifecycle_create r t tbl)) = SendNormally"
  using assms by (simp_all add: lifecycle_ops)

section \<open>Executor leases\<close>

record lease_row =
  ls_holder :: "string option"
  ls_heartbeat_at :: "real option"
  ls_acquired_at :: "real option"

type_synonym lease_table = "(string, lease_row) dict"

definition seed_slot :: "string \<Rightarrow> nat \<Rightarrow> lease_table \<Rightarrow> lease_table" where
  "seed_slot slot_prefix i tbl =
    (let slot_id = slot_prefix @ ''-'' @ nat_to_string i
     in case dget tbl slot_id of
          Some _ \<Rightarrow> tbl
        | None \<Rightarrow> dset slot_id \<lparr>ls_holder = None, ls_heartbeat_at = None, ls_acquired_at = None\<rparr> tbl)"

definition seed_slots :: "string \<Rightarrow> nat \<Rightarrow> lease_table \<Rightarrow> lease_table" where
  "seed_slots slot_prefix pool_size tbl = fold (seed_slot slot_prefix) [0..<pool_size] tbl"

text \<open>The \<open>WHERE\<close> clause of the selection; a comparison with \<open>NULL\<close> selects nothing.\<close>

definition lease_free :: "real \<Rightarrow> real \<Rightarrow> lease_row \<Rightarrow> bool" where
  "lease_free lease_timeout now r = (ls_holder r = None \<or>
     (case ls_heartbeat_at r of None \<Rightarrow> False | Some h \<Rightarrow> h < now - lease_timeout))"

text \<open>
  One transaction of \<open>acquire\<close>. Rows another transaction holds are skipped: \<open>locked\<close> are their keys.
  \<open>slot_le\<close> is the order of the database's text collation.
\<close>

fun min_slot :: "(string \<Rightarrow> string \<Rightarrow> bool) \<Rightarrow> string list \<Rightarrow> string option" where
  "min_slot slot_le [] = None"
| "min_slot slot_le (s # ss) = (case min_slot slot_le ss of
      None \<Rightarrow> Some s
    | Some m \<Rightarrow> Some (if slot_le s m then s else m))"

definition try_acquire ::
  "(string \<Rightarrow> string \<Rightarrow> bool) \<Rightarrow> string list \<Rightarrow> string \<Rightarrow> real \<Rightarrow> real \<Rightarrow> lease_table \<Rightarrow> string option \<times> lease_table"
where
  "try_acquire slot_le locked holder lease_timeout now tbl =
    (case min_slot slot_le (map fst (filter (\<lambda>(s, r). lease_free lease_timeout now r \<and> s \<notin> set locked) tbl)) of
       None \<Rightarrow> (None, tbl)
     | Some slot_id \<Rightarrow> (Some slot_id,
         dset slot_id \<lparr>ls_holder = Some holder, ls_heartbeat_at = Some now, ls_acquired_at = Some now\<rparr> tbl))"

definition lease_release :: "string \<Rightarrow> string \<Rightarrow> lease_table \<Rightarrow> lease_table" where
  "lease_release holder slot_id tbl = (case dget tbl slot_id of
      Some r \<Rightarrow> if ls_holder r = Some holder
        then dset slot_id (r\<lparr>ls_holder := None, ls_heartbeat_at := None\<rparr>) tbl else tbl
    | None \<Rightarrow> tbl)"

text \<open>One beat of the heartbeat loop: whether the lease is still held.\<close>

definition heartbeat :: "string \<Rightarrow> string \<Rightarrow> real \<Rightarrow> lease_table \<Rightarrow> bool \<times> lease_table" where
  "heartbeat holder slot_id now tbl = (case dget tbl slot_id of
      Some r \<Rightarrow> if ls_holder r = Some holder
        then (True, dset slot_id (r\<lparr>ls_heartbeat_at := Some now\<rparr>) tbl) else (False, tbl)
    | None \<Rightarrow> (False, tbl))"

lemma min_slot_mem: "min_slot le ss = Some s \<Longrightarrow> s \<in> set ss"
  by (induction ss arbitrary: s) (auto split: option.splits if_splits)

lemma min_slot_None [simp]: "min_slot le ss = None \<longleftrightarrow> ss = []"
  by (cases ss) (auto split: option.splits)

lemma try_acquire_free:
  assumes "distinct (dkeys tbl)" and "try_acquire le locked holder timeout now tbl = (Some s, tbl')"
  shows "\<exists>r. dget tbl s = Some r \<and> lease_free timeout now r \<and> s \<notin> set locked"
    and "tbl' = dset s \<lparr>ls_holder = Some holder, ls_heartbeat_at = Some now, ls_acquired_at = Some now\<rparr> tbl"
proof -
  let ?ss = "map fst (filter (\<lambda>(s, r). lease_free timeout now r \<and> s \<notin> set locked) tbl)"
  have m: "min_slot le ?ss = Some s" and
    "tbl' = dset s \<lparr>ls_holder = Some holder, ls_heartbeat_at = Some now, ls_acquired_at = Some now\<rparr> tbl"
    using assms(2) by (simp_all add: try_acquire_def split: option.splits)
  then show "tbl' = dset s \<lparr>ls_holder = Some holder, ls_heartbeat_at = Some now, ls_acquired_at = Some now\<rparr> tbl" by simp
  from min_slot_mem [OF m] obtain r where "(s, r) \<in> set tbl" "lease_free timeout now r" "s \<notin> set locked" by auto
  then show "\<exists>r. dget tbl s = Some r \<and> lease_free timeout now r \<and> s \<notin> set locked"
    using assms(1) by auto
qed

text \<open>A lease whose heartbeat is recent is given to nobody else.\<close>

lemma live_lease_kept:
  assumes "distinct (dkeys tbl)" and "dget tbl s = Some r" and "ls_holder r = Some h"
    and "ls_heartbeat_at r = Some b" and "now - timeout \<le> b"
  shows "dget (snd (try_acquire le locked holder timeout now tbl)) s = Some r"
proof (cases "try_acquire le locked holder timeout now tbl")
  case (Pair slot tbl')
  show ?thesis
  proof (cases slot)
    case None
    with Pair assms(2) show ?thesis by (auto simp: try_acquire_def split: option.splits)
  next
    case (Some s')
    note acq = try_acquire_free [OF assms(1) Pair [unfolded Some]]
    have "\<not> lease_free timeout now r" using assms(3-5) by (simp add: lease_free_def)
    with acq(1) assms(2) have "s \<noteq> s'" by auto
    then show ?thesis unfolding Pair snd_conv acq(2) using assms(2) by simp
  qed
qed

end
