(* ===== verification/Task_Journal.thy ===== *)
theory Task_Journal
  imports Events
begin

text \<open>
  The task journal of the durable runtime (\<open>llama_agents/dbos/journal\<close>): named tasks
  (\<open>workflows/runtime/types/named_task.py\<close>), the journal table (\<open>crud.py\<close>), the journal of a run
  (\<open>task_journal.py\<close>) and \<open>InternalDBOSAdapter.wait_for_next_task\<close> (\<open>runtime.py\<close>), which replays
  the order in which the tasks of a run completed before a crash.

  A task object is its identity, a number. The database is the list of the rows of
  \<open>workflow_journal\<close> in insertion order, which has no unique key besides its row id, and the
  \<open>(workflow_uuid, function_id)\<close> pairs of \<open>operation_outputs\<close>. What the event loop decides (which task
  finishes first, whether the awaited one finishes in time) is an argument of the wait.
\<close>

section \<open>Named tasks\<close>

definition PULL_PREFIX :: string where
  "PULL_PREFIX = ''__pull__''"

datatype named_task =
    WorkerTask step_id nat (nt_task: nat)
  | PullTask nat (nt_task: nat)

fun task_key :: "named_task \<Rightarrow> string" where
  "task_key (WorkerTask sid w t) = StepId_str sid @ '':'' @ nat_to_string w"
| "task_key (PullTask q t) = PULL_PREFIX @ '':'' @ nat_to_string q"

definition all_tasks :: "named_task list \<Rightarrow> nat set" where
  "all_tasks named_tasks = set (map nt_task named_tasks)"

fun find_by_key :: "named_task list \<Rightarrow> string \<Rightarrow> nat option" where
  "find_by_key [] key = None"
| "find_by_key (nt # nts) key = (if task_key nt = key then Some (nt_task nt) else find_by_key nts key)"

fun get_key :: "named_task list \<Rightarrow> nat \<Rightarrow> string res" where
  "get_key [] task = Inl (KeyError ''Task not found'')"
| "get_key (nt # nts) task = (if nt_task nt = task then Inr (task_key nt) else get_key nts task)"

fun first_done :: "named_task list \<Rightarrow> nat set \<Rightarrow> nat option" where
  "first_done [] done = None"
| "first_done (nt # nts) done = (if nt_task nt \<in> done then Some (nt_task nt) else first_done nts done)"

definition pick_highest_priority :: "named_task list \<Rightarrow> nat set \<Rightarrow> nat option res" where
  "pick_highest_priority named_tasks done =
     (if done = {} then Inr None
      else case first_done named_tasks done of
          Some t \<Rightarrow> Inr (Some t)
        | None \<Rightarrow> Inl (ValueError ''No tasks in done set match named_tasks''))"

datatype pending_start = PendingWorker step_id nat | PendingPull nat

fun pending_key :: "pending_start \<Rightarrow> string" where
  "pending_key (PendingWorker sid w) = StepId_str sid @ '':'' @ nat_to_string w"
| "pending_key (PendingPull q) = PULL_PREFIX @ '':'' @ nat_to_string q"

fun start_pending :: "pending_start \<Rightarrow> nat \<Rightarrow> named_task" where
  "start_pending (PendingWorker sid w) t = WorkerTask sid w t"
| "start_pending (PendingPull q) t = PullTask q t"

section \<open>The journal table\<close>

record journal_row =
  jr_run_id :: string
  jr_seq_num :: nat
  jr_task_key :: string

record journal_db =
  db_rows :: "journal_row list"
  db_operations :: "(string \<times> nat) list"

definition crud_insert :: "string \<Rightarrow> nat \<Rightarrow> string \<Rightarrow> journal_db \<Rightarrow> journal_db" where
  "crud_insert run_id seq_num key db = db\<lparr>db_rows := db_rows db @
     [\<lparr>jr_run_id = run_id, jr_seq_num = seq_num, jr_task_key = key\<rparr>]\<rparr>"

definition run_rows :: "string \<Rightarrow> journal_db \<Rightarrow> journal_row list" where
  "run_rows run_id db = filter (\<lambda>r. jr_run_id r = run_id) (db_rows db)"

definition crud_load :: "string \<Rightarrow> journal_db \<Rightarrow> string list" where
  "crud_load run_id db = map jr_task_key (sort_key jr_seq_num (run_rows run_id db))"

definition crud_delete :: "string \<Rightarrow> journal_db \<Rightarrow> journal_db" where
  "crud_delete run_id db = db\<lparr>db_rows := filter (\<lambda>r. jr_run_id r \<noteq> run_id) (db_rows db)\<rparr>"

definition crud_truncate_from :: "string \<Rightarrow> nat \<Rightarrow> journal_db \<Rightarrow> journal_db" where
  "crud_truncate_from run_id seq_num db =
     db\<lparr>db_rows := filter (\<lambda>r. \<not> (jr_run_id r = run_id \<and> jr_seq_num r \<ge> seq_num)) (db_rows db)\<rparr>"

definition crud_purge_operations_from :: "string \<Rightarrow> nat \<Rightarrow> journal_db \<Rightarrow> journal_db" where
  "crud_purge_operations_from run_id function_id db =
     db\<lparr>db_operations := filter (\<lambda>(w, f). \<not> (w = run_id \<and> f > function_id)) (db_operations db)\<rparr>"

section \<open>The journal of a run\<close>

record task_journal =
  tj_run_id :: string
  tj_has_crud :: bool
  tj_entries :: "string list option"
  tj_replay_index :: nat

definition new_journal :: "string \<Rightarrow> bool \<Rightarrow> task_journal" where
  "new_journal run_id crud =
     \<lparr>tj_run_id = run_id, tj_has_crud = crud, tj_entries = None, tj_replay_index = 0\<rparr>"

definition journal_load :: "journal_db \<Rightarrow> task_journal \<Rightarrow> task_journal" where
  "journal_load db j =
     (if tj_entries j \<noteq> None then j
      else if \<not> tj_has_crud j then j\<lparr>tj_entries := Some []\<rparr>
      else j\<lparr>tj_entries := Some (crud_load (tj_run_id j) db)\<rparr>)"

definition journal_is_replaying :: "task_journal \<Rightarrow> bool" where
  "journal_is_replaying j = (case tj_entries j of None \<Rightarrow> False | Some es \<Rightarrow> tj_replay_index j < length es)"

definition next_expected_key :: "task_journal \<Rightarrow> string option" where
  "next_expected_key j = (case tj_entries j of
      None \<Rightarrow> None
    | Some es \<Rightarrow> if tj_replay_index j \<ge> length es then None else Some (es ! tj_replay_index j))"

definition journal_record :: "string \<Rightarrow> task_journal \<Rightarrow> journal_db \<Rightarrow> task_journal \<times> journal_db" where
  "journal_record key j db =
    (let es = (case tj_entries j of None \<Rightarrow> [] | Some es \<Rightarrow> es);
         j' = j\<lparr>tj_entries := Some (es @ [key]), tj_replay_index := Suc (tj_replay_index j)\<rparr>
     in (j', if tj_has_crud j then crud_insert (tj_run_id j) (length es) key db else db))"

definition journal_advance :: "task_journal \<Rightarrow> task_journal" where
  "journal_advance j = j\<lparr>tj_replay_index := Suc (tj_replay_index j)\<rparr>"

definition has_entries :: "task_journal \<Rightarrow> bool" where
  "has_entries j = (case tj_entries j of None \<Rightarrow> False | Some es \<Rightarrow> es \<noteq> [])"

definition purge_stale :: "nat \<Rightarrow> task_journal \<Rightarrow> journal_db \<Rightarrow> journal_db" where
  "purge_stale current_fid j db = (case tj_entries j of
      None \<Rightarrow> db
    | Some es \<Rightarrow>
        if \<not> has_entries j \<or> \<not> tj_has_crud j then db
        else crud_truncate_from (tj_run_id j) (length es)
          (crud_purge_operations_from (tj_run_id j) current_fid db))"

section \<open>Waiting for the next task\<close>

record dbos_adapter =
  ad_journal :: task_journal
  ad_orphan_purge_done :: bool
  ad_db :: journal_db

definition new_adapter :: "string \<Rightarrow> journal_db \<Rightarrow> dbos_adapter" where
  "new_adapter run_id db =
     \<lparr>ad_journal = new_journal run_id True, ad_orphan_purge_done = False, ad_db = db\<rparr>"

definition purge_orphaned_operations :: "nat \<Rightarrow> dbos_adapter \<Rightarrow> dbos_adapter" where
  "purge_orphaned_operations fid a =
     (if ad_orphan_purge_done a then a
      else let a1 = a\<lparr>ad_orphan_purge_done := True\<rparr>
        in if \<not> has_entries (ad_journal a1) then a1
           else a1\<lparr>ad_db := purge_stale fid (ad_journal a1) (ad_db a1)\<rparr>)"

text \<open>
  What the event loop does during one wait: how waiting for the expected task ends, and which task
  \<open>asyncio.wait\<close> reports first, if any before the timeout.
\<close>

datatype target_outcome = TargetDone | TargetTimeout | TargetRaised exn

record task_wait =
  tw_running :: "named_task list"
  tw_pending :: "(pending_start \<times> nat) list"
  tw_function_id :: nat
  tw_target :: target_outcome
  tw_first :: "nat option"

definition call_tasks :: "task_wait \<Rightarrow> named_task list" where
  "call_tasks c = tw_running c @ map (\<lambda>(p, t). start_pending p t) (tw_pending c)"

definition is_timeout_error :: "exn \<Rightarrow> bool" where
  "is_timeout_error e = (py_qualified (exn_cls e) = ''builtins.TimeoutError'' \<or>
     ''builtins.TimeoutError'' \<in> set (py_mro (exn_cls e)))"

text \<open>The result is the key of the completed task, \<open>None\<close> for a wait that reports no task.\<close>

definition wait_fresh :: "task_wait \<Rightarrow> dbos_adapter \<Rightarrow> (string option \<times> dbos_adapter) res" where
  "wait_fresh c a = (case tw_first c of
      None \<Rightarrow> Inr (None, a)
    | Some completed \<Rightarrow> (case get_key (call_tasks c) completed of
        Inl e \<Rightarrow> Inl e
      | Inr key \<Rightarrow> let (j, db) = journal_record key (ad_journal a) (ad_db a)
          in Inr (Some key, a\<lparr>ad_journal := j, ad_db := db\<rparr>)))"

definition wait_for_next_task :: "task_wait \<Rightarrow> dbos_adapter \<Rightarrow> (string option \<times> dbos_adapter) res" where
  "wait_for_next_task c a0 =
    (let a1 = a0\<lparr>ad_journal := journal_load (ad_db a0) (ad_journal a0)\<rparr>;
         expected_key = next_expected_key (ad_journal a1);
         a = (if expected_key = None \<and> \<not> ad_orphan_purge_done a1
              then purge_orphaned_operations (tw_function_id c) a1 else a1);
         all_named = call_tasks c
     in if all_named = [] then Inr (None, a)
        else case expected_key of
          None \<Rightarrow> wait_fresh c a
        | Some key \<Rightarrow> (case find_by_key all_named key of
            None \<Rightarrow> wait_fresh c a
          | Some target_task \<Rightarrow> (case tw_target c of
              TargetDone \<Rightarrow> Inr (Some key, a\<lparr>ad_journal := journal_advance (ad_journal a)\<rparr>)
            | TargetTimeout \<Rightarrow> Inr (None, a)
            | TargetRaised e \<Rightarrow> if is_timeout_error e then Inr (None, a) else Inl e)))"

text \<open>A sequence of waits of one process, with the keys of the tasks it completed.\<close>

fun wait_all :: "task_wait list \<Rightarrow> dbos_adapter \<Rightarrow> (string list \<times> dbos_adapter) res" where
  "wait_all [] a = Inr ([], a)"
| "wait_all (c # cs) a = (case wait_for_next_task c a of
      Inl e \<Rightarrow> Inl e
    | Inr (key, a1) \<Rightarrow> (case wait_all cs a1 of
        Inl e \<Rightarrow> Inl e
      | Inr (keys, a2) \<Rightarrow> Inr ((case key of None \<Rightarrow> keys | Some k \<Rightarrow> k # keys), a2)))"

section \<open>Keys identify tasks\<close>

lemma last_part:
  assumes "c \<notin> set y"
  shows "takeWhile (\<lambda>ch. ch \<noteq> c) (rev (x @ c # y)) = rev y"
proof -
  have "takeWhile (\<lambda>ch. ch \<noteq> c) (rev y) = rev y" using assms by (auto simp: takeWhile_eq_all_conv)
  then show ?thesis by (simp add: takeWhile_tail)
qed

lemma key_split:
  assumes "a @ '':'' @ nat_to_string m = b @ '':'' @ nat_to_string n"
  shows "a = b \<and> m = n"
proof -
  have no_colon: "CHR '':'' \<notin> set (nat_to_string k)" for k
    using nat_to_string_digits [of "CHR '':''" k] by auto
  have eq: "rev (a @ CHR '':'' # nat_to_string m) = rev (b @ CHR '':'' # nat_to_string n)"
    using assms by (simp only: append_Cons append_Nil)
  have "rev (nat_to_string m) = rev (nat_to_string n)"
    using last_part [OF no_colon, of a m] last_part [OF no_colon, of b n] unfolding eq by (rule trans [OF sym])
  then have "m = n" by (simp only: rev_is_rev_conv nat_to_string_inj)
  with assms show ?thesis by (simp only: append_same_eq simp_thms)
qed

lemma worker_keys_distinct:
  "task_key (WorkerTask sid w t) = task_key (WorkerTask sid' w' t') \<longleftrightarrow> StepId_str sid = StepId_str sid' \<and> w = w'"
  using key_split [of "StepId_str sid" w "StepId_str sid'" w'] by auto

lemma pull_keys_distinct: "task_key (PullTask q t) = task_key (PullTask q' t') \<longleftrightarrow> q = q'"
  using key_split [of PULL_PREFIX q PULL_PREFIX q'] by auto

lemma pull_worker_keys_distinct:
  "StepId_str sid \<noteq> PULL_PREFIX \<Longrightarrow> task_key (WorkerTask sid w t) \<noteq> task_key (PullTask q t')"
  using key_split [of "StepId_str sid" w PULL_PREFIX q] by auto

lemma start_pending_key [simp]: "task_key (start_pending p t) = pending_key p"
  by (cases p) simp_all

lemma find_by_key_Some: "find_by_key nts k = Some t \<Longrightarrow> \<exists>nt \<in> set nts. task_key nt = k \<and> nt_task nt = t"
  by (induction nts) (auto split: if_splits)

lemma find_by_key_None: "find_by_key nts k = None \<longleftrightarrow> k \<notin> task_key ` set nts"
  by (induction nts) auto

lemma get_key_known: "t \<in> all_tasks nts \<Longrightarrow> \<exists>k. get_key nts t = Inr k"
  by (induction nts) (auto simp: all_tasks_def)

lemma get_key_mem: "get_key nts t = Inr k \<Longrightarrow> \<exists>nt \<in> set nts. task_key nt = k \<and> nt_task nt = t"
  by (induction nts) (auto split: if_splits)

lemma first_done_priority: "first_done nts done = map_option nt_task (find (\<lambda>nt. nt_task nt \<in> done) nts)"
  by (induction nts) simp_all

lemma pick_never_fails: "done \<subseteq> all_tasks nts \<Longrightarrow> \<exists>t. pick_highest_priority nts done = Inr t"
  by (cases "find (\<lambda>nt. nt_task nt \<in> done) nts")
    (auto simp: pick_highest_priority_def first_done_priority all_tasks_def find_None_iff)

section \<open>The journal of a run in the table\<close>

definition recorded :: "string \<Rightarrow> journal_db \<Rightarrow> string list \<Rightarrow> bool" where
  "recorded run_id db ks \<longleftrightarrow> run_rows run_id db =
     map (\<lambda>(i, k). \<lparr>jr_run_id = run_id, jr_seq_num = i, jr_task_key = k\<rparr>) (enumerate 0 ks)"

lemma recorded_load: "recorded run_id db ks \<Longrightarrow> crud_load run_id db = ks"
proof -
  assume r: "recorded run_id db ks"
  have seqs: "map jr_seq_num (run_rows run_id db) = [0..<length ks]"
    using r by (simp add: recorded_def comp_def case_prod_unfold)
  then have "sort_key jr_seq_num (run_rows run_id db) = run_rows run_id db"
    by (intro sort_key_id_if_sorted) simp
  then show ?thesis
    using r by (simp add: crud_load_def recorded_def comp_def case_prod_unfold)
qed

lemma run_rows_insert:
  "run_rows r (crud_insert run_id i k db) =
     run_rows r db @ (if r = run_id then [\<lparr>jr_run_id = run_id, jr_seq_num = i, jr_task_key = k\<rparr>] else [])"
  by (simp add: run_rows_def crud_insert_def)

lemma recorded_insert:
  "recorded run_id db ks \<Longrightarrow> recorded run_id (crud_insert run_id (length ks) k db) (ks @ [k])"
  by (simp add: recorded_def run_rows_insert enumerate_append_eq)

lemma run_rows_truncate:
  "run_rows r (crud_truncate_from run_id i db) =
     (if r = run_id then filter (\<lambda>x. jr_seq_num x < i) (run_rows r db) else run_rows r db)"
  by (auto simp: run_rows_def crud_truncate_from_def intro!: filter_cong)

lemma recorded_truncate: "recorded run_id db ks \<Longrightarrow> recorded run_id (crud_truncate_from run_id (length ks) db) ks"
  by (auto simp: recorded_def run_rows_truncate in_set_enumerate_eq intro!: filter_True)

lemma run_rows_purge_operations [simp]: "run_rows r (crud_purge_operations_from run_id f db) = run_rows r db"
  by (simp add: run_rows_def crud_purge_operations_from_def)

lemma run_rows_delete: "run_rows r (crud_delete run_id db) = (if r = run_id then [] else run_rows r db)"
  by (auto simp: run_rows_def crud_delete_def intro!: filter_cong)

text \<open>
  The adapter of a run whose journal is \<open>ks\<close>, of which \<open>i\<close> entries have been replayed or recorded by
  this process.
\<close>

definition journal_at :: "string \<Rightarrow> dbos_adapter \<Rightarrow> string list \<Rightarrow> nat \<Rightarrow> bool" where
  "journal_at run_id a ks i \<longleftrightarrow> tj_run_id (ad_journal a) = run_id \<and> tj_has_crud (ad_journal a) \<and>
     recorded run_id (ad_db a) ks \<and> i \<le> length ks \<and> tj_replay_index (ad_journal a) = i \<and>
     (tj_entries (ad_journal a) = Some ks \<or> tj_entries (ad_journal a) = None \<and> i = 0)"

lemma journal_at_new: "recorded run_id db ks \<Longrightarrow> journal_at run_id (new_adapter run_id db) ks 0"
  by (simp add: journal_at_def new_adapter_def new_journal_def)

lemma journal_at_loaded:
  "journal_at run_id a ks i \<Longrightarrow> tj_entries (journal_load (ad_db a) (ad_journal a)) = Some ks"
  by (auto simp: journal_at_def journal_load_def recorded_load)

lemma journal_at_load:
  "journal_at run_id a ks i \<Longrightarrow> journal_at run_id (a\<lparr>ad_journal := journal_load (ad_db a) (ad_journal a)\<rparr>) ks i"
  by (auto simp: journal_at_def journal_load_def recorded_load)

lemma expected_at:
  assumes "journal_at run_id a ks i"
  shows "next_expected_key (journal_load (ad_db a) (ad_journal a)) = (if i < length ks then Some (ks ! i) else None)"
  using journal_at_loaded [OF assms] journal_at_load [OF assms]
  by (simp add: next_expected_key_def journal_at_def)

lemma purge_rows:
  assumes "journal_at run_id a ks i" and "tj_entries (ad_journal a) = Some ks"
  shows "journal_at run_id (purge_orphaned_operations f a) ks i"
    and "tj_entries (ad_journal (purge_orphaned_operations f a)) = Some ks"
    and "r \<noteq> run_id \<Longrightarrow> run_rows r (ad_db (purge_orphaned_operations f a)) = run_rows r (ad_db a)"
proof -
  have "recorded run_id (crud_purge_operations_from run_id f (ad_db a)) ks"
    using assms(1) by (simp add: journal_at_def recorded_def)
  from recorded_truncate [OF this] assms
  show "journal_at run_id (purge_orphaned_operations f a) ks i"
    by (auto simp: journal_at_def purge_orphaned_operations_def purge_stale_def Let_def)
  show "tj_entries (ad_journal (purge_orphaned_operations f a)) = Some ks"
    using assms(2) by (simp add: purge_orphaned_operations_def Let_def)
  show "r \<noteq> run_id \<Longrightarrow> run_rows r (ad_db (purge_orphaned_operations f a)) = run_rows r (ad_db a)"
    using assms by (auto simp: journal_at_def purge_orphaned_operations_def purge_stale_def Let_def run_rows_truncate)
qed

lemma wait_replays:
  assumes "journal_at run_id a ks i" and "i < length ks"
    and "find_by_key (call_tasks c) (ks ! i) \<noteq> None" and "tw_target c = TargetDone"
  shows "\<exists>a'. wait_for_next_task c a = Inr (Some (ks ! i), a') \<and> journal_at run_id a' ks (Suc i) \<and>
     ad_db a' = ad_db a"
proof -
  have "call_tasks c \<noteq> []" using assms(3) by auto
  then have "wait_for_next_task c a = Inr (Some (ks ! i),
      a\<lparr>ad_journal := journal_advance (journal_load (ad_db a) (ad_journal a))\<rparr>)"
    using assms by (auto simp: wait_for_next_task_def expected_at Let_def)
  then show ?thesis
    using journal_at_load [OF assms(1)] journal_at_loaded [OF assms(1)] assms(2)
    by (auto simp: journal_at_def journal_advance_def)
qed

lemma wait_fresh_records:
  assumes "journal_at run_id a ks i" and "tj_entries (ad_journal a) = Some ks" and "wait_fresh c a = Inr (key, a')"
  shows "(case key of None \<Rightarrow> journal_at run_id a' ks i | Some k \<Rightarrow> journal_at run_id a' (ks @ [k]) (Suc i))"
    and "r \<noteq> run_id \<Longrightarrow> run_rows r (ad_db a') = run_rows r (ad_db a)"
  using assms
  by (auto simp: wait_fresh_def journal_at_def journal_record_def recorded_insert run_rows_insert Let_def
      split: option.splits sum.splits)

text \<open>A wait in terms of the position in the journal.\<close>

definition prepared :: "task_wait \<Rightarrow> dbos_adapter \<Rightarrow> bool \<Rightarrow> dbos_adapter" where
  "prepared c a replaying = (let a1 = a\<lparr>ad_journal := journal_load (ad_db a) (ad_journal a)\<rparr>
     in if \<not> replaying \<and> \<not> ad_orphan_purge_done a1 then purge_orphaned_operations (tw_function_id c) a1 else a1)"

lemma wait_at:
  assumes "journal_at run_id a ks i"
  shows "wait_for_next_task c a = (let a2 = prepared c a (i < length ks) in
     if call_tasks c = [] then Inr (None, a2)
     else if i < length ks \<and> find_by_key (call_tasks c) (ks ! i) \<noteq> None
     then (case tw_target c of
         TargetDone \<Rightarrow> Inr (Some (ks ! i), a2\<lparr>ad_journal := journal_advance (ad_journal a2)\<rparr>)
       | TargetTimeout \<Rightarrow> Inr (None, a2)
       | TargetRaised e \<Rightarrow> if is_timeout_error e then Inr (None, a2) else Inl e)
     else wait_fresh c a2)"
  by (cases "i < length ks")
    (simp_all add: wait_for_next_task_def prepared_def Let_def expected_at [OF assms] split: option.split)

lemma prepared_at:
  assumes "journal_at run_id a ks i"
  shows "journal_at run_id (prepared c a b) ks i" "tj_entries (ad_journal (prepared c a b)) = Some ks"
    "r \<noteq> run_id \<Longrightarrow> run_rows r (ad_db (prepared c a b)) = run_rows r (ad_db a)"
proof -
  let ?a1 = "a\<lparr>ad_journal := journal_load (ad_db a) (ad_journal a)\<rparr>"
  have a1: "journal_at run_id ?a1 ks i" "tj_entries (ad_journal ?a1) = Some ks"
    using journal_at_load [OF assms] journal_at_loaded [OF assms] by simp_all
  show "journal_at run_id (prepared c a b) ks i" "tj_entries (ad_journal (prepared c a b)) = Some ks"
    using a1 purge_rows(1,2) [OF a1] by (simp_all add: prepared_def Let_def)
  show "r \<noteq> run_id \<Longrightarrow> run_rows r (ad_db (prepared c a b)) = run_rows r (ad_db a)"
    using purge_rows(3) [OF a1] by (simp add: prepared_def Let_def)
qed

text \<open>Whatever a wait reports: nothing, the next entry of the journal, or a task it appends.\<close>

lemma wait_cases:
  assumes "journal_at run_id a ks i" and "wait_for_next_task c a = Inr (key, a')"
  obtains "key = None" "a' = prepared c a (i < length ks)"
    | "wait_fresh c (prepared c a (i < length ks)) = Inr (key, a')"
    | "i < length ks" "key = Some (ks ! i)"
      "a' = (prepared c a (i < length ks))\<lparr>ad_journal := journal_advance (ad_journal (prepared c a (i < length ks)))\<rparr>"
proof -
  let ?a = "prepared c a (i < length ks)"
  let ?found = "i < length ks \<and> find_by_key (call_tasks c) (ks ! i) \<noteq> None"
  note w = assms(2) [unfolded wait_at [OF assms(1)] Let_def]
  show thesis
  proof (cases "call_tasks c = []")
    case True
    with w have "key = None" "a' = ?a" by auto
    then show ?thesis by (rule that(1))
  next
    case False
    note nonempty = this
    show ?thesis
    proof (cases ?found)
      case True
      show ?thesis
      proof (cases "tw_target c")
        case TargetDone
        with w nonempty True have "key = Some (ks ! i)" "a' = ?a\<lparr>ad_journal := journal_advance (ad_journal ?a)\<rparr>"
          by (simp_all only: if_False if_True simp_thms target_outcome.case sum.inject prod.inject)
        with True show ?thesis by (intro that(3)) simp_all
      next
        case TargetTimeout
        with w nonempty True have "key = None" "a' = ?a"
          by (simp_all only: if_False if_True simp_thms target_outcome.case sum.inject prod.inject)
        then show ?thesis by (rule that(1))
      next
        case (TargetRaised e)
        with w nonempty True have "key = None \<and> a' = ?a"
          by (cases "is_timeout_error e")
            (simp_all only: if_False if_True simp_thms target_outcome.case sum.inject sum.distinct prod.inject)
        then show ?thesis by (elim conjE) (rule that(1))
      qed
    next
      case False
      with w nonempty have "wait_fresh c ?a = Inr (key, a')" by (simp only: if_False)
      then show ?thesis by (rule that(2))
    qed
  qed
qed

lemma wait_steps:
  assumes "journal_at run_id a ks i" and "wait_for_next_task c a = Inr (key, a')"
  shows "(case key of
       None \<Rightarrow> journal_at run_id a' ks i
     | Some k \<Rightarrow> (i < length ks \<and> k = ks ! i \<and> journal_at run_id a' ks (Suc i)) \<or>
         journal_at run_id a' (ks @ [k]) (Suc i))"
    and "r \<noteq> run_id \<Longrightarrow> run_rows r (ad_db a') = run_rows r (ad_db a)"
proof -
  note p = prepared_at [OF assms(1), where c = c and b = "i < length ks"]
  have adv: "journal_at run_id (x\<lparr>ad_journal := journal_advance (ad_journal x)\<rparr>) ks (Suc i)"
    if "i < length ks" "journal_at run_id x ks i" "tj_entries (ad_journal x) = Some ks" for x
    using that by (simp add: journal_at_def journal_advance_def)
  show "case key of None \<Rightarrow> journal_at run_id a' ks i
     | Some k \<Rightarrow> (i < length ks \<and> k = ks ! i \<and> journal_at run_id a' ks (Suc i)) \<or>
         journal_at run_id a' (ks @ [k]) (Suc i)"
  proof (cases rule: wait_cases [OF assms])
    case 1
    with p(1) show ?thesis by (simp only: option.case)
  next
    case 2
    from wait_fresh_records(1) [OF p(1,2) this] show ?thesis by (cases key) (simp_all only: option.case simp_thms)
  next
    case 3
    with adv [OF 3(1) p(1,2)] show ?thesis by (simp only: option.case simp_thms)
  qed
  show "r \<noteq> run_id \<Longrightarrow> run_rows r (ad_db a') = run_rows r (ad_db a)"
    using p(3) wait_fresh_records(2) [OF p(1,2)] by (cases rule: wait_cases [OF assms]) simp_all
qed

section \<open>Recovery\<close>

text \<open>A first process: what it completes is what its journal holds.\<close>

lemma wait_all_records:
  assumes "journal_at run_id a ks (length ks)" and "wait_all cs a = Inr (keys, a')"
  shows "journal_at run_id a' (ks @ keys) (length (ks @ keys))"
    and "r \<noteq> run_id \<Longrightarrow> run_rows r (ad_db a') = run_rows r (ad_db a)"
  using assms
proof (induction cs arbitrary: a ks keys)
  case (Cons c cs)
  {
    case 1
    from 1(2) obtain key a1 keys1 where w: "wait_for_next_task c a = Inr (key, a1)"
      and ws: "wait_all cs a1 = Inr (keys1, a')" and keys: "keys = (case key of None \<Rightarrow> keys1 | Some k \<Rightarrow> k # keys1)"
      by (auto split: sum.splits prod.splits)
    show ?case
    proof (cases key)
      case None
      with wait_steps(1) [OF 1(1) w] have "journal_at run_id a1 ks (length ks)" by simp
      from Cons.IH(1) [OF this ws] None keys show ?thesis by simp
    next
      case (Some k)
      with wait_steps(1) [OF 1(1) w] have "journal_at run_id a1 (ks @ [k]) (length (ks @ [k]))" by simp
      from Cons.IH(1) [OF this ws] Some keys show ?thesis by simp
    qed
  next
    case 2
    from 2(3) obtain key a1 keys1 where w: "wait_for_next_task c a = Inr (key, a1)"
      and ws: "wait_all cs a1 = Inr (keys1, a')"
      by (auto split: sum.splits prod.splits)
    have "\<exists>ks1. journal_at run_id a1 ks1 (length ks1)"
      using wait_steps(1) [OF 2(2) w] by (cases key) (auto intro: exI [of _ "ks @ [_]"])
    then obtain ks1 where "journal_at run_id a1 ks1 (length ks1)" by blast
    from Cons.IH(2) [OF 2(1) this ws] wait_steps(2) [OF 2(2) w 2(1)] show ?case by simp
  }
qed auto

text \<open>A process that recovers: the waits report the journal, entry by entry.\<close>

definition offers :: "string \<Rightarrow> task_wait \<Rightarrow> bool" where
  "offers key c \<longleftrightarrow> find_by_key (call_tasks c) key \<noteq> None \<and> tw_target c = TargetDone"

lemma wait_all_replays:
  assumes "journal_at run_id a (done_keys @ ks) (length done_keys)" and "list_all2 offers ks cs"
  shows "\<exists>a'. wait_all cs a = Inr (ks, a') \<and> ad_db a' = ad_db a \<and>
     journal_at run_id a' (done_keys @ ks) (length (done_keys @ ks))"
  using assms
proof (induction cs arbitrary: a ks done_keys)
  case (Cons c cs)
  then obtain k ks1 where ks: "ks = k # ks1" and k: "offers k c" and rest: "list_all2 offers ks1 cs"
    by (auto simp: list_all2_Cons2)
  obtain a1 where w: "wait_for_next_task c a = Inr (Some k, a1)"
    and a1: "journal_at run_id a1 (done_keys @ ks) (Suc (length done_keys))" "ad_db a1 = ad_db a"
    using wait_replays [OF Cons.prems(1), of c] k by (auto simp: ks offers_def nth_append)
  then have "journal_at run_id a1 ((done_keys @ [k]) @ ks1) (length (done_keys @ [k]))" by (simp add: ks)
  from Cons.IH [OF this rest] obtain a' where "wait_all cs a1 = Inr (ks1, a')" "ad_db a' = ad_db a1"
    "journal_at run_id a' (done_keys @ ks) (length (done_keys @ ks))"
    by (auto simp: ks)
  with w a1(2) show ?case by (simp add: ks)
qed simp

lemma journal_at_end: "journal_at run_id a ks (length ks) \<Longrightarrow> \<not> journal_is_replaying (ad_journal a)"
  by (auto simp: journal_at_def journal_is_replaying_def)

end
