(* ===== verification/Idle_Release.thy ===== *)
theory Idle_Release
  imports Persistence Lifecycle Task_Journal
begin

text \<open>
  Release and resumption of idle runs in the durable runtime (\<open>llama_agents/dbos/idle_release.py\<close>),
  which composes the lifecycle lock, the task journal, the tick store and the replay of ticks.

  Other replicas work on the lifecycle table between any two operations of this one: what they do is
  given as lists of table operations. The DBOS library is not modelled: a run handed to it is recorded
  in \<open>rw_started\<close>, a tick sent to a live run in \<open>rw_sent\<close>. The hand-over of the state store is left out.
\<close>

record resume_world =
  rw_lifecycle :: lifecycle_table
  rw_journal :: journal_db
  rw_store :: memory_store
  rw_started :: "(string \<times> broker_state) list"
  rw_sent :: "(string \<times> tick) list"

text \<open>Clock readings and what other replicas do in between.\<close>

record resume_timing =
  rt_before_refresh :: "lifecycle_op list"
  rt_refresh :: real
  rt_before_purge :: "lifecycle_op list"
  rt_purge :: real
  rt_before_complete :: "lifecycle_op list"
  rt_complete :: real
  rt_update :: real
  rt_replay :: "nat \<Rightarrow> real"
  rt_pending_rewind :: real
  rt_pending :: real

definition meanwhile :: "lifecycle_op list \<Rightarrow> resume_world \<Rightarrow> resume_world" where
  "meanwhile ops w = w\<lparr>rw_lifecycle := fold lifecycle_step ops (rw_lifecycle w)\<rparr>"

section \<open>Release\<close>

text \<open>\<open>_release_idle_handler\<close>: only the replica that moves the run to \<open>releasing\<close> sends the release.\<close>

definition release_idle_handler :: "string \<Rightarrow> real \<Rightarrow> resume_world \<Rightarrow> resume_world" where
  "release_idle_handler run_id now w =
    (let (won, tbl) = begin_release run_id now (rw_lifecycle w)
     in if won then w\<lparr>rw_lifecycle := tbl, rw_sent := rw_sent w @ [(run_id, TickIdleRelease)]\<rparr> else w)"

text \<open>\<open>_await_and_mark_released\<close>, after the released run has returned.\<close>

definition mark_released :: "string \<Rightarrow> real \<Rightarrow> real \<Rightarrow> resume_world \<Rightarrow> resume_world" where
  "mark_released run_id now idle_since w =
    (let (won, tbl) = complete_release run_id now (rw_lifecycle w)
     in if won then w\<lparr>rw_lifecycle := tbl,
          rw_store := update_handler_status run_id (Some Running) None None (Some (Some idle_since)) idle_since (rw_store w)\<rparr>
        else w)"

section \<open>Resumption\<close>

text \<open>The state a run is resumed with: its stored ticks, then the tick that woke it up.\<close>

definition resumed_state ::
  "(json \<Rightarrow> tick res) \<Rightarrow> resume_timing \<Rightarrow> string \<Rightarrow> broker_state \<Rightarrow> json list \<Rightarrow> tick option \<Rightarrow> broker_state res"
where
  "resumed_state load tm run_id base ticks pending_tick =
    (case replay_stored load (rt_replay tm) 1 ticks (fst (rewind_in_progress base (rt_replay tm 0))) (Some run_id) None of
       Inl e \<Rightarrow> Inl e
     | Inr (init_state, _) \<Rightarrow> (case pending_tick of
         None \<Rightarrow> Inr init_state
       | Some t \<Rightarrow> rebuild_state_from_ticks init_state (rt_pending_rewind tm) [(t, rt_pending tm)] (Some run_id)))"

definition do_resume ::
  "(json \<Rightarrow> tick res) \<Rightarrow> (string, broker_state) dict \<Rightarrow> resume_timing \<Rightarrow> string \<Rightarrow> resume_claim \<Rightarrow>
   tick option \<Rightarrow> resume_world \<Rightarrow> (bool \<times> resume_world) res"
where
  "do_resume load workflows tm run_id claim pending_tick w0 =
    (let w1 = meanwhile (rt_before_refresh tm) w0;
         (owner1, tbl1) = refresh_resume_owner run_id (rc_version claim) (rt_refresh tm) (rw_lifecycle w1)
     in case owner1 of
          None \<Rightarrow> Inr (False, w1)
        | Some claim1 \<Rightarrow>
            (let w2 = w1\<lparr>rw_lifecycle := tbl1\<rparr>
             in case store_query (all_handlers\<lparr>q_run_id_in := Some [run_id]\<rparr>) (rw_store w2) of
                  [handler] \<Rightarrow> (case dget workflows (ph_workflow_name handler) of
                      None \<Rightarrow> Inl (ValueError ''Workflow not found'')
                    | Some base \<Rightarrow>
                       (case resumed_state load tm run_id base (map st_tick_data (get_ticks run_id (rw_store w2))) pending_tick of
                          Inl e \<Rightarrow> Inl e
                        | Inr init_state \<Rightarrow>
                           (let w3 = meanwhile (rt_before_purge tm) w2;
                                (owner2, tbl2) = refresh_resume_owner run_id (rc_version claim1) (rt_purge tm) (rw_lifecycle w3)
                            in case owner2 of
                                 None \<Rightarrow> Inr (False, w3)
                               | Some claim2 \<Rightarrow>
                                  (let w4 = meanwhile (rt_before_complete tm)
                                         (w3\<lparr>rw_lifecycle := tbl2, rw_journal := crud_delete run_id (rw_journal w3),
                                             rw_started := rw_started w3 @ [(run_id, init_state)]\<rparr>);
                                       (done, tbl3) = complete_resume run_id (rc_version claim2) (rt_complete tm) (rw_lifecycle w4)
                                   in if done
                                      then Inr (True, w4\<lparr>rw_lifecycle := tbl3,
                                          rw_store := store_update (handler\<lparr>ph_status := Running,
                                             ph_updated_at := Some (rt_update tm), ph_idle_since := None\<rparr>) (rw_store w4)\<rparr>)
                                      else Inr (False, w4)))))
                | _ \<Rightarrow> Inl (ValueError ''Expected 1 handler'')))"

text \<open>The crash timeout of \<open>send_event\<close>.\<close>

definition CRASH_TIMEOUT_SECONDS :: real where
  "CRASH_TIMEOUT_SECONDS = 120"

text \<open>
  One turn of the loop of \<open>send_event\<close>: the result says whether the tick has been delivered. Each turn
  has its own clock readings.
\<close>

record send_turn =
  sd_others :: "lifecycle_op list"
  sd_checked :: real
  sd_now :: real
  sd_timing :: resume_timing

definition send_once ::
  "(json \<Rightarrow> tick res) \<Rightarrow> (string, broker_state) dict \<Rightarrow> string \<Rightarrow> tick \<Rightarrow> send_turn \<Rightarrow> resume_world \<Rightarrow>
   (bool \<times> resume_world) res"
where
  "send_once load workflows run_id t turn w0 =
    (let w = meanwhile (sd_others turn) w0;
         (result, tbl) = try_begin_resume run_id (Some CRASH_TIMEOUT_SECONDS) (sd_checked turn) (sd_now turn) (rw_lifecycle w)
     in case result of
          SendNormally \<Rightarrow> Inr (True, w\<lparr>rw_sent := rw_sent w @ [(run_id, t)]\<rparr>)
        | Claimed claim \<Rightarrow> do_resume load workflows (sd_timing turn) run_id claim (Some t) (w\<lparr>rw_lifecycle := tbl\<rparr>)
        | InProgress _ \<Rightarrow> Inr (False, w))"

text \<open>The loop; \<open>Inr (False, w)\<close> is a sender that is still waiting after the given turns.\<close>

fun send_event ::
  "(json \<Rightarrow> tick res) \<Rightarrow> (string, broker_state) dict \<Rightarrow> string \<Rightarrow> tick \<Rightarrow> send_turn list \<Rightarrow> resume_world \<Rightarrow>
   (bool \<times> resume_world) res"
where
  "send_event load workflows run_id t [] w = Inr (False, w)"
| "send_event load workflows run_id t (turn # turns) w =
    (case send_once load workflows run_id t turn w of
       Inl e \<Rightarrow> Inl e
     | Inr (delivered, w') \<Rightarrow> if delivered then Inr (True, w') else send_event load workflows run_id t turns w')"

section \<open>Ownership of a resumption\<close>

lemma meanwhile_simps [simp]:
  "rw_journal (meanwhile ops w) = rw_journal w" "rw_store (meanwhile ops w) = rw_store w"
  "rw_started (meanwhile ops w) = rw_started w" "rw_sent (meanwhile ops w) = rw_sent w"
  "rw_lifecycle (meanwhile ops w) = fold lifecycle_step ops (rw_lifecycle w)"
  by (simp_all add: meanwhile_def)

lemma refresh_owner:
  assumes "refresh_resume_owner r v now tbl = (Some c, tbl')"
  shows "\<exists>row. dget tbl r = Some row \<and> lr_state row = Resuming \<and> lr_updated_at row = v"
    and "rc_version c = now" and "dget tbl' r = Some \<lparr>lr_state = Resuming, lr_updated_at = now\<rparr>"
proof -
  from assms obtain row where row: "dget tbl r = Some row" "lr_state row = Resuming" "lr_updated_at row = v"
    and c: "c = \<lparr>rc_version = now, rc_previous_state = Resuming\<rparr>" and "tbl' = dset r (row\<lparr>lr_updated_at := now\<rparr>) tbl"
    by (auto simp: refresh_resume_owner_def split: option.splits if_splits)
  then show "\<exists>row. dget tbl r = Some row \<and> lr_state row = Resuming \<and> lr_updated_at row = v"
    "rc_version c = now" "dget tbl' r = Some \<lparr>lr_state = Resuming, lr_updated_at = now\<rparr>"
    by simp_all
qed

lemma try_begin_resume_claims:
  assumes "try_begin_resume r ct checked now tbl = (Claimed c, tbl')"
  shows "rc_version c = now" and "dget tbl' r = Some \<lparr>lr_state = Resuming, lr_updated_at = now\<rparr>"
  using assms by (auto simp: try_begin_resume_def Let_def split: option.splits if_splits)

text \<open>While the row is to carry the version \<open>v\<close> again, nobody has written it.\<close>

definition undisturbed :: "string \<Rightarrow> real \<Rightarrow> lifecycle_op list \<Rightarrow> lifecycle_table \<Rightarrow> bool" where
  "undisturbed r v ops tbl \<longleftrightarrow> (\<forall>i \<le> length ops. dget (fold lifecycle_step (take i ops) tbl) r =
     Some \<lparr>lr_state = Resuming, lr_updated_at = v\<rparr>)"

lemma refresh_undisturbed:
  assumes "dget tbl r = Some \<lparr>lr_state = Resuming, lr_updated_at = v\<rparr>" and "list_all (\<lambda>op. v < op_time op) ops"
    and "refresh_resume_owner r v now (fold lifecycle_step ops tbl) = (Some c, tbl')"
  shows "undisturbed r v ops tbl"
proof -
  obtain row where "dget (fold lifecycle_step ops tbl) r = Some row" "lr_updated_at row = v"
    using refresh_owner(1) [OF assms(3)] by blast
  from owner_undisturbed [OF assms(2,1) _ this] show ?thesis by (simp add: undisturbed_def)
qed

text \<open>A resumption that hands a run to the runtime went through all of its stages.\<close>

lemma do_resume_started:
  assumes "do_resume load workflows tm r claim pending w = Inr (b, w')" and "rw_started w' \<noteq> rw_started w"
  obtains c1 tbl1 h base s c2 tbl2 where
    "refresh_resume_owner r (rc_version claim) (rt_refresh tm) (fold lifecycle_step (rt_before_refresh tm) (rw_lifecycle w)) = (Some c1, tbl1)"
    "store_query (all_handlers\<lparr>q_run_id_in := Some [r]\<rparr>) (rw_store w) = [h]"
    "dget workflows (ph_workflow_name h) = Some base"
    "resumed_state load tm r base (map st_tick_data (get_ticks r (rw_store w))) pending = Inr s"
    "refresh_resume_owner r (rc_version c1) (rt_purge tm) (fold lifecycle_step (rt_before_purge tm) tbl1) = (Some c2, tbl2)"
    "rw_started w' = rw_started w @ [(r, s)]" "rw_journal w' = crud_delete r (rw_journal w)"
    "rw_sent w' = rw_sent w"
    "rw_store w' = (if b then store_update (h\<lparr>ph_status := Running, ph_updated_at := Some (rt_update tm),
        ph_idle_since := None\<rparr>) (rw_store w) else rw_store w)"
  using assms
  by (auto simp: do_resume_def Let_def split: prod.splits option.splits list.splits sum.splits if_splits)

lemma complete_resume_row:
  "complete_resume r v now tbl = (True, tbl') \<Longrightarrow> dget tbl' r = Some \<lparr>lr_state = Active, lr_updated_at = now\<rparr>"
  by (auto simp: complete_resume_def split: option.splits if_splits)

lemma do_resume_completed:
  assumes "do_resume load workflows tm r claim pending w = Inr (True, w')"
  shows "dget (rw_lifecycle w') r = Some \<lparr>lr_state = Active, lr_updated_at = rt_complete tm\<rparr>"
    and "rw_started w' \<noteq> rw_started w"
  using assms
  by (auto simp: do_resume_def Let_def complete_resume_row
      split: prod.splits option.splits list.splits sum.splits if_splits)

text \<open>A tick is sent to a live run or woven into the state of a resumed one, never both.\<close>

lemma do_resume_sends_nothing:
  "do_resume load workflows tm r claim pending w = Inr (b, w') \<Longrightarrow> rw_sent w' = rw_sent w"
  by (auto simp: do_resume_def Let_def split: prod.splits option.splits list.splits sum.splits if_splits)

lemma send_once_delivers:
  assumes "send_once load workflows r t turn w = Inr (True, w')"
  shows "(rw_sent w' = rw_sent w @ [(r, t)] \<and> rw_started w' = rw_started w) \<or>
    (rw_sent w' = rw_sent w \<and> (\<exists>s. rw_started w' = rw_started w @ [(r, s)]))"
proof (cases "try_begin_resume r (Some CRASH_TIMEOUT_SECONDS) (sd_checked turn) (sd_now turn) (rw_lifecycle (meanwhile (sd_others turn) w))")
  case (Pair result tbl)
  show ?thesis
  proof (cases result)
    case SendNormally
    with assms Pair show ?thesis by (auto simp: send_once_def Let_def)
  next
    case (Claimed c)
    with assms Pair have d: "do_resume load workflows (sd_timing turn) r c (Some t)
        ((meanwhile (sd_others turn) w)\<lparr>rw_lifecycle := tbl\<rparr>) = Inr (True, w')"
      by (simp add: send_once_def Let_def)
    from do_resume_completed(2) [OF d] show ?thesis
      by (cases rule: do_resume_started [OF d]) auto
  next
    case (InProgress s)
    with assms Pair show ?thesis by (simp add: send_once_def Let_def)
  qed
qed

section \<open>The tick that resumes a run\<close>

text \<open>
  The tick that wakes a run up is woven into its state but not appended to its tick log: a resumption
  leaves the stored ticks as they were.
\<close>

lemma store_update_running_ticks:
  "\<not> is_terminal_status (ph_status h) \<Longrightarrow> ms_ticks (store_update h st) = ms_ticks st"
  by (simp add: store_update_def Let_def)

lemma resume_stores_no_tick:
  assumes "do_resume load workflows tm r claim pending w = Inr (b, w')"
  shows "get_ticks n (rw_store w') = get_ticks n (rw_store w)"
  using assms
  by (auto simp: do_resume_def Let_def get_ticks_def store_update_running_ticks is_terminal_status_def
      TERMINAL_STATUSES_def split: prod.splits option.splits list.splits sum.splits if_splits)

text \<open>
  The report of the execution that tick started is stored. Rebuilding the run from its log then
  raises, because the state without the tick has no such execution.
\<close>

lemma missing_execution_raises:
  assumes "dget (workers s) (root_step_key (sr_step_id report)) = Some w"
    and "list_all (\<lambda>ip. ip_worker_id ip \<noteq> sr_worker_id report) (ws_in_progress w)"
  shows "reduce_tick (TickStepResult report) s now run_id = Inl (ValueError ''Worker not found in in_progress'')"
proof -
  have "find (\<lambda>x. ip_worker_id x = sr_worker_id report) (map in_progress_deepcopy (ws_in_progress w)) = None"
    using assms(2) by (auto simp: find_None_iff list_all_iff)
  then have "find_in_progress (worker_deepcopy w) (sr_worker_id report) = Inl (ValueError ''Worker not found in in_progress'')"
    by (simp add: find_in_progress_def worker_deepcopy_def)
  with assms(1) show ?thesis by (simp add: process_step_result_tick_def)
qed

lemma replay_stored_append:
  "replay_stored load clk i (xs @ ys) s run_id e = (case replay_stored load clk i xs s run_id e of
      Inl err \<Rightarrow> Inl err
    | Inr (s', e') \<Rightarrow> replay_stored load clk (i + length xs) ys s' run_id e')"
  by (induction xs arbitrary: i s e) (auto split: sum.split)

lemma unstored_tick_breaks_resume:
  assumes "replay_stored load (rt_replay tm) 1 ticks (fst (rewind_in_progress base (rt_replay tm 0))) (Some r) None = Inr (s, e)"
    and "dget (workers s) (root_step_key (sr_step_id report)) = Some w"
    and "list_all (\<lambda>ip. ip_worker_id ip \<noteq> sr_worker_id report) (ws_in_progress w)"
    and "load d = Inr (TickStepResult report)"
  shows "resumed_state load tm r base (ticks @ d # later) pending = Inl (ValueError ''Worker not found in in_progress'')"
  using assms(1,4) missing_execution_raises [OF assms(2,3)]
  by (simp add: resumed_state_def replay_stored_append)

end
