(* ===== verification/Serialization_Example.thy ===== *)
theory Serialization_Example
  imports Serialization Example
begin

text \<open>
  A running state of the example workflow as it would be stored, with one item queued for a retry,
  one running and one suspended in \<open>wait_for_event\<close>, and a serializer for its events.
\<close>

definition example_codec :: codec where
  "example_codec = \<lparr>serialize = (\<lambda>e. case e of Event i t fs \<Rightarrow> nat_to_string i | _ \<Rightarrow> ''?''),
     deserialize = (\<lambda>x. Inr (example_item (string_to_nat x))),
     import_attr = (\<lambda>m n. if m = ''app'' then Inr (app_event n) else Inl (ValueError m))\<rparr>"

definition example_attempt :: "nat \<Rightarrow> event_attempt" where
  "example_attempt i = \<lparr>ea_event = example_item i, ea_bound_events = None, ea_attempts = None,
     ea_first_attempt_at = None, ea_last_exception = None, ea_last_failed_at = None,
     ea_recovery_counts = [], ea_not_before = Some 9, ea_scope_path = [], ea_payload = None,
     ea_work_item_id = None\<rparr>"

definition example_waiter :: waiter where
  "example_waiter = \<lparr>w_waiter_id = ''answer'', w_event = example_item 2,
     w_waiting_for_event = app_event ''Item'', w_requirements = [(''user'', PStr ''a'')],
     w_has_requirements = True, w_resolved_event = None, w_bound_events = None, w_timed_out = False,
     w_scope_path = [], w_payload = None, w_work_item_id = None\<rparr>"

definition example_stored_pool :: worker_state where
  "example_stored_pool =
     (let w = blank_worker ((example_step [app_event ''Item''] 2)\<lparr>retry_policy := Some example_retry\<rparr>)
      in w\<lparr>ws_queue := [example_attempt 3],
           ws_in_progress := [start_attempt ''work'' (example_attempt 1) w 4],
           ws_collected_waiters := [example_waiter]\<rparr>)"

definition example_stored :: broker_state where
  "example_stored = example_initial\<lparr>is_running := True, work_item_seq := 3,
     workers := dset ''work'' example_stored_pool (workers example_initial)\<rparr>"

lemma example_stored_ok:
  "state_ok example_stored" "waiters_bound example_stored" "codec_ok example_codec example_stored"
  "list_all (\<lambda>(n, w). triggers_agree w) (workers example_stored)"
  by code_simp+

lemma example_stored_config:
  "config example_stored = config (from_workflow (map (\<lambda>(n, w). (n, ws_config w)) (workers example_stored))
     None [] [] [(''b'', example_binding)])"
  by (simp add: example_stored_def example_initial_def from_workflow_def example_stored_pool_def blank_worker_def
      Let_def)

text \<open>A payload of the legacy format.\<close>

definition example_legacy :: context_v0 where
  "example_legacy = \<lparr>v0_state = [], v0_streaming_queue = [],
     v0_queues = [(''work'', [''2'', ''3'']), (''answer'', [''4''])], v0_event_buffers = [],
     v0_in_progress = [(''work'', [''1''])], v0_accepted_events = [], v0_broker_log = [],
     v0_is_running = True, v0_waiting_ids = [''answer'']\<rparr>"

definition example_legacy_payload :: raw_context where
  "example_legacy_payload = \<lparr>raw_version = None, raw_workers = [], raw_rest = []\<rparr>"

end
