(* ===== verification/Server_Example.thy ===== *)
theory Server_Example
  imports Idle_Release Serialization_Example
begin

text \<open>
  A server with one run of the example workflow: its handler, its stored tick, its lifecycle row, and
  the waits of two processes that execute it.
\<close>

definition example_handler :: persistent_handler where
  "example_handler = \<lparr>ph_handler_id = ''h'', ph_workflow_name = ''wf'', ph_status = Running,
     ph_run_id = Some ''run'', ph_error = None, ph_result = None, ph_started_at = Some 1,
     ph_updated_at = None, ph_completed_at = None, ph_idle_since = None\<rparr>"

definition example_store :: memory_store where
  "example_store = (case mk_memory_store (Some 1) of Inr st \<Rightarrow> st | Inl _ \<Rightarrow> undefined)"

definition example_envelope :: "string \<Rightarrow> event_envelope" where
  "example_envelope n = \<lparr>ee_value = JNull, ee_qualified_name = None, ee_type = n, ee_types = None\<rparr>"

definition example_log :: "nat \<Rightarrow> memory_store" where
  "example_log n = fold apply_op (take n
     [OpUpdate example_handler, OpEvent ''run'' (example_envelope ''Item'') 1,
      OpEvent ''run'' (example_envelope ''Done'') 2, OpEvent ''run'' (example_envelope ''StopEvent'') 3,
      OpEvent ''run'' (example_envelope ''Late'') 4]) example_store"

lemma example_store_new: "mk_memory_store (Some 1) = Inr example_store"
  by (simp add: example_store_def mk_memory_store_def Let_def)

lemma example_log_grows: "growing ''run'' [example_log 2, example_log 4, example_log 5]"
  by code_simp

lemma example_log_length: "length (dget_or (ms_events (example_log 2)) ''run'' []) = 1"
  by code_simp

lemma example_log_events:
  "map (ee_type \<circ> se_event) (query_events ''run'' (Some 0) None (example_log 5)) = [''Done'', ''StopEvent'', ''Late'']"
  by code_simp

section \<open>Two processes\<close>

definition example_tasks :: "named_task list" where
  "example_tasks = [WorkerTask (StepId_root ''work'') 0 1, PullTask 0 2]"

definition example_wait :: "nat \<Rightarrow> task_wait" where
  "example_wait t = \<lparr>tw_running = example_tasks, tw_pending = [], tw_function_id = 0, tw_target = TargetDone,
     tw_first = Some t\<rparr>"

definition example_db :: journal_db where
  "example_db = \<lparr>db_rows = [\<lparr>jr_run_id = ''other'', jr_seq_num = 0, jr_task_key = ''x:0''\<rparr>], db_operations = []\<rparr>"

lemma example_first_process:
  "\<exists>a. wait_all [example_wait 2, example_wait 1] (new_adapter ''run'' example_db) = Inr ([''__pull__:0'', ''work:0''], a)"
proof -
  have "case wait_all [example_wait 2, example_wait 1] (new_adapter ''run'' example_db) of
      Inr (ks, a) \<Rightarrow> ks = [''__pull__:0'', ''work:0''] | Inl e \<Rightarrow> False"
    by code_simp
  then show ?thesis by (auto split: sum.splits prod.splits)
qed

lemma example_offers: "list_all2 offers [''__pull__:0'', ''work:0''] [example_wait 1, example_wait 2]"
  by code_simp

section \<open>A released run\<close>

definition example_world :: resume_world where
  "example_world = \<lparr>rw_lifecycle = [(''run'', \<lparr>lr_state = Resuming, lr_updated_at = 10\<rparr>)], rw_journal = example_db,
     rw_store = store_update example_handler example_store, rw_started = [], rw_sent = []\<rparr>"

definition example_timing :: resume_timing where
  "example_timing = \<lparr>rt_before_refresh = [LcTryResume ''run'' (Some 120) 11 11], rt_refresh = 12,
     rt_before_purge = [LcCreate ''other'' 13], rt_purge = 14, rt_before_complete = [], rt_complete = 15,
     rt_update = 16, rt_replay = (\<lambda>_. 12), rt_pending_rewind = 12, rt_pending = 12\<rparr>"

definition example_load :: "json \<Rightarrow> tick res" where
  "example_load d = Inr (add_item 1)"

lemma example_claimed:
  "try_begin_resume ''run'' None 9 10 [(''run'', \<lparr>lr_state = Released, lr_updated_at = 5\<rparr>)] =
     (Claimed \<lparr>rc_version = 10, rc_previous_state = Released\<rparr>, rw_lifecycle example_world)"
  by (simp add: try_begin_resume_def example_world_def)

lemma example_resume:
  "\<exists>w'. do_resume example_load [(''wf'', example_initial)] example_timing ''run''
      \<lparr>rc_version = 10, rc_previous_state = Released\<rparr> (Some (add_item 1)) example_world = Inr (True, w') \<and>
    rw_started w' \<noteq> rw_started example_world"
proof -
  have "case do_resume example_load [(''wf'', example_initial)] example_timing ''run''
      \<lparr>rc_version = 10, rc_previous_state = Released\<rparr> (Some (add_item 1)) example_world of
      Inr (b, w') \<Rightarrow> b | Inl e \<Rightarrow> False"
    by code_simp
  then obtain w' where "do_resume example_load [(''wf'', example_initial)] example_timing ''run''
      \<lparr>rc_version = 10, rc_previous_state = Released\<rparr> (Some (add_item 1)) example_world = Inr (True, w')"
    by (auto split: sum.splits prod.splits)
  with do_resume_completed(2) [OF this] show ?thesis by blast
qed

section \<open>A restarted server\<close>

definition example_replay_env :: replay_env where
  "example_replay_env = \<lparr>re_codec = example_codec, re_validate = (\<lambda>_. Inl (ValueError [])),
     re_validate_v0 = (\<lambda>_. Inl (ValueError [])), re_load_tick = example_load, re_clock = (\<lambda>_. 7)\<rparr>"

definition example_restart :: restart_env where
  "example_restart = \<lparr>rs_replay = example_replay_env, rs_grace = Some 30, rs_started_at = 100,
     rs_workflows = [(''wf'', example_initial)], rs_legacy = (\<lambda>_. None), rs_run = (\<lambda>_ _. None), rs_now = 100\<rparr>"

definition example_server :: server where
  "example_server = \<lparr>sv_store = append_tick ''run'' JNull 2 (store_update example_handler example_store),
     sv_active = [], sv_resumed = []\<rparr>"

definition example_replayed :: broker_state where
  "example_replayed = (case replay_ticks_stream example_initial 7 [(add_item 1, 7)] (Some ''run'') of
      Inr (s, e) \<Rightarrow> s | Inl _ \<Rightarrow> example_initial)"

lemma example_replay:
  "replay_ticks_stream example_initial 7 [(add_item 1, 7)] (Some ''run'') = Inr (example_replayed, None)"
proof -
  have "case replay_ticks_stream example_initial 7 [(add_item 1, 7)] (Some ''run'') of
      Inr (s, e) \<Rightarrow> Option.is_none e | Inl _ \<Rightarrow> False"
    by code_simp
  then show ?thesis by (auto simp: example_replayed_def Option.is_none_def split: sum.splits prod.splits)
qed

lemma example_replayed_ok:
  "codec_ok example_codec example_replayed" "waiters_bound example_replayed"
  "case dget (workers example_replayed) ''work'' of Some w \<Rightarrow> triggers_agree w \<and> ws_in_progress w \<noteq> [] | None \<Rightarrow> False"
  by code_simp+

section \<open>A waking tick\<close>

definition example_reload :: "json \<Rightarrow> tick res" where
  "example_reload d = Inr (TickStepResult example_report)"

lemma example_wakes:
  "\<exists>w'. do_resume example_reload [(''wf'', example_initial)] example_timing ''run''
      \<lparr>rc_version = 10, rc_previous_state = Released\<rparr> (Some (add_item 1)) example_world = Inr (True, w')"
proof -
  have "case do_resume example_reload [(''wf'', example_initial)] example_timing ''run''
      \<lparr>rc_version = 10, rc_previous_state = Released\<rparr> (Some (add_item 1)) example_world of
      Inr (b, w') \<Rightarrow> b | Inl e \<Rightarrow> False"
    by code_simp
  then show ?thesis by (auto split: sum.splits prod.splits)
qed

lemma example_no_ticks: "map st_tick_data (get_ticks ''run'' (rw_store example_world)) = []"
  by code_simp

lemma example_idle_pool:
  "\<exists>p. dget (workers (fst (rewind_in_progress example_initial 12))) ''work'' = Some p \<and> ws_in_progress p = []"
proof -
  have "case dget (workers (fst (rewind_in_progress example_initial 12))) ''work'' of Some p \<Rightarrow> List.null (ws_in_progress p) | None \<Rightarrow> False"
    by code_simp
  then show ?thesis by (auto simp: List.null_iff split: option.splits)
qed

end
