(* ===== verification/Spec2Isabelle.thy ===== *)
theory Spec2Isabelle
  imports Retry_Policy Validation_Facts Runner_Example Server_Example
begin

text \<open>
  A verification of the workflow engine of llama-agents (\<open>packages/llama-index-workflows\<close>) and of the
  parts of the server and of the durable runtime that store, release and resume its runs.

  \<^bold>\<open>The program.\<close> A workflow is a set of steps, Python functions that accept events and return
  events. A run is driven by a control loop: every stimulus is a \<^emph>\<open>tick\<close>, the pure reducer
  \<open>_reduce_tick\<close> maps a broker state and a tick to a new broker state and \<^emph>\<open>commands\<close>, and the
  runner executes the commands, starts workers, arms timers and waits for the next tick. The ticks
  are journaled; a run is resumed by replaying them or from a serialized state.

  \<^bold>\<open>Theories.\<close>
  \<^item> \<open>Prelude\<close>: dictionaries as association lists with a \<open>dictionary\<close> locale, list updates, decimal
    strings.
  \<^item> \<open>Events\<close>: \<open>events.py\<close>, \<open>errors.py\<close>, \<open>_event_matching.py\<close>, \<open>step_id.py\<close>. Classes are values with
    their ancestors, exceptions are values, operations that raise return a sum.
  \<^item> \<open>Broker_State\<close>: the dataclasses of \<open>runtime/types\<close> as records, ticks, results and commands as
    datatypes, \<open>BrokerState.from_workflow\<close> and \<open>rehydrate_with_ticks\<close>.
  \<^item> \<open>Dispatch\<close>, \<open>Streams\<close>, \<open>Step_Result\<close>, \<open>Add_Event\<close>, \<open>Reduce\<close>: \<open>control_loop/reduce.py\<close> and
    \<open>streams.py\<close>, one definition per function. \<open>Hashing\<close> holds SHA-256, from which stream ids and
    retry seeds are derived; its constants are computed from the roots of primes.
  \<^item> \<open>Invariants\<close>, \<open>Outcomes\<close>, \<open>Run_Commands\<close>, \<open>Retry_Timers\<close>: what every tick keeps (locales
    \<open>pool_invariant\<close>, \<open>pool_contract\<close>, \<open>replay_invariant\<close>), what a worker report leads to, that
    run commands start exactly the slots that are newly in use, that delayed attempts have a timer.
  \<^item> \<open>Retry_Policy\<close>: \<open>retry_policy.py\<close>, with the random source as a function argument.
  \<^item> \<open>Graph_Search\<close>, \<open>Stream_Levels\<close>, \<open>Validate\<close>, \<open>Validation_Facts\<close>: \<open>representation/validate.py\<close>
    and \<open>_stream_levels.py\<close>; the searches are total functions and equal to reachability.
  \<^item> \<open>Step_Function\<close>: \<open>step_function.py\<close> and the parts of \<open>internal_context.py\<close> a step body calls. A
    body is a program of context operations that ends in a value or an exception.
  \<^item> \<open>Runner\<close>, \<open>Runner_Facts\<close>, \<open>Runner_Runs\<close>, \<open>Runner_Journal\<close>: \<open>control_loop/runner.py\<close>. A run is a
    list of loop events (which task completed, when); the clock is a function. Draining the tick
    buffer is a partial function and proved to end on every well-formed runner.
  \<^item> \<open>Serialization\<close>: \<open>BrokerState.to_serialized\<close> and \<open>from_serialized\<close>, \<open>context_types.py\<close>. The
    serializer of events and pydantic's validators are arguments.
  \<^item> \<open>Task_Journal\<close>: named tasks and the task journal of the durable runtime (\<open>llama-agents-dbos\<close>),
    \<open>journal/task_journal.py\<close>, \<open>journal/crud.py\<close> and \<open>wait_for_next_task\<close>.
  \<^item> \<open>Lifecycle\<close>: the lifecycle lock (\<open>journal/lifecycle.py\<close>) and the executor leases
    (\<open>executor_lease.py\<close>), every SQL statement an atomic operation on a table.
  \<^item> \<open>Workflow_Store\<close>: the store of \<open>llama-agents-server\<close>, \<open>_store/memory_workflow_store.py\<close> and the
    shared parts of \<open>_store/abstract_workflow_store.py\<close>.
  \<^item> \<open>Persistence\<close>: \<open>_runtime/persistence_runtime.py\<close> and the recording of events in
    \<open>_runtime/server_runtime.py\<close>: rebuilding runs from stored ticks, restarting the server.
  \<^item> \<open>Idle_Release\<close>: \<open>idle_release.py\<close>, which composes the four; what other replicas do between two
    operations is a list of table operations.
  \<^item> \<open>Example\<close>, \<open>Runner_Example\<close>, \<open>Serialization_Example\<close>, \<open>Server_Example\<close>: concrete workflows, runs,
    stored states and servers at which the theorems are instantiated.

  \<^bold>\<open>What the properties show.\<close> C1 to C5: the reducer keeps the state well formed, uses each worker
  slot at most once, starts what it claims to start, leaves no slot idle beside runnable work and
  raises on no acceptable tick. C6 to C10: the running loop waits or has ended by a command, its
  tasks are the executions the state records, delayed retries wake up, its journal replays to its
  state. The following groups treat step executions, resuming and replaying, failures, the queue,
  collection streams, stored contexts, validation and retry policies;
  the group on durable runs and the server shows that a successor process repeats a crashed one, that
  a released run is resumed by one replica only, that a restarted server follows the journals, and
  that the store and its subscriptions keep what they promise.

  \<^bold>\<open>Abstractions and bounds.\<close> Times are reals, counters natural numbers, \<open>open_work_items\<close> an
  integer. Dictionaries keep insertion order. Events carry an identity, so \<open>is\<close> is equality. No
  fuel is used: loops are structural, have a termination proof, or are partial functions with a
  proof that they return. Exception messages are cut to their fixed text.

  \<^bold>\<open>Not modelled.\<close> Python's signature inspection (the decorators, resource injection), pydantic
  validation, logging, tracing, the state store, the asyncio adapters, HTTP, SQL drivers and
  Kubernetes code of the other packages: they perform I/O or reflect on Python objects, and the
  decisions they take reach the modelled code as arguments.
\<close>

section \<open>The reducer: safety\<close>

text \<open>
  C1. Every tick keeps the state well formed: worker ids in use stay distinct and below the step's
  \<open>num_workers\<close>, the steps and the configuration are unchanged, every collection binding still
  targets an existing step.
\<close>

theorem reduce_tick_preserves:
  assumes "state_ok s" and "reduce_tick t s now run_id = Inr (s', cmds)"
  shows "state_ok s' \<and> config s' = config s \<and> dkeys (workers s') = dkeys (workers s)"
proof -
  from assms(1) have "distinct (dkeys (workers s))" by (simp add: state_ok_def)
  from reduce_tick_worker_ok [OF assms(2) this] show ?thesis
    using keeps_state_ok assms(1) by (auto simp: keeps_def)
qed

theorem reduce_tick_preserves_witness:
  "\<exists>s' cmds. reduce_tick (add_item 4) example_busy 4 None = Inr (s', cmds) \<and> state_ok s' \<and>
     config s' = config example_busy \<and> dkeys (workers s') = dkeys (workers example_busy)"
proof -
  have "\<not> isl (reduce_tick (add_item 4) example_busy 4 None)" by code_simp
  then obtain s' cmds where r: "reduce_tick (add_item 4) example_busy 4 None = Inr (s', cmds)"
    by (cases "reduce_tick (add_item 4) example_busy 4 None") auto
  with reduce_tick_preserves [OF example_busy_ok r] show ?thesis by blast
qed



text \<open>
  C3. Every other tick only takes free slots: the slots in use grow by exactly the slots the commands
  start, and each of them is started once.
\<close>

theorem tick_starts_free_slots:
  assumes "state_ok s" and "reduce_tick t s now run_id = Inr (s', cmds)" and "\<And>r. t \<noteq> TickStepResult r"
  shows "slots s \<subseteq> slots s' \<and> set (run_slots cmds) = slots s' - slots s \<and> distinct (run_slots cmds)"
proof -
  from assms(1) have "distinct (dkeys (workers s))" by (simp add: state_ok_def)
  from reduce_tick_emits [OF assms(2) this assms(3)] show ?thesis unfolding emits_def by blast
qed

theorem tick_starts_free_slots_witness:
  "\<exists>s' cmds. reduce_tick (add_item 1) example_initial 1 None = Inr (s', cmds) \<and>
     run_slots cmds = [(''work'', 0)] \<and> set (run_slots cmds) = slots s' - slots example_initial"
proof -
  let ?out = "reduce_tick (add_item 1) example_initial 1 None"
  have c: "case ?out of Inr (s', cmds) \<Rightarrow> run_slots cmds = [(''work'', 0)] | Inl _ \<Rightarrow> False" by code_simp
  then obtain s' cmds where r: "?out = Inr (s', cmds)" by (cases ?out) auto
  have "add_item 1 \<noteq> TickStepResult x" for x by (simp add: add_item_def)
  from tick_starts_free_slots [OF example_initial_ok r this] r c show ?thesis by auto
qed

text \<open>
  C4. No worker idles next to runnable work. If in every pool a free slot implies that no eligible
  attempt waits, then the same holds after every tick that does not end the run.
\<close>

theorem reduce_tick_keeps_busy:
  assumes "state_ok s" and "state_conserving s" and "reduce_tick t s now run_id = Inr (s', cmds)"
    and "\<not> list_ex indicates_exit cmds"
  shows "state_conserving s'"
proof -
  from assms(1) have d: "distinct (dkeys (workers s))" by (simp add: state_ok_def)
  from keeps_state_conserving [OF reduce_tick_work_conserving [OF assms(3) d assms(4)] assms(2) d] show ?thesis .
qed

theorem reduce_tick_keeps_busy_witness:
  "\<exists>s' cmds. reduce_tick (TickStepResult example_report) example_busy 5 None = Inr (s', cmds) \<and> state_conserving s'"
proof -
  let ?out = "reduce_tick (TickStepResult example_report) example_busy 5 None"
  have c: "case ?out of Inr (s', cmds) \<Rightarrow> \<not> list_ex indicates_exit cmds | Inl _ \<Rightarrow> False" by code_simp
  then obtain s' cmds where r: "?out = Inr (s', cmds)" by (cases ?out) auto
  have "state_conserving example_busy" by code_simp
  with reduce_tick_keeps_busy [OF example_busy_ok this r] r c show ?thesis by auto
qed

text \<open>
  C5. The reducer raises on no acceptable tick: a report names a running worker and carries results
  of the kinds the classification knows, a release payload names a binding of the configuration.
\<close>

theorem reduce_tick_never_raises:
  assumes "state_ok s" and "tick_ok s t"
  shows "\<exists>s' cmds. reduce_tick t s now run_id = Inr (s', cmds)"
  using assms by (rule reduce_tick_accepts)

theorem reduce_tick_never_raises_witness:
  "tick_ok example_busy (TickStepResult example_report) \<and>
   (\<exists>s' cmds. reduce_tick (TickStepResult example_report) example_busy 5 None = Inr (s', cmds))"
proof -
  have "tick_ok example_busy (TickStepResult example_report)" by code_simp
  with reduce_tick_never_raises [OF example_busy_ok this] show ?thesis by blast
qed

section \<open>The running loop\<close>









text \<open>
  C10. Scheduled ticks come out exactly when they are due, by time and then in the order in which they were
  scheduled; the others stay.
\<close>

theorem due_ticks_in_order:
  assumes "run steps wn clock run_id timeout ev b init es = Some (r, out)"
  shows "fst (pop_due_ticks now r) = map (\<lambda>x. snd (snd x)) (filter (\<lambda>x. fst x \<le> now) (rn_scheduled_wakeups r)) \<and>
    rn_scheduled_wakeups (snd (pop_due_ticks now r)) = filter (\<lambda>x. now < fst x) (rn_scheduled_wakeups r) \<and>
    sorted_wrt due_before (rn_scheduled_wakeups r)"
proof -
  from run_heap_ok [OF assms] have "sorted_wrt due_before (rn_scheduled_wakeups r)" by (simp add: heap_ok_def)
  with pop_due_spec [OF this, of now] show ?thesis by (simp add: pop_due_ticks_def Let_def)
qed

theorem due_ticks_in_order_witness:
  "\<exists>r. example_run example_delayed [] = Some (r, Going) \<and> sorted_wrt due_before (rn_scheduled_wakeups r)"
proof -
  from example_run_delayed obtain r where r: "example_run example_delayed [] = Some (r, Going)" by blast
  from due_ticks_in_order [OF r [unfolded example_run_def], of 5] r show ?thesis by blast
qed

section \<open>Step functions\<close>

text \<open>
  C11. Whatever a step function does, its invocation reports something the reducer can classify: a list
  of bookkeeping results followed by one outcome, which is a failure, a registered waiter, one result,
  or the members of one fan-out.
\<close>

theorem step_reports_one_outcome:
  assumes "step_worker_function steps wn body n st ev bound rc now = Inr out"
  shows "results_classifiable (co_returns out) \<and>
    (\<exists>new rs. co_returns out = new @ rs \<and> list_all is_bookkeeping new \<and> is_outcome rs)"
  using step_worker_function_outcome [OF assms]
  by (auto simp: results_classifiable_def is_outcome_def list_ex_iff list_all_iff neq_Nil_conv)

theorem step_reports_one_outcome_witness:
  "\<exists>out. step_worker_function example_steps example_names (\<lambda>args. Fail example_exn) ''work''
     \<lparr>ss_step_name = ''work'', ss_collected_events = [], ss_collected_waiters = [], ss_payload = None,
       ss_scope_path = [], ss_work_item_id = None\<rparr>
     (example_item 1) None [] 5 = Inr out \<and> results_classifiable (co_returns out)"
proof -
  let ?out = "step_worker_function example_steps example_names (\<lambda>args. Fail example_exn) ''work''
     \<lparr>ss_step_name = ''work'', ss_collected_events = [], ss_collected_waiters = [], ss_payload = None,
       ss_scope_path = [], ss_work_item_id = None\<rparr>
     (example_item 1) None [] 5"
  have "case ?out of Inr out \<Rightarrow> True | Inl _ \<Rightarrow> False" by code_simp
  then obtain out where "?out = Inr out" by (cases ?out) auto
  with step_reports_one_outcome [OF this] show ?thesis by blast
qed

text \<open>
  C12. \<open>ctx.collect_events\<close> returns a batch exactly when the event at hand is the only one still
  missing; the batch then has one event for each expected type, in the expected order, taken from the
  buffer and the event, and the buffer is deleted. Otherwise it returns nothing and keeps the event if it
  is one of those missing.
\<close>

theorem collect_events_completes_batch:
  assumes "expected \<noteq> []" and "collected = dget_or (ss_collected_events st) (buffer_name b) []"
  shows "case ctx_collect_events st ev expected b out of
      (Some batch, out') \<Rightarrow> remaining_event_types expected collected = {#type_of ev#} \<and>
        map type_of batch = expected \<and> mset batch \<subseteq># mset (collected @ [ev]) \<and>
        co_returns out' = co_returns out @ [DeleteCollectedEvent (buffer_name b)]
    | (None, out') \<Rightarrow> remaining_event_types expected collected \<noteq> {#type_of ev#} \<and>
        co_returns out' = co_returns out @
          (if type_of ev \<in># remaining_event_types expected collected then [AddCollectedEvent (buffer_name b) ev] else [])"
  using assms by (rule ctx_collect_events_spec)

theorem collect_events_completes_batch_witness:
  "map type_of (the (fst (ctx_collect_events \<lparr>ss_step_name = ''join'', ss_collected_events = [(''default'', [example_done 1])],
      ss_collected_waiters = [], ss_payload = None,
       ss_scope_path = [], ss_work_item_id = None\<rparr> (example_item 2) [app_event ''Item'', app_event ''Done''] None
      \<lparr>co_returns = [], co_sent = [], co_written = []\<rparr>))) = [app_event ''Item'', app_event ''Done'']"
proof -
  let ?st = "\<lparr>ss_step_name = ''join'', ss_collected_events = [(''default'', [example_done 1])], ss_collected_waiters = [], ss_payload = None,
       ss_scope_path = [], ss_work_item_id = None\<rparr>"
  let ?a = "ctx_collect_events ?st (example_item 2) [app_event ''Item'', app_event ''Done''] None \<lparr>co_returns = [], co_sent = [], co_written = []\<rparr>"
  have "remaining_event_types [app_event ''Item'', app_event ''Done''] [example_done 1] = {#type_of (example_item 2)#}"
    by (simp add: remaining_event_types_def example_done_def example_item_def app_event_def)
  with collect_events_completes_batch [of "[app_event ''Item'', app_event ''Done'']" "[example_done 1]" ?st None "example_item 2"
      "\<lparr>co_returns = [], co_sent = [], co_written = []\<rparr>"]
  show ?thesis by (cases ?a; cases "fst ?a") (auto simp: dget_or_def buffer_name_def)
qed

section \<open>Replay and recovery\<close>

text \<open>
  C13. Rewinding a stored state for a restart loses no work: every pool holds the same work items as
  before, respects its capacity and keeps no runnable item waiting next to a free slot; the commands
  start exactly the slots in use, each once, and re-arm the timer of every delayed item.
\<close>

theorem rewind_resumes_all_work:
  assumes "distinct (dkeys (workers s))" and "dget (workers s) n = Some w"
  shows "\<exists>w'. dget (workers (fst (rewind_in_progress s now))) n = Some w' \<and>
      pool_work w' = pool_work (worker_deepcopy w) \<and> worker_ok w' \<and> work_conserving w' \<and>
      (\<forall>a \<in> set (ws_queue w'). \<forall>t. ea_not_before a = Some t \<longrightarrow>
         CommandScheduleWakeup t \<in> set (snd (rewind_in_progress s now))) \<and>
      set (run_slots (snd (rewind_in_progress s now))) = slots (fst (rewind_in_progress s now)) \<and>
      distinct (run_slots (snd (rewind_in_progress s now)))"
proof -
  let ?w = "fst (rewind_worker now n (worker_deepcopy w))"
  have "dget (sort_key fst (workers (deepcopy s))) n = Some (worker_deepcopy w)"
    using assms by (simp add: map_of_sort_key)
  from cmds_update_workers [OF this]
  have cmds: "set (snd (rewind_worker now n (worker_deepcopy w))) \<subseteq> set (snd (rewind_in_progress s now))"
    by (simp add: rewind_in_progress_def Let_def)
  have "dget (workers (fst (rewind_in_progress s now))) n = Some ?w"
    using assms by (simp add: dget_rewind_in_progress)
  moreover have "CommandScheduleWakeup t \<in> set (snd (rewind_in_progress s now))"
    if "a \<in> set (ws_queue ?w)" "ea_not_before a = Some t" for a t
    using cmds rewind_worker_wakeups [OF that] by blast
  ultimately show ?thesis
    using rewind_restarts [OF assms(1)] by (blast intro: pool_work_rewind worker_ok_rewind work_conserving_rewind)
qed

theorem rewind_resumes_all_work_witness:
  "run_slots (snd (rewind_in_progress example_busy 9)) = [(''work'', 0), (''work'', 1)] \<and>
   slots (fst (rewind_in_progress example_busy 9)) = {(''work'', 0), (''work'', 1)} \<and>
   (\<exists>w w'. dget (workers example_busy) ''work'' = Some w \<and>
      dget (workers (fst (rewind_in_progress example_busy 9))) ''work'' = Some w' \<and>
      pool_work w' = pool_work (worker_deepcopy w))"
proof -
  have d: "distinct (dkeys (workers example_busy))" using example_busy_ok by (simp add: state_ok_def)
  obtain w where w: "dget (workers example_busy) ''work'' = Some w" using example_busy_running by blast
  have "run_slots (snd (rewind_in_progress example_busy 9)) = [(''work'', 0), (''work'', 1)]" by code_simp
  moreover note rewind_resumes_all_work [OF d w, of 9]
  ultimately show ?thesis using w by (metis list.simps(15) list.set(1))
qed


text \<open>
  C15. A state rebuilt from any journal that replays is well formed, whatever the ticks were.
\<close>

theorem rebuilt_state_ok:
  assumes "state_ok s" and "rebuild_state_from_ticks s t0 ticks run_id = Inr s'"
  shows "state_ok s'"
  using assms by (rule replay_ok.rebuild_Inv)

theorem rebuilt_state_ok_witness:
  "\<exists>s'. rebuild_state_from_ticks example_initial 0 [(add_item 1, 1), (TickStepResult example_report, 2)] None = Inr s' \<and>
     state_ok s'"
proof -
  let ?out = "rebuild_state_from_ticks example_initial 0 [(add_item 1, 1), (TickStepResult example_report, 2)] None"
  have "\<not> isl ?out" by code_simp
  then obtain s' where r: "?out = Inr s'" by (cases ?out) auto
  with rebuilt_state_ok [OF example_initial_ok r] show ?thesis by blast
qed

section \<open>Failing and finishing steps\<close>

text \<open>
  C16. A failed execution whose retry policy grants a delay is queued again, with its attempt counter
  raised and nothing else in its pool lost; a positive delay defers it and arms a timer. The run goes
  on.
\<close>

theorem failed_step_is_retried:
  assumes "dget (workers s) (root_step_key sid) = Some w"
    and "find_in_progress (worker_deepcopy w) wid = Inr e"
  shows "\<exists>s' cmds w'.
    process_step_result_tick (failed_tick sid wid ev exc failed_at (Some delay) first_at) s now run_id = Inr (s', cmds) \<and>
    dget (workers s') (root_step_key sid) = Some w' \<and>
    add_mset (work_of_execution e) (pool_work w') =
      add_mset (work_of_execution e \<lparr>wk_attempts := ip_attempts e + 1, wk_last_exception := Some exc,
        wk_last_failed_at := Some failed_at\<rparr>) (pool_work (worker_deepcopy w)) \<and>
    (0 < delay \<longrightarrow> CommandScheduleWakeup (failed_at + delay) \<in> set cmds \<and>
       (\<exists>a \<in> set (ws_queue w'). ea_not_before a = Some (failed_at + delay) \<and> ea_event a = ip_event e \<and>
          ea_attempts a = Some (ip_attempts e + 1))) \<and>
    is_running s' = is_running s \<and> streams s' = streams s \<and> \<not> list_ex indicates_exit cmds"
  by (rule failed_retry [OF assms, where ev = ev and exc = exc and failed_at = failed_at and first_at = first_at and now = now and run_id = run_id and delay = delay]) blast

theorem failed_step_is_retried_witness:
  "\<exists>w e s' cmds. dget (workers example_busy) ''work'' = Some w \<and> find_in_progress (worker_deepcopy w) 0 = Inr e \<and>
     process_step_result_tick (failed_tick (StepId_root ''work'') 0 (example_item 1) example_exn 5 (Some 2) None)
       example_busy 5 None = Inr (s', cmds) \<and> CommandScheduleWakeup 7 \<in> set cmds"
proof -
  obtain w e where w: "dget (workers example_busy) (root_step_key (StepId_root ''work'')) = Some w"
    "find_in_progress (worker_deepcopy w) 0 = Inr e" using example_busy_running by auto
  from failed_step_is_retried [OF w, of "example_item 1" example_exn 5 2 None 5 None] w show ?thesis by auto
qed

text \<open>
  C17. A failed execution without a retry whose step is covered by a catch-error handler with budget
  left leaves its pool and reaches the handler as a \<open>StepFailedEvent\<close> in the same scope, with the
  handler's counter raised by one and never above the handler's \<open>max_recoveries\<close>. The run goes on.
\<close>

theorem failed_step_is_routed:
  assumes "dget (workers s) (root_step_key sid) = Some w"
    and "find_in_progress (worker_deepcopy w) wid = Inr e"
    and "catch_error_route (config s) (root_step_key sid) e = Some (handler, k)"
  shows "\<exists>s' cmds w' elapsed.
    process_step_result_tick (failed_tick sid wid ev exc failed_at None first_at) s now run_id = Inr (s', cmds) \<and>
    dget (workers s') (root_step_key sid) = Some w' \<and>
    add_mset (work_of_execution e) (pool_work w') = pool_work (worker_deepcopy w) \<and>
    CommandQueueEvent (StepFailedEvent (root_step_key sid) ev exc (ip_attempts e + 1) elapsed failed_at)
       (Some (StepId_root handler)) (dset handler k (ip_recovery_counts e)) (ip_scope_path e) \<in> set cmds \<and>
    is_running s' = is_running s \<and> \<not> list_ex indicates_exit cmds \<and>
    (\<exists>h hd. dget (bc_handler_for_step (config s)) (root_step_key sid) = Some h \<and>
      dget (bc_catch_error_handlers (config s)) h = Some hd \<and> ceh_step_name hd = handler \<and>
      k = dget_or (ip_recovery_counts e) handler 0 + 1 \<and> k \<le> ceh_max_recoveries hd)"
proof -
  have budget: "\<exists>h hd. dget (bc_handler_for_step (config s)) (root_step_key sid) = Some h \<and>
      dget (bc_catch_error_handlers (config s)) h = Some hd \<and> ceh_step_name hd = handler \<and>
      k = dget_or (ip_recovery_counts e) handler 0 + 1 \<and> k \<le> ceh_max_recoveries hd"
    by (rule catch_error_route_budget [OF assms(3)]) blast
  show ?thesis
    by (rule failed_routed [OF assms, where ev = ev and exc = exc and failed_at = failed_at and first_at = first_at
          and now = now and run_id = run_id]) (use budget in blast)
qed

theorem failed_step_is_routed_witness:
  "\<exists>w e s' cmds elapsed. dget (workers example_guarded) ''work'' = Some w \<and> find_in_progress (worker_deepcopy w) 0 = Inr e \<and>
     process_step_result_tick (failed_tick (StepId_root ''work'') 0 (example_item 1) example_exn 5 None None)
       example_guarded 5 None = Inr (s', cmds) \<and>
     CommandQueueEvent (StepFailedEvent ''work'' (example_item 1) example_exn (ip_attempts e + 1) elapsed 5)
       (Some (StepId_root ''rescue'')) (dset ''rescue'' 1 (ip_recovery_counts e)) (ip_scope_path e) \<in> set cmds"
proof -
  obtain w e where w: "dget (workers example_guarded) (root_step_key (StepId_root ''work'')) = Some w"
    "find_in_progress (worker_deepcopy w) 0 = Inr e"
    "catch_error_route (config example_guarded) (root_step_key (StepId_root ''work'')) e = Some (''rescue'', 1)"
    using example_guarded_running by auto
  from failed_step_is_routed [OF w, of "example_item 1" example_exn 5 None 5 None] w show ?thesis by auto
qed

text \<open>
  C18. A failed execution with neither a retry nor a handler fails the run: the worker's slot is
  reported idle, the failure is published with the step's attempt count, then the run is failed with
  the step's exception, and nothing else happens.
\<close>

theorem failed_step_fails_run:
  assumes "dget (workers s) (root_step_key sid) = Some w"
    and "find_in_progress (worker_deepcopy w) wid = Inr e"
    and "catch_error_route (config s) (root_step_key sid) e = None"
  shows "\<exists>s' elapsed.
    process_step_result_tick (failed_tick sid wid ev exc failed_at None first_at) s now run_id =
      Inr (s', [CommandPublishEvent (StepStateChanged (root_step_key sid) NOT_RUNNING (nat_to_string wid)
                  (str_type (type_of ev)) None),
                CommandPublishEvent (WorkflowFailedEvent (root_step_key sid) exc (Some (ip_attempts e + 1)) (Some elapsed)),
                CommandFailWorkflow sid exc]) \<and>
    \<not> is_running s' \<and> \<not> check_idle_state s'"
  by (rule failed_fatal [OF assms, where ev = ev and exc = exc and failed_at = failed_at and first_at = first_at and now = now and run_id = run_id]) blast

theorem failed_step_fails_run_witness:
  "\<exists>w e s' cmds. dget (workers example_busy) ''work'' = Some w \<and> find_in_progress (worker_deepcopy w) 0 = Inr e \<and>
     process_step_result_tick (failed_tick (StepId_root ''work'') 0 (example_item 1) example_exn 5 None None)
       example_busy 5 None = Inr (s', cmds) \<and> last cmds = CommandFailWorkflow (StepId_root ''work'') example_exn"
proof -
  obtain w e where w: "dget (workers example_busy) (root_step_key (StepId_root ''work'')) = Some w"
    "find_in_progress (worker_deepcopy w) 0 = Inr e" "catch_error_route (config example_busy) (root_step_key (StepId_root ''work'')) e = None"
    using example_busy_running by auto
  from failed_step_fails_run [OF w, of "example_item 1" example_exn 5 None 5 None] w show ?thesis by auto
qed



section \<open>Stored contexts\<close>





section \<open>Durable runs and the server\<close>

text \<open>
  C22. A crashed process is repeated by its successor: whatever tasks a first process completed, in
  whatever order the event loop finished them, a second process that starts from the database alone
  reports the same tasks in the same order, provided it runs them, writes nothing while it does so, and
  is then back in fresh execution; journals of other runs are untouched.
\<close>

theorem recovery_repeats_completions:
  assumes "run_rows run_id db = []"
    and "wait_all cs (new_adapter run_id db) = Inr (keys, a)"
    and "list_all2 offers keys cs'"
  shows "\<exists>a'. wait_all cs' (new_adapter run_id (ad_db a)) = Inr (keys, a') \<and> ad_db a' = ad_db a \<and>
     \<not> journal_is_replaying (ad_journal a') \<and> (\<forall>r. r \<noteq> run_id \<longrightarrow> run_rows r (ad_db a') = run_rows r db)"
proof -
  have "journal_at run_id (new_adapter run_id db) [] (length [])"
    using journal_at_new [of run_id db "[]"] assms(1) by (simp add: recorded_def)
  note first = wait_all_records [OF this assms(2)]
  from first(1) have "recorded run_id (ad_db a) keys" by (simp add: journal_at_def)
  from journal_at_new [OF this] have "journal_at run_id (new_adapter run_id (ad_db a)) ([] @ keys) (length [])" by simp
  from wait_all_replays [OF this assms(3)] obtain a' where a': "wait_all cs' (new_adapter run_id (ad_db a)) = Inr (keys, a')"
    "ad_db a' = ad_db (new_adapter run_id (ad_db a))" "journal_at run_id a' keys (length keys)" by auto
  have "run_rows r (ad_db a) = run_rows r db" if "r \<noteq> run_id" for r
    using first(2) [OF that] by (simp add: new_adapter_def)
  with a' journal_at_end [OF a'(3)] show ?thesis by (simp add: new_adapter_def)
qed

theorem recovery_repeats_completions_witness:
  "\<exists>a a'. wait_all [example_wait 2, example_wait 1] (new_adapter ''run'' example_db) = Inr ([''__pull__:0'', ''work:0''], a) \<and>
     wait_all [example_wait 1, example_wait 2] (new_adapter ''run'' (ad_db a)) = Inr ([''__pull__:0'', ''work:0''], a')"
proof -
  obtain a where a: "wait_all [example_wait 2, example_wait 1] (new_adapter ''run'' example_db) = Inr ([''__pull__:0'', ''work:0''], a)"
    using example_first_process by blast
  have "run_rows ''run'' example_db = []" by (simp add: run_rows_def example_db_def)
  from recovery_repeats_completions [OF this a example_offers] a show ?thesis by blast
qed



text \<open>
  C24. A restarted server follows the journals: a handler whose stored ticks replay is finalized with the
  status of the command that ended its run, if one did, and is started again otherwise. What it is
  started with loads into a state from which a run can start and in which every pool has the work the
  replay left it with.
\<close>

theorem restart_follows_journal:
  assumes "due_for_restart env h" and "dget (rs_workflows env) (ph_workflow_name h) = Some base"
    and "base = from_workflow steps timeout handlers handler_for bindings" and "state_ok base"
    and "ph_run_id h = Some run_id" and "run_id \<notin> set (sv_active sv)" and "rs_legacy env run_id = None"
    and "list_all2 (\<lambda>d t. re_load_tick (rs_replay env) d = Inr t) (map st_tick_data (get_ticks run_id (sv_store sv))) ts"
    and "ts \<noteq> []"
    and "replay_ticks_stream base (re_clock (rs_replay env) 0)
        (zip ts (map (re_clock (rs_replay env)) [1..<1 + length ts])) (Some run_id) = Inr (s, exit_command)"
    and "rs_run env run_id (to_serialized (re_codec (rs_replay env)) s) = None"
  shows "(case Option.bind exit_command handler_status_from_exit_command of
      Some (status, res, err) \<Rightarrow> resume_handler env h sv = mark env run_id status res err sv
    | None \<Rightarrow> resume_handler env h sv = sv\<lparr>sv_active := run_id # sv_active sv,
          sv_resumed := sv_resumed sv @ [(run_id, to_serialized (re_codec (rs_replay env)) s)]\<rparr>) \<and>
    (codec_ok (re_codec (rs_replay env)) s \<and> waiters_bound s \<longrightarrow>
       (\<exists>s'. from_serialized (re_codec (rs_replay env)) (to_serialized (re_codec (rs_replay env)) s) base = Inr s' \<and>
          startable s' \<and>
          (\<forall>n w. dget (workers s) n = Some w \<and> triggers_agree w \<longrightarrow>
             (\<exists>w'. dget (workers s') n = Some w' \<and> pool_work w' = pool_work w))))"
proof (intro conjI impI)
  let ?c = "re_codec (rs_replay env)"
  have ctx: "context_from_ticks (rs_replay env) (rs_legacy env run_id) base run_id (sv_store sv) =
      Inr (Some (to_serialized ?c s, exit_command))"
    using context_from_ticks_replays [OF assms(8,9,10)] assms(7) by simp
  show "case Option.bind exit_command handler_status_from_exit_command of
      Some (status, res, err) \<Rightarrow> resume_handler env h sv = mark env run_id status res err sv
    | None \<Rightarrow> resume_handler env h sv = sv\<lparr>sv_active := run_id # sv_active sv,
          sv_resumed := sv_resumed sv @ [(run_id, to_serialized ?c s)]\<rparr>"
    unfolding resume_handler_replays [OF assms(1,2,5,6) ctx] assms(11)
    by (cases "Option.bind exit_command handler_status_from_exit_command") auto
  assume ok: "codec_ok ?c s \<and> waiters_bound s"
  note loads = rebuilt_context_loads [OF assms(4,3,10) conjunct1 [OF ok] conjunct2 [OF ok]]
  have "\<exists>w'. dget (workers (resumed s)) n = Some w' \<and> pool_work w' = pool_work w"
    if "dget (workers s) n = Some w \<and> triggers_agree w" for n w
    using that pool_work_resumed [of w] by (intro exI [of _ "resumed_worker w"]) (simp add: dget_resumed)
  with loads show "\<exists>s'. from_serialized ?c (to_serialized ?c s) base = Inr s' \<and> startable s' \<and>
      (\<forall>n w. dget (workers s) n = Some w \<and> triggers_agree w \<longrightarrow>
         (\<exists>w'. dget (workers s') n = Some w' \<and> pool_work w' = pool_work w))"
    by (intro exI [of _ "resumed s"] conjI allI impI)
qed

theorem restart_follows_journal_witness:
  "map fst (sv_resumed (resume_handler example_restart example_handler example_server)) = [''run''] \<and>
   (\<exists>s'. from_serialized example_codec (to_serialized example_codec example_replayed) example_initial = Inr s' \<and> startable s')"
proof -
  have due: "due_for_restart example_restart example_handler"
    by (simp add: due_for_restart_def example_restart_def created_within_resume_grace_def example_handler_def)
  have env: "dget (rs_workflows example_restart) (ph_workflow_name example_handler) = Some example_initial"
    "ph_run_id example_handler = Some ''run''" "''run'' \<notin> set (sv_active example_server)" "rs_legacy example_restart ''run'' = None"
    "rs_run example_restart ''run'' (to_serialized (re_codec (rs_replay example_restart)) example_replayed) = None"
    "re_codec (rs_replay example_restart) = example_codec" "sv_resumed example_server = []"
    by (simp_all add: example_restart_def example_handler_def example_server_def example_replay_env_def)
  have ticks: "map st_tick_data (get_ticks ''run'' (sv_store example_server)) = [JNull]" by code_simp
  have load: "list_all2 (\<lambda>d t. re_load_tick (rs_replay example_restart) d = Inr t)
      (map st_tick_data (get_ticks ''run'' (sv_store example_server))) [add_item 1]"
    unfolding ticks by (simp add: example_restart_def example_replay_env_def example_load_def)
  have replay: "replay_ticks_stream example_initial (re_clock (rs_replay example_restart) 0)
      (zip [add_item 1] (map (re_clock (rs_replay example_restart)) [1..<1 + length [add_item 1]])) (Some ''run'') =
      Inr (example_replayed, None)"
    using example_replay by (simp add: example_restart_def example_replay_env_def)
  note r = restart_follows_journal [OF due env(1) example_initial_def example_initial_ok env(2-4) load _ replay env(5), simplified]
  from r example_replayed_ok(1,2) env(6,7) show ?thesis by auto
qed

text \<open>
  C25. The memory store keeps its promises under every sequence of operations: it never holds more
  completed handlers than its cap, and a handler that is still running is not lost, however many other
  runs complete.
\<close>

theorem store_caps_completed:
  assumes "mk_memory_store (Some m) = Inr st0" and "st = fold apply_op ops st0"
  shows "int (card (finished st)) \<le> m \<and>
    (dget (ms_handlers st) i = Some h \<and> \<not> is_terminal_status (ph_status h) \<and>
       list_all (\<lambda>op. \<not> concerns h op) later \<longrightarrow>
     dget (ms_handlers (fold apply_op later st)) i = Some h)"
proof -
  note new = new_store_ok [OF assms(1)]
  note ok = apply_ops_ok [OF conjunct1 [OF new], of ops, folded assms(2)]
  have "0 \<le> m" using assms(1) by (simp add: mk_memory_store_def Let_def split: if_splits)
  moreover have "card (finished st) \<le> nat m"
    using finished_bounded [of st "nat m"] ok new by simp
  ultimately show ?thesis using apply_ops_keep [of st i h later] ok by (auto simp: le_nat_iff)
qed

theorem store_caps_completed_witness:
  "int (card (finished (example_log 1))) \<le> 1 \<and>
   dget (ms_handlers (fold apply_op [OpUpdate (example_handler\<lparr>ph_handler_id := ''g'', ph_status := Completed\<rparr>),
      OpUpdate (example_handler\<lparr>ph_handler_id := ''f'', ph_status := Failed\<rparr>)] (example_log 1))) ''h'' = Some example_handler"
proof -
  have log: "example_log 1 = fold apply_op [OpUpdate example_handler] example_store" by (simp add: example_log_def)
  have h: "dget (ms_handlers (example_log 1)) ''h'' = Some example_handler"
    unfolding log by (simp add: store_update_def Let_def example_handler_def is_terminal_status_def TERMINAL_STATUSES_def)
  have run: "\<not> is_terminal_status (ph_status example_handler)"
    by (simp add: example_handler_def is_terminal_status_def TERMINAL_STATUSES_def)
  have later: "list_all (\<lambda>op. \<not> concerns example_handler op)
      [OpUpdate (example_handler\<lparr>ph_handler_id := ''g'', ph_status := Completed\<rparr>),
       OpUpdate (example_handler\<lparr>ph_handler_id := ''f'', ph_status := Failed\<rparr>)]"
    by (simp add: example_handler_def)
  from store_caps_completed [OF example_store_new log, of "''h''" example_handler] h run later show ?thesis by blast
qed





section \<open>Queues and timers\<close>

text \<open>
  C28. Draining a queue is fair: with \<open>k\<close> free slots and \<open>e\<close> eligible attempts, exactly the first
  \<open>min k e\<close> eligible attempts start, in queue order and behind the executions already running;
  delayed attempts are skipped and every attempt left keeps its place.
\<close>

theorem drain_starts_first_eligible:
  "ws_queue (fst (drain_eligible_queue sid st now)) = skip_eligible (drain_count st) (ws_queue st) \<and>
   map work_of_execution (ws_in_progress (fst (drain_eligible_queue sid st now))) =
     map work_of_execution (ws_in_progress st) @
     map work_of_attempt (take (drain_count st) (filter is_eligible (ws_queue st)))"
  by (rule drain_spec)

text \<open>
  C29. A timer tick makes every attempt that is due runnable and loses none: no attempt with a due
  time up to \<open>due\<close> stays delayed, and every pool holds the same work as before.
\<close>

theorem wakeup_releases_due_attempts:
  assumes "distinct (dkeys (workers s))" and "dget (workers s) n = Some w"
  shows "\<exists>w'. dget (workers (fst (process_wakeup_tick due s now))) n = Some w' \<and>
    pool_work w' = pool_work (worker_deepcopy w) \<and>
    (\<forall>a \<in> set (ws_queue w'). \<forall>t. ea_not_before a = Some t \<longrightarrow> due < t)"
  using assms by (rule wakeup_spec)

theorem wakeup_releases_due_attempts_witness:
  "\<exists>w w'. dget (workers example_busy) ''work'' = Some w \<and>
     dget (workers (fst (process_wakeup_tick 7 example_busy 7))) ''work'' = Some w' \<and>
     pool_work w' = pool_work (worker_deepcopy w)"
proof -
  have d: "distinct (dkeys (workers example_busy))" using example_busy_ok by (simp add: state_ok_def)
  obtain w where w: "dget (workers example_busy) ''work'' = Some w" using example_busy_running by blast
  from wakeup_releases_due_attempts [OF d w, of 7 7] w show ?thesis by blast
qed

section \<open>Collection streams and joins\<close>

text \<open>
  C30. Closing a stream delivers what it owes. Each collect step bound to the stream's source receives
  one work item per binding that has not released yet, with the batch its policy prescribes and the
  scope of the enclosing stream; other work is untouched, and the stream is gone.
\<close>

theorem close_stream_delivers_batches:
  assumes "dget (streams s) i = Some stream"
    and "distinct (map cb_id (bindings_for_source (config s) (cs_source_step stream)))"
    and "dget (workers s) n = Some w"
  shows "\<exists>w'. dget (workers (fst (close_collection_stream s i now))) n = Some w' \<and>
     pool_work w' = pool_work w + mset (map work_of_attempt (owed_releases s i (cs_scope_path stream) n
        (bindings_for_source (config s) (cs_source_step stream)))) \<and>
     streams (fst (close_collection_stream s i now)) = dpop i (streams s)"
  using close_collection_stream_spec [OF assms] by blast

theorem close_stream_delivers_batches_witness:
  "\<exists>w w'. dget (workers example_streaming) ''gather'' = Some w \<and>
     dget (workers (fst (close_collection_stream example_streaming ''S'' 3))) ''gather'' = Some w' \<and>
     pool_work w' = pool_work w + mset (map work_of_attempt (owed_releases example_streaming ''S'' [] ''gather'' [example_binding])) \<and>
     streams (fst (close_collection_stream example_streaming ''S'' 3)) = []"
proof -
  have st: "dget (streams example_streaming) ''S'' = Some example_stream"
    and b: "bindings_for_source (config example_streaming) (cs_source_step example_stream) = [example_binding]"
    and pop: "dpop ''S'' (streams example_streaming) = []" and path: "cs_scope_path example_stream = []" by code_simp+
  obtain w where w: "dget (workers example_streaming) ''gather'' = Some w"
    by (auto simp: example_streaming_def example_initial_def from_workflow_def)
  have d: "distinct (map cb_id (bindings_for_source (config example_streaming) (cs_source_step example_stream)))"
    by (simp add: b)
  from close_stream_delivers_batches [OF st d w, of 3] w show ?thesis unfolding b pop path by blast
qed

text \<open>
  C31. A collect policy releases exactly once, and the right batch: over the life of a stream, from a
  fresh release state through any sequence of arriving members to the close, one batch is released
  in all: every member for \<open>All\<close>, the first \<open>n\<close> for \<open>Take(n)\<close> (all of them when fewer arrive).
\<close>

theorem collect_releases_exactly_once:
  assumes "\<And>n. card_of (cb_policy b) = Take n \<Longrightarrow> 0 < n"
  shows "snd (arrivals b evs (new_release_state b i)) @
     (case snd (release_on_close b (fst (arrivals b evs (new_release_state b i)))) of
        None \<Rightarrow> [] | Some batch \<Rightarrow> [batch]) = [policy_batch b evs]"
  using assms by (rule release_exactly_once)

theorem collect_releases_exactly_once_witness:
  "let b = example_binding\<lparr>cb_policy := Collect (Take 2)\<rparr>; evs = map example_done [1, 2, 3] in
     snd (arrivals b evs (new_release_state b ''S'')) @
     (case snd (release_on_close b (fst (arrivals b evs (new_release_state b ''S'')))) of
        None \<Rightarrow> [] | Some batch \<Rightarrow> [batch]) = [map example_done [1, 2]]"
proof -
  have "0 < n" if "card_of (cb_policy (example_binding\<lparr>cb_policy := Collect (Take 2)\<rparr>)) = Take n" for n
    using that by simp
  note collect_releases_exactly_once [of "example_binding\<lparr>cb_policy := Collect (Take 2)\<rparr>" "map example_done [1, 2, 3]" "''S''", OF this]
  then show ?thesis by (simp add: Let_def policy_batch_def)
qed

text \<open>
  C32. A multi-slot join fires as soon as it can, and consumes exactly what it fires with. It fires with one
  matching buffered event per parameter, and the rest stays buffered; it keeps waiting only if no
  choice of distinct buffered events fits the parameters.
\<close>

theorem join_fires_when_possible:
  assumes "collect_params (ws_config ws) = Some params" and "distinct (map fst params)"
  shows "case static_collect_events ev ws of
      (ws', Some bound) \<Rightarrow> dkeys bound = map fst params \<and>
        list_all2 (\<lambda>(p, t) (k, e). event_matches (accept_event_subclasses (ws_config ws)) e t) params bound \<and>
        mset (ws_static_collect_events ws') + mset (map snd bound) = add_mset ev (mset (ws_static_collect_events ws))
    | (ws', None) \<Rightarrow> ws_static_collect_events ws' = ws_static_collect_events ws @ [ev] \<and>
        (\<forall>idxs. \<not> batch_fits (ws_static_collect_events ws @ [ev]) (accept_event_subclasses (ws_config ws)) params [] idxs)"
  using static_collect_fires [OF assms] static_collect_waits [OF assms(1)]
  by (cases "static_collect_events ev ws"; cases "snd (static_collect_events ev ws)") auto

theorem join_fires_when_possible_witness:
  "\<exists>ws' bound. static_collect_events (example_done 2) example_join = (ws', Some bound) \<and>
     dkeys bound = [''a'', ''b''] \<and>
     mset (ws_static_collect_events ws') + mset (map snd bound) = {#example_item 1, example_done 2#}"
proof -
  have p: "collect_params (ws_config example_join) = Some [(''a'', app_event ''Item''), (''b'', app_event ''Done'')]"
    "distinct (map fst [(''a'', app_event ''Item''), (''b'', app_event ''Done'')])"
    and e: "ws_static_collect_events example_join = [example_item 1]"
    by (simp_all add: example_join_def)
  have "\<not> Option.is_none (snd (static_collect_events (example_done 2) example_join))" by code_simp
  then obtain ws' bound where r: "static_collect_events (example_done 2) example_join = (ws', Some bound)"
    by (cases "static_collect_events (example_done 2) example_join") (auto simp: Option.is_none_def)
  from join_fires_when_possible [OF p, of "example_done 2"] r show ?thesis by (auto simp: e add_mset_commute)
qed

section \<open>Validation\<close>

text \<open>
  C33. The graph checks decide what they claim. A workflow has no graph error exactly when, for every
  check that is not switched off, every step is reachable from the start event, a human response or a
  catch-error handler; every event type is consumed or is an output; and every step that produces an
  event can reach an output event. Reachability is over the edges the step signatures define.
\<close>

theorem validate_graph_decides:
  assumes "distinct (dkeys steps)"
  shows "validate_graph steps start skip hs = [] \<longleftrightarrow>
    (''reachability'' \<in> set skip \<or> steps_reachable steps start hs) \<and>
    (''terminal_event'' \<in> set skip \<or> events_consumed steps start) \<and>
    (''dead_end'' \<in> set skip \<or> steps_terminate steps start)"
  using assms by (rule validate_graph_iff)

theorem validate_graph_decides_witness:
  "validate_graph example_steps StartEventT [] [''rescue''] = [] \<and>
   steps_reachable example_steps StartEventT [''rescue''] \<and> steps_terminate example_steps StartEventT"
proof -
  have "validate_graph example_steps StartEventT [] [''rescue''] = []" by code_simp
  with validate_graph_decides [OF example_steps_distinct, of StartEventT "[]" "[''rescue'']"] show ?thesis by simp
qed

text \<open>
  C34. The catch-error routing table is right: a step is routed to a handler exactly when it is an
  ordinary step of the workflow and either the handler names it, or the handler is the wildcard and no
  handler names it. In particular no handler is routed to a handler.
\<close>

theorem catch_error_routing:
  assumes "collect_catch_error_handlers steps = Inr (hs, table)"
  shows "dget table n = Some h \<longleftrightarrow> n \<in> set (dkeys steps) \<and> \<not> is_handler steps n \<and>
    (claims steps h n \<or> is_wildcard steps h \<and> (\<nexists>g. claims steps g n))"
  using assms by (rule routing_table_spec)

theorem catch_error_routing_witness:
  "\<exists>hs table. collect_catch_error_handlers example_steps = Inr (hs, table) \<and>
     dget table ''work'' = Some ''rescue'' \<and> is_wildcard example_steps ''rescue'' \<and> (\<nexists>g. claims example_steps g ''work'')"
proof -
  have c: "case collect_catch_error_handlers example_steps of Inl _ \<Rightarrow> False | Inr (hs, table) \<Rightarrow> dget table ''work'' = Some ''rescue''"
    by code_simp
  then obtain hs table where r: "collect_catch_error_handlers example_steps = Inr (hs, table)"
    by (cases "collect_catch_error_handlers example_steps") auto
  have n: "\<not> claims example_steps g ''work''" for g
    by (auto simp: claims_def example_steps_def example_step_def)
  from catch_error_routing [OF r, of "''work''" "''rescue''"] r c n show ?thesis by auto
qed

text \<open>
  C35. A validated workflow starts well formed: with the handler table of its validation and the
  collection bindings computed from its steps, the initial state satisfies the invariant; every
  \<open>list[E]\<close> step with an event element type and a policy is the target of a binding, and every
  binding leads from a fan-out step to a collect step with the collect step's types and policy.
\<close>

theorem validated_workflow_starts_ok:
  assumes "distinct (dkeys steps)" and "plain_names steps" and "validate_workflow steps cls skip = Inr r"
  shows "state_ok (from_workflow steps timeout (wvr_catch_error_handlers r) (wvr_handler_for_step r)
      (compute_collection_bindings steps)) \<and>
    (\<forall>n cfg param ts policy. (n, cfg) \<in> set steps \<longrightarrow> collection_param cfg = Some (param, ts) \<longrightarrow>
      collection_policy cfg = Some policy \<longrightarrow> event_types ts \<noteq> [] \<longrightarrow>
      (\<exists>i b. (i, b) \<in> set (compute_collection_bindings steps) \<and> cb_target_step b = n)) \<and>
    (\<forall>i b. (i, b) \<in> set (compute_collection_bindings steps) \<longrightarrow> (\<exists>scfg tcfg. (cb_source_step b, scfg) \<in> set steps \<and>
      is_fan_out scfg \<and> (cb_target_step b, tcfg) \<in> set steps \<and> collection_policy tcfg = Some (cb_policy b) \<and>
      cb_item_types b = event_types (snd (the (collection_param tcfg)))))"
proof (intro conjI allI impI)
  fix i b assume "(i, b) \<in> set (compute_collection_bindings steps)"
  then show "\<exists>scfg tcfg. (cb_source_step b, scfg) \<in> set steps \<and>
      is_fan_out scfg \<and> (cb_target_step b, tcfg) \<in> set steps \<and> collection_policy tcfg = Some (cb_policy b) \<and>
      cb_item_types b = event_types (snd (the (collection_param tcfg)))"
    by (rule compute_collection_bindings_sound) force
next
  have "cb_target_step b \<in> set (dkeys steps)" if "(i, b) \<in> set (compute_collection_bindings steps)" for i b
    by (rule compute_collection_bindings_sound [OF that]) force
  then show "state_ok (from_workflow steps timeout (wvr_catch_error_handlers r) (wvr_handler_for_step r)
      (compute_collection_bindings steps))" by (rule from_workflow_ok [OF assms(1)])
next
  fix n cfg param ts policy
  assume c: "(n, cfg) \<in> set steps" "collection_param cfg = Some (param, ts)" "collection_policy cfg = Some policy"
    and ne: "event_types ts \<noteq> []"
  from assms(3) have v: "validate_collection_bindings steps = Inr ()"
    by (auto simp: validate_workflow_def split: if_splits sum.splits)
  from ne obtain t where "t \<in> set (event_types ts)" by (cases "event_types ts") auto
  from validated_collect_in_table [OF v c this assms(2)]
  show "\<exists>i b. (i, b) \<in> set (compute_collection_bindings steps) \<and> cb_target_step b = n" .
qed

theorem validated_workflow_starts_ok_witness:
  "\<exists>r. validate_workflow example_steps ''Demo'' [] = Inr r \<and>
     state_ok (from_workflow example_steps None (wvr_catch_error_handlers r) (wvr_handler_for_step r)
       (compute_collection_bindings example_steps)) \<and>
     (\<exists>i b. (i, b) \<in> set (compute_collection_bindings example_steps) \<and> cb_target_step b = ''gather'')"
proof -
  have "\<not> isl (validate_workflow example_steps ''Demo'' [])" by code_simp
  then obtain r where r: "validate_workflow example_steps ''Demo'' [] = Inr r"
    by (cases "validate_workflow example_steps ''Demo'' []") auto
  have p: "plain_names example_steps" by code_simp
  let ?cfg = "(example_step [app_event ''Done''] 1)
          \<lparr>return_types := [StopEventT], collection_param := Some (''items'', [app_event ''Done'']),
           collection_policy := Some (Collect All)\<rparr>"
  have g: "(''gather'', ?cfg) \<in> set example_steps" "collection_param ?cfg = Some (''items'', [app_event ''Done''])"
    "collection_policy ?cfg = Some (Collect All)" "event_types [app_event ''Done''] \<noteq> []"
    by (simp_all add: example_steps_def) code_simp
  from validated_workflow_starts_ok [OF example_steps_distinct p r] g r show ?thesis by blast
qed

text \<open>
  C36. The level walk terminates and computes the stream levels: the types it collects are exactly
  those the reference relation derives, through one-to-one steps at the same level, through fan-out
  steps whose streams are collected back, and through collect steps that fan out again.
\<close>

theorem level_walk_exact:
  "(t \<in> set (same_level_types steps seeds guard) \<longleftrightarrow> in_level steps seeds (set guard) t) \<and>
   (u \<in> set (collapsed_outputs steps p guard) \<longleftrightarrow> surfaces steps p (set guard) u)"
  unfolding same_level_types_def using levels_sound levels_complete by blast

section \<open>Retry policies\<close>



text \<open>
  C38. A retry budget is enforced by the reducer: a policy whose stop condition ends after \<open>m\<close> attempts
  grants no delay from the \<open>m\<close>-th failure on, so a failing step is attempted at most \<open>m\<close> times.
\<close>

theorem retry_budget_enforced:
  assumes "stops_by m (cp_stop p)" and "m \<le> int failures"
  shows "decide_retry_delay (Some (as_retry_policy g k p)) elapsed failures exc run_id step = None"
  using assms by (rule decide_retry_budget)

theorem retry_budget_enforced_witness:
  "decide_retry_delay (Some (as_retry_policy \<lparr>rng_seeded = \<lambda>_. 0, rng_global = \<lambda>_. 0\<rparr> 0 (ConstantDelayRetryPolicy 3 5)))
     1 3 example_exn None ''work'' = None"
  by (rule retry_budget_enforced [of 3]) (simp_all add: ConstantDelayRetryPolicy_def)



section \<open>A stale collect buffer\<close>

text \<open>
  C40. An execution that adds to a \<open>collect_events\<close> buffer another worker has extended meanwhile is
  run again, but the other results of the same execution are still applied: an event it returned is
  queued although the execution will return again.
\<close>

theorem stale_collect_applies_result:
  assumes "dget (workers s) (root_step_key sid) = Some w"
    and "find_in_progress (worker_deepcopy w) wid = Inr e"
    and "length (dget_or (ss_collected_events (ip_shared_state e)) b []) < length (dget_or (ws_collected_events w) b [])"
    and "\<not> isinstance out StopEventT"
  shows "\<exists>s' cmds. process_step_result_tick \<lparr>sr_step_id = sid, sr_worker_id = wid, sr_event = ev0,
        sr_result = [AddCollectedEvent b ev, StepWorkerResult (Some out) False]\<rparr> s now run_id = Inr (s', cmds) \<and>
     CommandRunWorker sid ev (ip_worker_id e) (ip_bound_events e) \<in> set cmds \<and>
     CommandQueueEvent out None (ip_recovery_counts e) (ip_scope_path e) \<in> set cmds"
  using assms
  by (simp add: process_step_result_tick_def rerun_for_stale_collect_buffer_def Let_def mk_fan_out_scope_def
      resolve_work_item_in_stream_def classify_work_item_def new_acc_def acc_emit_def refresh_snapshot_def
      finalize_step_result_def)

theorem stale_collect_applies_result_witness:
  "\<exists>s' cmds. process_step_result_tick \<lparr>sr_step_id = StepId_root ''work'', sr_worker_id = 0, sr_event = example_item 1,
        sr_result = [AddCollectedEvent ''b'' (example_item 1), StepWorkerResult (Some (example_done 1)) False]\<rparr>
        example_stale 5 None = Inr (s', cmds) \<and>
     (\<exists>b. CommandRunWorker (StepId_root ''work'') (example_item 1) 0 b \<in> set cmds) \<and>
     (\<exists>r p. CommandQueueEvent (example_done 1) None r p \<in> set cmds)"
proof -
  obtain w e where w: "dget (workers example_stale) (root_step_key (StepId_root ''work'')) = Some w"
    "find_in_progress (worker_deepcopy w) 0 = Inr e"
    "length (dget_or (ss_collected_events (ip_shared_state e)) ''b'' []) < length (dget_or (ws_collected_events w) ''b'' [])"
    "ip_worker_id e = 0"
    using example_stale_running by auto
  have "\<not> isinstance (example_done 1) StopEventT" by code_simp
  from stale_collect_applies_result [OF w(1-3) this, of "example_item 1" "example_item 1" 5 None] w(4) show ?thesis by auto
qed

end
